(* ===== verification/Prelude.thy ===== *)
theory Prelude
  imports Main "HOL-Library.Word" "HOL-Library.Char_ord" "HOL-Library.List_Lexorder"
    "HOL-Library.Code_Target_Nat"
begin

text \<open>
  Shared ground of the development: the type names used throughout, the collections of
  rewrite rules the component theories fill, generic facts about lists, maps and sums, and
  the two interface contracts that more than one component provides (a partial inverse of an
  encoder, and an allow list that can be replaced).

  Conventions.  A Go string is a byte string, here a \<open>string\<close> (a list of \<open>char\<close>, each a
  byte); Go's string order is the lexicographic order of bytes, which \<open>HOL-Library.Char_ord\<close>
  and \<open>HOL-Library.List_Lexorder\<close> provide as the \<open>linorder\<close> of \<open>string\<close>.  An error return is
  the left side of a sum.  A Go \<open>int\<close> or \<open>time.Duration\<close> is an \<open>int\<close>; where the 64-bit width
  matters, \<open>wrap64\<close> is applied to the result.
\<close>

unbundle bit_operations_syntax

type_synonym byte = "8 word"
type_synonym bytes = "8 word list"
type_synonym 'a goresult = "string + 'a"

named_theorems go_simps
  "equations of the modelled Go library functions on constructor-shaped arguments"
named_theorems frame_simps
  "fields an operation leaves alone"

subsection \<open>Sixty-four bit integers\<close>

definition wrap64 :: "int \<Rightarrow> int" where
  "wrap64 x = (x + 2 ^ 63) mod 2 ^ 64 - 2 ^ 63"

lemma wrap64_id: "- (2 ^ 63) \<le> x \<Longrightarrow> x < 2 ^ 63 \<Longrightarrow> wrap64 x = x"
  by (simp add: wrap64_def)

lemma wrap64_range: "- (2 ^ 63) \<le> wrap64 x \<and> wrap64 x < 2 ^ 63"
  by (simp add: wrap64_def)

text \<open>A \<open>time.Duration\<close> counts nanoseconds.\<close>

definition second :: int where
  "second = 1000000000"

subsection \<open>Lists and sums\<close>

lemma list_all_replicate [simp]: "list_all P (replicate n x) = (n = 0 \<or> P x)"
  by (induction n) auto

lemma nth_append_exact [simp]: "length xs = n \<Longrightarrow> (xs @ y # ys) ! n = y"
  by auto

lemma take_append_exact: "length xs = n \<Longrightarrow> take n (xs @ ys) = xs"
  by auto

lemma drop_append_exact: "length xs = n \<Longrightarrow> drop n (xs @ ys) = ys"
  by auto

lemma sorted_key_nth_mono:
  "sorted (map f xs) \<Longrightarrow> i \<le> j \<Longrightarrow> j < length xs \<Longrightarrow> f (xs ! i) \<le> f (xs ! j)"
  using sorted_nth_mono [of "map f xs" i j] by simp

lemma map_of_filter_distinct:
  "distinct (map fst al) \<Longrightarrow>
     map_of (filter P al) k = (case map_of al k of None \<Rightarrow> None | Some v \<Rightarrow> if P (k, v) then Some v else None)"
  by (induction al) (auto split: option.splits dest: map_of_SomeD simp: image_iff)

lemma guarded_some:
  "((case m of None \<Rightarrow> None | Some v \<Rightarrow> if w = Some (g v) then Some v else None) = Some s)
     \<longleftrightarrow> m = Some s \<and> w = Some (g s)"
  by (cases m) auto

definition is_Inr :: "'e + 'a \<Rightarrow> bool" where
  "is_Inr r = (case r of Inl _ \<Rightarrow> False | Inr _ \<Rightarrow> True)"

lemma is_Inr_simps [simp]: "is_Inr (Inr x)" "\<not> is_Inr (Inl e)"
  by (simp_all add: is_Inr_def)

text \<open>The first error wins, as an early return does.\<close>

definition bind_sum :: "'e + 'a \<Rightarrow> ('a \<Rightarrow> 'e + 'b) \<Rightarrow> 'e + 'b" where
  "bind_sum r f = (case r of Inl e \<Rightarrow> Inl e | Inr x \<Rightarrow> f x)"

lemma bind_sum_simps [simp]:
  "bind_sum (Inl e) f = Inl e"
  "bind_sum (Inr x) f = f x"
  by (simp_all add: bind_sum_def)

lemma bind_sum_Inr_iff:
  "bind_sum r f = Inr y \<longleftrightarrow> (\<exists>x. r = Inr x \<and> f x = Inr y)"
  by (auto simp: bind_sum_def split: sum.splits)

lemma case_option_Inr_iff:
  "(case r of None \<Rightarrow> Inl e | Some x \<Rightarrow> f x) = Inr y \<longleftrightarrow> (\<exists>x. r = Some x \<and> f x = Inr y)"
  by (auto split: option.splits)

lemma if_Inl_iff:
  "(if b then Inl e else r) = Inr y \<longleftrightarrow> \<not> b \<and> r = Inr y"
  by simp

text \<open>How a chain of checks with early returns can have succeeded.\<close>

lemmas Inr_iffs = bind_sum_Inr_iff case_option_Inr_iff if_Inl_iff

text \<open>What reading a file gives.\<close>

datatype file_read = FileText string | FileMissing | FileError string

subsection \<open>A wire format: an encoder and its partial inverse\<close>

text \<open>
  What a peer relies on when it reads a frame another part wrote: parsing the encoding of a
  well-formed value gives that value.  Nothing else about the format is promised.
\<close>

locale wire_format =
  fixes well :: "'a \<Rightarrow> bool"
    and encode :: "'a \<Rightarrow> 'w"
    and decode :: "'w \<Rightarrow> 'e + 'a"
  assumes decode_encode: "well x \<Longrightarrow> decode (encode x) = Inr x"
begin

lemma encode_inject:
  assumes "well x" and "well y" and "encode x = encode y"
  shows "x = y"
proof -
  have "Inr x = decode (encode x)" using assms(1) by (simp add: decode_encode)
  also have "\<dots> = decode (encode y)" using assms(3) by simp
  also have "\<dots> = Inr y" using assms(2) by (simp add: decode_encode)
  finally show ?thesis by simp
qed

lemma decode_total_on_range: "w \<in> encode ` Collect well \<Longrightarrow> is_Inr (decode w)"
  by (auto simp: decode_encode)

lemma inj_on_encode: "inj_on encode (Collect well)"
  by (rule inj_onI) (auto intro: encode_inject)

end

subsection \<open>An allow list that can be replaced\<close>

text \<open>
  The media proxy and the still-image cache both gate requests on a set of stream names, and
  a credential reload replaces it in both.  What the callers rely on: exactly the non-empty
  names of the last list are allowed.
\<close>

locale allow_list =
  fixes set_names :: "string list \<Rightarrow> 's \<Rightarrow> 's"
    and allows :: "'s \<Rightarrow> string \<Rightarrow> bool"
    and accepts :: "string list \<Rightarrow> bool"
  assumes allows_set: "accepts ns \<Longrightarrow> allows (set_names ns s) n \<longleftrightarrow> n \<noteq> [] \<and> n \<in> set ns"
begin

lemma empty_name_refused: "accepts ns \<Longrightarrow> \<not> allows (set_names ns s) []"
  by (simp add: allows_set)

lemma last_list_decides:
  "accepts ns \<Longrightarrow> allows (set_names ns s) n = allows (set_names ns t) n"
  by (simp add: allows_set)

lemma dropped_name_refused:
  "accepts ns \<Longrightarrow> n \<notin> set ns \<Longrightarrow> \<not> allows (set_names ns s) n"
  by (simp add: allows_set)

end

subsection \<open>A table of workers that is reconciled with a list of wanted items\<close>

text \<open>
  The camera runtime and the device-control supervisor both keep a table of running workers by
  camera key and bring it in line with a new list of cameras.  The contract: a worker whose item
  is wanted unchanged stays, the very same worker, and every worker in the new table runs an
  item that is wanted.
\<close>

locale keyed_table =
  fixes reconcile :: "'t \<Rightarrow> 'i list \<Rightarrow> 't"
    and lookup :: "'t \<Rightarrow> string \<Rightarrow> 'w option"
    and item_of :: "'w \<Rightarrow> 'i"
    and wanted :: "'i list \<Rightarrow> string \<Rightarrow> 'i option"
    and usable :: "'t \<Rightarrow> bool"
  assumes keeps: "usable t \<Longrightarrow> lookup t k = Some w \<Longrightarrow> wanted is k = Some (item_of w) \<Longrightarrow>
      lookup (reconcile t is) k = Some w"
    and only_wanted: "usable t \<Longrightarrow> lookup (reconcile t is) k = Some w \<Longrightarrow> wanted is k = Some (item_of w)"
    and stays_usable: "usable t \<Longrightarrow> usable (reconcile t is)"
begin

lemma dropped: "usable t \<Longrightarrow> wanted is k = None \<Longrightarrow> lookup (reconcile t is) k = None"
  using only_wanted by (cases "lookup (reconcile t is) k") auto

lemma replaced:
  "usable t \<Longrightarrow> wanted is k \<noteq> Some (item_of w) \<Longrightarrow> lookup (reconcile t is) k \<noteq> Some w"
  using only_wanted by auto

text \<open>Reconciling twice with the same list disturbs no worker the first pass left running.\<close>

lemma reconcile_stable:
  assumes "usable t" and "lookup (reconcile t is) k = Some w"
  shows "lookup (reconcile (reconcile t is) is) k = Some w"
  using keeps [OF stays_usable [OF assms(1)] assms(2) only_wanted [OF assms]] .

text \<open>A worker is gone after a pass exactly when its item is no longer wanted as it was.\<close>

lemma survives_iff:
  "usable t \<Longrightarrow> lookup t k = Some w \<Longrightarrow>
     lookup (reconcile t is) k = Some w \<longleftrightarrow> wanted is k = Some (item_of w)"
  using keeps only_wanted by blast

end

end
