(* ===== verification/Go_Text.thy ===== *)
theory Go_Text
  imports Prelude
begin

text \<open>
  The parts of Go's \<open>strings\<close>, \<open>strconv\<close>, \<open>fmt\<close>, \<open>net\<close> and \<open>unicode/utf8\<close> packages the
  program uses, on byte strings: white-space trimming and field splitting (Unicode white
  space included), single-byte splitting, decimal numbers, zero and blank padding, hexadecimal
  digits, the host and port of an address, and UTF-8.  These are library functions, so none of
  them is a claim about the program; the round trips proved here are used by the components.
\<close>

abbreviation ord :: "char \<Rightarrow> nat" where
  "ord \<equiv> of_char"

lemma ord_less_256 [simp]: "ord c < 256"
  by (metis mod_less_divisor of_char_mod_256 zero_less_numeral)

lemma char_of_ord [simp]: "char_of (ord c) = c"
  by simp

lemma ord_char_of [simp]: "n < 256 \<Longrightarrow> ord (char_of n) = n"
  by simp

subsection \<open>Character classes\<close>

text \<open>\<open>printable\<close> is the test of every identifier check: a byte in 0x21..0x7e.  Applied to
  the runes of a string (\<open>strings.IndexFunc\<close>) it refuses the same strings, because every byte
  of a multi-byte rune, and every invalid byte, is at least 0x80 and so is its rune.\<close>

definition printable :: "char \<Rightarrow> bool" where
  "printable c \<longleftrightarrow> 33 \<le> ord c \<and> ord c \<le> 126"

definition is_digit :: "char \<Rightarrow> bool" where
  "is_digit c \<longleftrightarrow> 48 \<le> ord c \<and> ord c \<le> 57"

definition ascii_space :: "char \<Rightarrow> bool" where
  "ascii_space c \<longleftrightarrow> 9 \<le> ord c \<and> ord c \<le> 13 \<or> ord c = 32"

definition lower :: "char \<Rightarrow> char" where
  "lower c = (if 65 \<le> ord c \<and> ord c \<le> 90 then char_of (ord c + 32) else c)"

lemma digit_printable: "is_digit c \<Longrightarrow> printable c"
  by (simp add: is_digit_def printable_def)

lemma printable_not_space: "printable c \<Longrightarrow> \<not> ascii_space c"
  by (auto simp: printable_def ascii_space_def)

lemma printable_ascii: "printable c \<Longrightarrow> ord c < 128"
  by (simp add: printable_def)

lemma not_printable_blank [simp]: "\<not> printable CHR '' ''"
  by (simp add: printable_def)

lemma not_digit_chars [simp]:
  "\<not> is_digit CHR '' ''" "\<not> is_digit CHR '':''" "\<not> is_digit CHR ''-''" "\<not> is_digit CHR ''+''"
  by (simp_all add: is_digit_def)

subsection \<open>White space (unicode.IsSpace) on UTF-8 bytes\<close>

text \<open>
  The length of the white-space rune a byte string starts with, 0 when it starts with
  another rune.  A lead byte is never a continuation byte, so testing at every byte position
  agrees with decoding rune by rune: U+0085, U+00A0, U+1680, U+2000..U+200A, U+2028, U+2029,
  U+202F, U+205F and U+3000 besides the six ASCII characters.
\<close>

definition wide_space3 :: "nat \<Rightarrow> nat \<Rightarrow> nat \<Rightarrow> bool" where
  "wide_space3 a b c \<longleftrightarrow>
     a = 225 \<and> b = 154 \<and> c = 128
   \<or> a = 226 \<and> b = 128 \<and> (128 \<le> c \<and> c \<le> 138 \<or> c = 168 \<or> c = 169 \<or> c = 175)
   \<or> a = 226 \<and> b = 129 \<and> c = 159
   \<or> a = 227 \<and> b = 128 \<and> c = 128"

definition wide_space2 :: "nat \<Rightarrow> nat \<Rightarrow> bool" where
  "wide_space2 a b \<longleftrightarrow> a = 194 \<and> (b = 133 \<or> b = 160)"

definition space_width :: "string \<Rightarrow> nat" where
  "space_width s = (case s of
       [] \<Rightarrow> 0
     | a # r \<Rightarrow> if ascii_space a then 1 else (case r of
           [] \<Rightarrow> 0
         | b # q \<Rightarrow> if wide_space2 (ord a) (ord b) then 2 else (case q of
               [] \<Rightarrow> 0
             | c # _ \<Rightarrow> if wide_space3 (ord a) (ord b) (ord c) then 3 else 0)))"

text \<open>The same at the end of the string, given in reverse.\<close>

definition rev_space_width :: "string \<Rightarrow> nat" where
  "rev_space_width s = (case s of
       [] \<Rightarrow> 0
     | c # r \<Rightarrow> if ascii_space c then 1 else (case r of
           [] \<Rightarrow> 0
         | b # q \<Rightarrow> if wide_space2 (ord b) (ord c) then 2 else (case q of
               [] \<Rightarrow> 0
             | a # _ \<Rightarrow> if wide_space3 (ord a) (ord b) (ord c) then 3 else 0)))"

lemma space_width_ascii: "ord c < 128 \<Longrightarrow> \<not> ascii_space c \<Longrightarrow> space_width (c # s) = 0"
  by (auto simp: space_width_def wide_space2_def wide_space3_def split: list.splits)

lemma rev_space_width_ascii: "ord c < 128 \<Longrightarrow> \<not> ascii_space c \<Longrightarrow> rev_space_width (c # s) = 0"
  by (auto simp: rev_space_width_def wide_space2_def wide_space3_def split: list.splits)

lemma space_width_ascii_space: "ascii_space c \<Longrightarrow> space_width (c # s) = 1"
  by (simp add: space_width_def)

lemma space_width_Nil [simp]: "space_width [] = 0"
  by (simp add: space_width_def)

function drop_spaces :: "(string \<Rightarrow> nat) \<Rightarrow> string \<Rightarrow> string" where
  "drop_spaces w s = (if s = [] \<or> w s = 0 then s else drop_spaces w (drop (w s) s))"
  by pat_completeness auto
termination
  by (relation "measure (\<lambda>(w, s). length s)") auto

declare drop_spaces.simps [simp del]

definition trim_space :: "string \<Rightarrow> string" where
  "trim_space s = rev (drop_spaces rev_space_width (rev (drop_spaces space_width s)))"

lemma drop_spaces_stop: "w s = 0 \<Longrightarrow> drop_spaces w s = s"
  by (simp add: drop_spaces.simps)

lemma trim_space_plain: "list_all printable s \<Longrightarrow> trim_space s = s"
proof (cases s)
  case Nil
  then show ?thesis by (simp add: trim_space_def drop_spaces.simps)
next
  case (Cons c cs)
  assume p: "list_all printable s"
  then have front: "space_width s = 0"
    using Cons by (auto intro!: space_width_ascii dest: printable_ascii printable_not_space)
  obtain d ds where r: "rev s = d # ds" using Cons by (cases "rev s") auto
  then have "d \<in> set s" by (metis list.set_intros(1) set_rev)
  with p have "printable d" by (simp add: list_all_iff)
  then have "rev_space_width (rev s) = 0"
    using r by (auto intro!: rev_space_width_ascii dest: printable_ascii printable_not_space)
  with front show ?thesis by (simp add: trim_space_def drop_spaces_stop)
qed

text \<open>\<open>strings.Fields\<close>: the maximal runs of non-space.\<close>

function fields_from :: "string \<Rightarrow> string \<Rightarrow> string list" where
  "fields_from cur [] = (if cur = [] then [] else [cur])"
| "fields_from cur (c # cs) =
     (let w = space_width (c # cs)
      in if w = 0 then fields_from (cur @ [c]) cs
         else (if cur = [] then [] else [cur]) @ fields_from [] (drop (w - 1) cs))"
  by pat_completeness auto
termination
  by (relation "measure (\<lambda>(cur, s). length s)") auto

declare fields_from.simps(2) [simp del]

definition str_fields :: "string \<Rightarrow> string list" where
  "str_fields s = fields_from [] s"

lemma fields_from_run:
  "list_all printable a \<Longrightarrow> fields_from cur (a @ s) = fields_from (cur @ a) s"
proof (induction a arbitrary: cur)
  case Nil
  then show ?case by simp
next
  case (Cons c a)
  then have "space_width (c # (a @ s)) = 0"
    by (auto intro!: space_width_ascii dest: printable_ascii printable_not_space)
  with Cons show ?case by (simp add: fields_from.simps(2))
qed

lemma fields_from_space:
  "ascii_space c \<Longrightarrow> fields_from cur (c # s) = (if cur = [] then [] else [cur]) @ fields_from [] s"
  by (simp add: space_width_ascii_space fields_from.simps(2))

lemma ascii_space_blank [simp]:
  "ascii_space CHR '' ''" "ascii_space CHR 0x0A" "ascii_space CHR 0x0D"
  by (simp_all add: ascii_space_def)

text \<open>A field the printer may write: non-empty printable ASCII.\<close>

definition word_field :: "string \<Rightarrow> bool" where
  "word_field s \<longleftrightarrow> s \<noteq> [] \<and> list_all printable s"

text \<open>Joining with single blanks, as \<open>strings.Join(parts, " ")\<close>.\<close>

fun join_sp :: "string list \<Rightarrow> string" where
  "join_sp [] = []"
| "join_sp [a] = a"
| "join_sp (a # b # r) = a @ CHR '' '' # join_sp (b # r)"

lemma fields_join_end:
  assumes "list_all word_field ws" and "\<And>cur. fields_from cur end = (if cur = [] then [] else [cur])"
  shows "str_fields (join_sp ws @ end) = ws"
  using assms(1)
proof (induction ws rule: join_sp.induct)
  case 1
  then show ?case using assms(2) [of "[]"] by (simp add: str_fields_def)
next
  case (2 a)
  then show ?case by (simp add: str_fields_def fields_from_run word_field_def assms(2))
next
  case (3 a b r)
  then have "fields_from [] (join_sp (b # r) @ end) = b # r"
    by (simp add: str_fields_def)
  with 3 show ?case
    by (simp add: str_fields_def fields_from_run word_field_def fields_from_space)
qed

lemma fields_join: "list_all word_field ws \<Longrightarrow> str_fields (join_sp ws) = ws"
  using fields_join_end [of ws "[]"] by simp

lemma fields_join_nl: "list_all word_field ws \<Longrightarrow> str_fields (join_sp ws @ [CHR 0x0A]) = ws"
  by (rule fields_join_end) (auto simp: fields_from_space)


subsection \<open>Splitting at one byte (strings.Split, strings.Cut)\<close>

fun split_at :: "char \<Rightarrow> string \<Rightarrow> string list" where
  "split_at d [] = [[]]"
| "split_at d (c # cs) =
     (if c = d then [] # split_at d cs
      else (case split_at d cs of [] \<Rightarrow> [[c]] | p # ps \<Rightarrow> (c # p) # ps))"

lemma split_at_nonempty: "split_at d s \<noteq> []"
  by (induction s) (auto split: list.splits)

lemma split_at_plain: "d \<notin> set s \<Longrightarrow> split_at d s = [s]"
  by (induction s) auto

lemma split_at_append: "d \<notin> set a \<Longrightarrow> split_at d (a @ d # s) = a # split_at d s"
  by (induction a) auto

lemma split_at_join:
  "ws \<noteq> [] \<Longrightarrow> list_all (\<lambda>w. CHR '' '' \<notin> set w) ws \<Longrightarrow> split_at CHR '' '' (join_sp ws) = ws"
  by (induction ws rule: join_sp.induct) (auto simp: split_at_plain split_at_append)

text \<open>The prefix before the first separator and whether there was one.\<close>

fun cut :: "char \<Rightarrow> string \<Rightarrow> string \<times> string \<times> bool" where
  "cut d [] = ([], [], False)"
| "cut d (c # cs) =
     (if c = d then ([], cs, True) else (case cut d cs of (a, b, f) \<Rightarrow> (c # a, b, f)))"

lemma cut_found: "d \<notin> set a \<Longrightarrow> cut d (a @ d # s) = (a, s, True)"
  by (induction a) auto

lemma cut_absent: "d \<notin> set s \<Longrightarrow> cut d s = (s, [], False)"
  by (induction s) auto

subsection \<open>Trimming a set of bytes\<close>

definition trim_left :: "string \<Rightarrow> string \<Rightarrow> string" where
  "trim_left cut_set s = dropWhile (\<lambda>c. c \<in> set cut_set) s"

definition trim_right :: "string \<Rightarrow> string \<Rightarrow> string" where
  "trim_right cut_set s = rev (dropWhile (\<lambda>c. c \<in> set cut_set) (rev s))"

definition trim :: "string \<Rightarrow> string \<Rightarrow> string" where
  "trim cut_set s = trim_right cut_set (trim_left cut_set s)"

lemma trim_right_id:
  "s = [] \<or> last s \<notin> set cut_set \<Longrightarrow> trim_right cut_set s = s"
  by (cases s rule: rev_cases) (auto simp: trim_right_def)

lemma trim_right_snoc [simp]:
  "trim_right cut_set (s @ [c]) = (if c \<in> set cut_set then trim_right cut_set s else s @ [c])"
  by (simp add: trim_right_def)

lemma trim_right_last:
  "trim_right cut_set s \<noteq> [] \<Longrightarrow> last (trim_right cut_set s) \<notin> set cut_set"
  by (induction s rule: rev_induct) (auto simp: trim_right_def split: if_splits)

lemma trim_right_prefix: "\<exists>t. s = trim_right cut_set s @ t \<and> set t \<subseteq> set cut_set"
proof (induction s rule: rev_induct)
  case Nil
  then show ?case by (simp add: trim_right_def)
next
  case (snoc c s)
  then obtain t where "s = trim_right cut_set s @ t" "set t \<subseteq> set cut_set" by blast
  then show ?case
    by (cases "c \<in> set cut_set") (auto intro!: exI [of _ "t @ [c]"])
qed

definition trim_prefix :: "string \<Rightarrow> string \<Rightarrow> string" where
  "trim_prefix p s = (if take (length p) s = p then drop (length p) s else s)"

definition trim_suffix :: "string \<Rightarrow> string \<Rightarrow> string" where
  "trim_suffix p s =
     (if length p \<le> length s \<and> drop (length s - length p) s = p
      then take (length s - length p) s else s)"

definition has_prefix :: "string \<Rightarrow> string \<Rightarrow> bool" where
  "has_prefix p s \<longleftrightarrow> take (length p) s = p"

text \<open>ASCII lower case; equal to \<open>strings.ToLower\<close> wherever the result is compared with a
  word of letters no other rune folds to, which is how the program uses it.\<close>

definition to_lower :: "string \<Rightarrow> string" where
  "to_lower s = map lower s"

definition equal_fold :: "string \<Rightarrow> string \<Rightarrow> bool" where
  "equal_fold a b \<longleftrightarrow> to_lower a = to_lower b"

subsection \<open>Decimal numbers (strconv, fmt)\<close>

definition digit_val :: "char \<Rightarrow> nat" where
  "digit_val c = ord c - 48"

definition digit_char :: "nat \<Rightarrow> char" where
  "digit_char d = char_of (48 + d)"

fun dec_val :: "nat \<Rightarrow> string \<Rightarrow> nat" where
  "dec_val a [] = a"
| "dec_val a (c # cs) = dec_val (10 * a + digit_val c) cs"

fun dec_digits :: "nat \<Rightarrow> string" where
  "dec_digits n = (if n < 10 then [digit_char n] else dec_digits (n div 10) @ [digit_char (n mod 10)])"

declare dec_digits.simps [simp del]

definition parse_digits :: "string \<Rightarrow> nat option" where
  "parse_digits s = (if s \<noteq> [] \<and> list_all is_digit s then Some (dec_val 0 s) else None)"

text \<open>\<open>strconv.Atoi\<close> and \<open>strconv.ParseInt(s, 10, 64)\<close>; \<open>None\<close> is a syntax or range error.\<close>

definition atoi :: "string \<Rightarrow> int option" where
  "atoi s =
     (let neg = (s \<noteq> [] \<and> hd s = CHR ''-'');
          body = (if s \<noteq> [] \<and> (hd s = CHR ''-'' \<or> hd s = CHR ''+'') then tl s else s)
      in case parse_digits body of
           None \<Rightarrow> None
         | Some n \<Rightarrow>
             (let v = (if neg then - int n else int n)
              in if - (2 ^ 63) \<le> v \<and> v < 2 ^ 63 then Some v else None))"

text \<open>\<open>strconv.ParseUint(s, 10, bits)\<close>: no sign is accepted.\<close>

definition parse_uint :: "nat \<Rightarrow> string \<Rightarrow> nat option" where
  "parse_uint bits s =
     (case parse_digits s of None \<Rightarrow> None | Some n \<Rightarrow> if n < 2 ^ bits then Some n else None)"

definition itoa :: "int \<Rightarrow> string" where
  "itoa n = (if n < 0 then CHR ''-'' # dec_digits (nat (- n)) else dec_digits (nat n))"

text \<open>\<open>%0wd\<close> of a number that is not negative.\<close>

definition zero_pad :: "nat \<Rightarrow> nat \<Rightarrow> string" where
  "zero_pad w n = replicate (w - length (dec_digits n)) CHR ''0'' @ dec_digits n"

text \<open>\<open>%-ws\<close>: left-justified, padded with blanks to at least \<open>w\<close> runes.\<close>

definition pad_right :: "nat \<Rightarrow> string \<Rightarrow> string" where
  "pad_right w s = s @ replicate (w - length s) CHR '' ''"

lemma digit_char_digit [simp]: "d < 10 \<Longrightarrow> is_digit (digit_char d)"
  by (simp add: digit_char_def is_digit_def)

lemma digit_val_char [simp]: "d < 10 \<Longrightarrow> digit_val (digit_char d) = d"
  by (simp add: digit_char_def digit_val_def)

lemma is_digit_zero [simp]: "is_digit CHR ''0''" "digit_val CHR ''0'' = 0"
  by (simp_all add: is_digit_def digit_val_def)

lemma dec_val_append: "dec_val a (s @ t) = dec_val (dec_val a s) t"
  by (induction s arbitrary: a) auto

lemma dec_val_zeros [simp]: "dec_val 0 (replicate k CHR ''0'' @ s) = dec_val 0 s"
  by (induction k) auto

lemma dec_digits_digits: "list_all is_digit (dec_digits n)"
proof (induction n rule: dec_digits.induct)
  case (1 n)
  then show ?case by (subst dec_digits.simps) auto
qed

lemma dec_digits_nonempty [simp]: "dec_digits n \<noteq> []"
  by (subst dec_digits.simps) simp

lemma dec_val_dec_digits [simp]: "dec_val 0 (dec_digits n) = n"
proof (induction n rule: dec_digits.induct)
  case (1 n)
  then show ?case by (subst dec_digits.simps) (auto simp: dec_val_append)
qed

lemma length_dec_digits: "n < 10 ^ w \<Longrightarrow> 0 < w \<Longrightarrow> length (dec_digits n) \<le> w"
proof (induction n arbitrary: w rule: dec_digits.induct)
  case (1 n)
  show ?case
  proof (cases "n < 10")
    case True
    then show ?thesis using 1(3) by (subst dec_digits.simps) simp
  next
    case False
    with 1(2,3) obtain v where w: "w = Suc v" "0 < v"
      by (cases w) (auto, metis not_less_zero power_0 mult.right_neutral neq0_conv)
    with False 1(2) have "length (dec_digits (n div 10)) \<le> v"
      by (intro 1(1)) auto
    with False w show ?thesis by (subst dec_digits.simps) simp
  qed
qed

lemma parse_digits_dec_digits [simp]: "parse_digits (dec_digits n) = Some n"
  by (simp add: parse_digits_def dec_digits_digits)

lemma hd_digit_not_sign:
  "list_all is_digit s \<Longrightarrow> s \<noteq> [] \<Longrightarrow> hd s \<noteq> CHR ''-'' \<and> hd s \<noteq> CHR ''+''"
  by (cases s) auto

lemma atoi_digits:
  "s \<noteq> [] \<Longrightarrow> list_all is_digit s \<Longrightarrow> dec_val 0 s < 2 ^ 63 \<Longrightarrow> atoi s = Some (int (dec_val 0 s))"
  using hd_digit_not_sign [of s] by (simp add: atoi_def parse_digits_def)

lemma atoi_range: "atoi s = Some v \<Longrightarrow> - (2 ^ 63) \<le> v \<and> v < 2 ^ 63"
  by (auto simp: atoi_def Let_def split: option.splits if_splits)

lemma atoi_itoa:
  assumes "- (2 ^ 63) \<le> n" and "n < 2 ^ 63"
  shows "atoi (itoa n) = Some n"
proof (cases "n < 0")
  case True
  then show ?thesis using assms by (simp add: atoi_def itoa_def)
next
  case False
  then have "itoa n = dec_digits (nat n)" by (simp add: itoa_def)
  with False assms show ?thesis
    using atoi_digits [of "dec_digits (nat n)"] by (simp add: dec_digits_digits)
qed

lemma parse_uint_dec_digits: "n < 2 ^ bits \<Longrightarrow> parse_uint bits (dec_digits n) = Some n"
  by (simp add: parse_uint_def)

lemma parse_uint_bound: "parse_uint bits s = Some n \<Longrightarrow> n < 2 ^ bits"
  by (auto simp: parse_uint_def split: option.splits if_splits)

lemma dec_digits_word_field: "word_field (dec_digits n)"
  using dec_digits_digits [of n] by (auto simp: word_field_def list_all_iff digit_printable)

lemma itoa_word_field: "word_field (itoa n)"
  using dec_digits_word_field by (auto simp: itoa_def word_field_def printable_def)

lemma word_field_no_blank: "word_field s \<Longrightarrow> CHR '' '' \<notin> set s"
  by (auto simp: word_field_def list_all_iff)

lemma zero_pad_digits: "list_all is_digit (zero_pad w n)"
  by (simp add: zero_pad_def dec_digits_digits)

lemma zero_pad_value [simp]: "dec_val 0 (zero_pad w n) = n"
  by (simp add: zero_pad_def)

lemma zero_pad_length: "n < 10 ^ w \<Longrightarrow> 0 < w \<Longrightarrow> length (zero_pad w n) = w"
  using length_dec_digits [of n w] by (simp add: zero_pad_def)

lemma zero_pad_nonempty [simp]: "zero_pad w n \<noteq> []"
  by (simp add: zero_pad_def)

lemma dec_val_bound: "list_all is_digit s \<Longrightarrow> dec_val a s < (a + 1) * 10 ^ length s"
proof (induction s arbitrary: a)
  case Nil
  then show ?case by simp
next
  case (Cons c s)
  then have "dec_val (10 * a + digit_val c) s < (10 * a + digit_val c + 1) * 10 ^ length s"
    by simp
  also have "digit_val c \<le> 9" using Cons.prems by (clarsimp simp: is_digit_def digit_val_def) arith
  then have "(10 * a + digit_val c + 1) * 10 ^ length s \<le> (10 * (a + 1)) * 10 ^ length s"
    by (intro mult_right_mono) auto
  finally show ?case by (simp add: algebra_simps)
qed

lemma digit_val_inject:
  assumes "is_digit x" and "is_digit y" and "digit_val x = digit_val y"
  shows "x = y"
  using assms eq_diff_iff [of 48 "ord x" "ord y"] by (simp add: digit_val_def is_digit_def)

lemma dec_val_inject:
  "length xs = length ys \<Longrightarrow> list_all is_digit xs \<Longrightarrow> list_all is_digit ys
    \<Longrightarrow> dec_val 0 xs = dec_val 0 ys \<Longrightarrow> xs = ys"
proof (induction xs arbitrary: ys rule: rev_induct)
  case Nil
  then show ?case by simp
next
  case (snoc x xs)
  then obtain y zs where ys: "ys = zs @ [y]" by (cases ys rule: rev_cases) auto
  have d: "is_digit x" "is_digit y" using snoc.prems ys by auto
  then have "digit_val x \<le> 9 \<and> digit_val y \<le> 9" by (auto simp: digit_val_def is_digit_def)
  moreover have "10 * dec_val 0 xs + digit_val x = 10 * dec_val 0 zs + digit_val y"
    using snoc.prems ys by (simp add: dec_val_append)
  ultimately have v: "dec_val 0 xs = dec_val 0 zs" "digit_val x = digit_val y" by arith+
  with snoc ys have "xs = zs" by auto
  with v(2) d ys show ?case by (simp add: digit_val_inject)
qed

lemma zero_pad_dec_val:
  assumes "list_all is_digit d" and "d \<noteq> []"
  shows "zero_pad (length d) (dec_val 0 d) = d"
proof (rule dec_val_inject)
  have "dec_val 0 d < 10 ^ length d" using dec_val_bound [OF assms(1), of 0] by simp
  then show "length (zero_pad (length d) (dec_val 0 d)) = length d"
    using assms(2) by (intro zero_pad_length) auto
qed (simp_all add: zero_pad_digits assms)

subsection \<open>Hexadecimal digits (encoding/hex, %x)\<close>

definition hex_digit :: "nat \<Rightarrow> char" where
  "hex_digit d = (if d < 10 then char_of (48 + d) else char_of (87 + d))"

definition hex_byte :: "byte \<Rightarrow> string" where
  "hex_byte b = [hex_digit (unat b div 16), hex_digit (unat b mod 16)]"

definition hex_encode :: "bytes \<Rightarrow> string" where
  "hex_encode bs = concat (map hex_byte bs)"

lemma length_hex_encode: "length (hex_encode bs) = 2 * length bs"
  by (induction bs) (auto simp: hex_encode_def hex_byte_def)

definition hex_char :: "char \<Rightarrow> bool" where
  "hex_char c \<longleftrightarrow> is_digit c \<or> 97 \<le> ord c \<and> ord c \<le> 102"

lemma hex_digit_char: "d < 16 \<Longrightarrow> hex_char (hex_digit d)"
  by (auto simp: hex_digit_def hex_char_def is_digit_def)

lemma unat_byte_less: "unat (b :: byte) < 256"
  using unsigned_less [of b, where 'a = nat] by simp

lemma hex_encode_chars: "list_all hex_char (hex_encode bs)"
proof (induction bs)
  case Nil
  then show ?case by (simp add: hex_encode_def)
next
  case (Cons b bs)
  have "unat b div 16 < 16" using unat_byte_less [of b] by simp
  with Cons show ?case by (simp add: hex_encode_def hex_byte_def hex_digit_char)
qed

text \<open>\<open>%08x\<close> of a \<open>uint32\<close>: always eight digits.\<close>

fun hex_digits :: "nat \<Rightarrow> nat \<Rightarrow> string" where
  "hex_digits 0 n = []"
| "hex_digits (Suc k) n = hex_digits k (n div 16) @ [hex_digit (n mod 16)]"

lemma length_hex_digits [simp]: "length (hex_digits k n) = k"
  by (induction k arbitrary: n) auto

lemma hex_digits_chars: "list_all hex_char (hex_digits k n)"
  by (induction k arbitrary: n) (auto simp: hex_digit_char)

lemma hex_char_lower: "hex_char c \<Longrightarrow> lower c = c"
  by (auto simp: hex_char_def is_digit_def lower_def)

end
