(* ===== verification/Rtsp_Mock.thy ===== *)
theory Rtsp_Mock
  imports Go_Text "HOL-Library.Multiset"
begin

text \<open>
  \<open>internal/rtspmock\<close>: the camera the offline tests put behind the bridge, and the client that
  holds a whole RTSP conversation with it.  The camera (\<open>rtspmock.go\<close>) reads one request after
  the other and answers each; PLAY is followed by the media packets, each in an interleaved
  frame.  The client (\<open>client.go\<close>) asks OPTIONS, DESCRIBE, SETUP, PLAY, reads the number of
  packets it wants and says TEARDOWN.

  A connection is a stream of bytes, here a \<open>string\<close>.  A reader takes the bytes not yet read and
  returns what it read and the bytes left; a reader that needs more bytes than the peer ever
  sends is \<open>Starved\<close>: its read returns an error when the peer has closed, and waits for the
  peer otherwise.  Go's order of map iteration, and which of its writes a connection lets fail,
  are parameters.
\<close>

section \<open>Reading lines and headers\<close>

datatype rtsp_error =
    Starved
  | WriteFailed
  | MalformedRequest
  | BadStatus string
  | BadLength string
  | PacketTooLarge
  | Desynchronised
  | Panic
  | AtStage string rtsp_error

text \<open>\<open>ReadString\<close> up to the newline, which is part of the line.\<close>

fun read_line :: "string \<Rightarrow> (string \<times> string) option" where
  "read_line [] = None"
| "read_line (c # s) =
     (if c = CHR 0x0A then Some ([c], s)
      else map_option (\<lambda>(l, r). (c # l, r)) (read_line s))"

lemma read_line_shorter: "read_line s = Some (l, r) \<Longrightarrow> length r < length s"
  by (induction s arbitrary: l) (auto split: if_splits simp: less_SucI)

lemma read_line_at: "CHR 0x0A \<notin> set l \<Longrightarrow> read_line (l @ CHR 0x0A # r) = Some (l @ [CHR 0x0A], r)"
  by (induction l) auto

type_synonym headers = "string \<rightharpoonup> string"

text \<open>A missing header reads as the empty string.\<close>

definition header :: "headers \<Rightarrow> string \<Rightarrow> string" where
  "header h k = (case h k of None \<Rightarrow> [] | Some v \<Rightarrow> v)"

definition crlf :: string where
  "crlf = [CHR 0x0D, CHR 0x0A]"

text \<open>A header line as both readers take it apart: the key in lower case, the value trimmed.\<close>

definition header_line :: "string \<Rightarrow> (string \<times> string) option" where
  "header_line h =
     (case cut CHR '':'' h of
        (key, v, found) \<Rightarrow> if found then Some (to_lower (trim_space key), trim_space v) else None)"

section \<open>The camera\<close>

record request =
  rq_method :: string
  rq_target :: string
  rq_cseq :: string
  rq_headers :: headers

definition add_header :: "string \<times> string \<Rightarrow> request \<Rightarrow> request" where
  "add_header kv q =
     (let q' = q\<lparr>rq_headers := (rq_headers q)(fst kv \<mapsto> snd kv)\<rparr>
      in if fst kv = ''cseq'' then q'\<lparr>rq_cseq := snd kv\<rparr> else q')"

function request_headers :: "request \<Rightarrow> string \<Rightarrow> rtsp_error + request \<times> string" where
  "request_headers q s =
     (case read_line s of
        None \<Rightarrow> Inl Starved
      | Some (line, r) \<Rightarrow>
          (let h = trim_right crlf line
           in if h = [] then Inr (q, r)
              else (case header_line h of
                      None \<Rightarrow> request_headers q r
                    | Some kv \<Rightarrow> request_headers (add_header kv q) r)))"
  by pat_completeness auto
termination
  by (relation "measure (\<lambda>(q, s). length s)") (auto dest: read_line_shorter)

declare request_headers.simps [simp del]

text \<open>A body that is announced is read and dropped.\<close>

definition drain_body :: "request \<Rightarrow> string \<Rightarrow> rtsp_error + request \<times> string" where
  "drain_body q s =
     (let cl = header (rq_headers q) ''content-length''
      in if cl = [] then Inr (q, s)
         else (case atoi cl of
                 None \<Rightarrow> Inr (q, s)
               | Some n \<Rightarrow>
                   if 0 < n then (if length s < nat n then Inl Starved else Inr (q, drop (nat n) s))
                   else Inr (q, s)))"

definition read_message :: "string \<Rightarrow> rtsp_error + request \<times> string" where
  "read_message s =
     (case read_line s of
        None \<Rightarrow> Inl Starved
      | Some (line, r) \<Rightarrow>
          (case str_fields (trim_space line) of
             m # t # _ \<Rightarrow>
               bind_sum (request_headers
                  \<lparr>rq_method = m, rq_target = t, rq_cseq = [], rq_headers = Map.empty\<rparr> r)
                 (\<lambda>(q, r'). drain_body q r')
           | _ \<Rightarrow> Inl MalformedRequest))"

text \<open>What the camera has written.  \<open>lost n\<close> says whether its \<open>n\<close>-th write fails, and after
  how many bytes.\<close>

record sink =
  so_out :: string
  so_writes :: nat

definition put :: "(nat \<Rightarrow> nat option) \<Rightarrow> string \<Rightarrow> sink \<Rightarrow> bool \<times> sink" where
  "put lost b k =
     (case lost (so_writes k) of
        None \<Rightarrow> (True, k\<lparr>so_out := so_out k @ b, so_writes := Suc (so_writes k)\<rparr>)
      | Some i \<Rightarrow> (False, k\<lparr>so_out := so_out k @ take i b, so_writes := Suc (so_writes k)\<rparr>))"

definition header_out :: "string \<times> string \<Rightarrow> string" where
  "header_out kv = fst kv @ '': '' @ snd kv @ crlf"

definition response_head :: "string \<Rightarrow> (string \<times> string) list \<Rightarrow> string option \<Rightarrow> string" where
  "response_head cseq hs body =
     ''RTSP/1.0 200 OK'' @ crlf
     @ (if cseq = [] then [] else header_out (''CSeq'', cseq))
     @ concat (map header_out (filter (\<lambda>kv. snd kv \<noteq> []) hs))
     @ (case body of None \<Rightarrow> [] | Some b \<Rightarrow> header_out (''Content-Length'', itoa (int (length b))))
     @ crlf"

text \<open>\<open>order n\<close> is the order in which the \<open>n\<close>-th map of headers is walked.\<close>

type_synonym walk = "nat \<Rightarrow> (string \<times> string) list \<Rightarrow> (string \<times> string) list"

definition write_response ::
  "(nat \<Rightarrow> nat option) \<Rightarrow> walk \<Rightarrow> string \<Rightarrow> (string \<times> string) list \<Rightarrow> string option \<Rightarrow> sink \<Rightarrow> sink" where
  "write_response lost order cseq hs body k =
     (let k1 = snd (put lost (response_head cseq (order (so_writes k) hs) body) k)
      in case body of None \<Rightarrow> k1 | Some b \<Rightarrow> snd (put lost b k1))"

definition write_status :: "(nat \<Rightarrow> nat option) \<Rightarrow> string \<Rightarrow> string \<Rightarrow> sink \<Rightarrow> sink" where
  "write_status lost cseq status k =
     snd (put lost (''RTSP/1.0 '' @ status @ crlf @ ''CSeq: '' @ cseq @ crlf @ crlf) k)"

text \<open>One frame of media: a dollar, the channel, the length in two bytes, the payload.\<close>

definition be16 :: "16 word \<Rightarrow> string" where
  "be16 w = [char_of (unat (drop_bit 8 w)), char_of (unat (w AND 0xFF))]"

definition frame_head :: "char \<Rightarrow> string \<Rightarrow> string" where
  "frame_head ch p = [CHR ''$'', ch] @ be16 (word_of_nat (length p))"

definition write_interleaved ::
  "(nat \<Rightarrow> nat option) \<Rightarrow> char \<Rightarrow> string \<Rightarrow> sink \<Rightarrow> rtsp_error option \<times> sink" where
  "write_interleaved lost ch p k =
     (if 65535 < length p then (Some PacketTooLarge, k)
      else (case put lost (frame_head ch p) k of
              (False, k1) \<Rightarrow> (Some WriteFailed, k1)
            | (True, k1) \<Rightarrow>
                (case put lost p k1 of
                   (ok, k2) \<Rightarrow> (if ok then None else Some WriteFailed, k2))))"

fun write_packets ::
  "(nat \<Rightarrow> nat option) \<Rightarrow> char \<Rightarrow> string list \<Rightarrow> sink \<Rightarrow> rtsp_error option \<times> sink" where
  "write_packets lost ch [] k = (None, k)"
| "write_packets lost ch (p # ps) k =
     (case write_interleaved lost ch p k of
        (Some e, k1) \<Rightarrow> (Some e, k1)
      | (None, k1) \<Rightarrow> write_packets lost ch ps k1)"

text \<open>The media the zero value plays: packet \<open>i\<close> has a header of twelve bytes and
  \<open>20 + 7 i\<close> bytes of a linear congruential generator on 32 bits.\<close>

definition be32 :: "32 word \<Rightarrow> string" where
  "be32 w = map (\<lambda>n. char_of (unat (drop_bit n w AND 0xFF))) [24, 16, 8, 0]"

fun lcg_bytes :: "nat \<Rightarrow> 32 word \<Rightarrow> string" where
  "lcg_bytes 0 seed = []"
| "lcg_bytes (Suc n) seed =
     (let seed' = seed * 1664525 + 1013904223
      in char_of (unat (drop_bit 24 seed')) # lcg_bytes n seed')"

definition synthetic_packet :: "nat \<Rightarrow> string" where
  "synthetic_packet i =
     [CHR 0x80, CHR 0x60] @ be16 (word_of_nat i) @ be32 (word_of_nat (i * 3000)) @ be32 0xDEADBEEF
     @ lcg_bytes (20 + i * 7) (word_of_nat (i * 2654435761 + 1))"

definition synthetic_rtp :: "nat \<Rightarrow> string list" where
  "synthetic_rtp n = map synthetic_packet [0..<n]"

definition default_sdp :: string where
  "default_sdp = concat (map (\<lambda>l. l @ crlf)
     [''v=0'', ''o=- 0 0 IN IP4 127.0.0.1'', ''s=owner/streaming'', ''t=0 0'',
      ''m=video 0 RTP/AVP 96'', ''a=rtpmap:96 H264/90000'', ''a=control:camera'',
      ''m=audio 0 RTP/AVP 8'', ''a=rtpmap:8 PCMA/8000'', ''a=control:micphone''])"

record mock_camera =
  cam_sdp :: string
  cam_packets :: "string list"
  cam_channel :: char

definition sdp_of :: "mock_camera \<Rightarrow> string" where
  "sdp_of c = (if cam_sdp c \<noteq> [] then cam_sdp c else default_sdp)"

definition packets_of :: "mock_camera \<Rightarrow> string list" where
  "packets_of c = (if cam_packets c \<noteq> [] then cam_packets c else synthetic_rtp 8)"

definition session_id :: string where
  "session_id = ''12345678''"

text \<open>The answer to one request, and whether the connection goes on.\<close>

definition answer_request ::
  "(nat \<Rightarrow> nat option) \<Rightarrow> walk \<Rightarrow> mock_camera \<Rightarrow> request \<Rightarrow> sink \<Rightarrow> bool \<times> sink" where
  "answer_request lost order c q k =
     (let m = rq_method q; reply = write_response lost order (rq_cseq q)
      in if m = ''OPTIONS'' then
           (True, reply [(''Public'', ''OPTIONS, DESCRIBE, SETUP, PLAY, TEARDOWN'')] None k)
         else if m = ''DESCRIBE'' then
           (True, reply [(''Content-Type'', ''application/sdp'')] (Some (sdp_of c)) k)
         else if m = ''SETUP'' then
           (True, reply [(''Session'', session_id), (''Transport'', header (rq_headers q) ''transport'')] None k)
         else if m = ''PLAY'' then
           (case write_packets lost (cam_channel c) (packets_of c)
                   (reply [(''Session'', session_id), (''RTP-Info'', ''url=camera'')] None k) of
              (e, k') \<Rightarrow> (e = None, k'))
         else if m = ''TEARDOWN'' then (False, reply [(''Session'', session_id)] None k)
         else (True, write_status lost (rq_cseq q) ''501 Not Implemented'' k))"

lemma request_headers_shorter: "request_headers q s = Inr (q', r) \<Longrightarrow> length r < length s"
proof (induction q s rule: request_headers.induct)
  case (1 q s)
  note p = "1.prems" [unfolded request_headers.simps [of q s]]
  then obtain line r0 where l: "read_line s = Some (line, r0)" by (auto split: option.splits)
  show ?case
  proof (cases "trim_right crlf line = []")
    case True
    with p l show ?thesis by (auto dest: read_line_shorter)
  next
    case False
    then have "length r < length r0"
      using p l "1.IH" [OF l refl refl False]
      by (cases "header_line (trim_right crlf line)") (auto simp: Let_def)
    then show ?thesis using read_line_shorter [OF l] by simp
  qed
qed

lemma drain_body_shorter: "drain_body q s = Inr (q', r) \<Longrightarrow> length r \<le> length s"
  by (auto simp: drain_body_def Let_def split: option.splits if_splits)

lemma read_message_shorter:
  assumes "read_message s = Inr (q, r)"
  shows "length r < length s"
proof -
  obtain line r0 q0 r1 q1 where "read_line s = Some (line, r0)"
    and "request_headers q0 r0 = Inr (q1, r1)" and "drain_body q1 r1 = Inr (q, r)"
    using assms
    by (auto simp: read_message_def bind_sum_Inr_iff split: option.splits list.splits)
  then have "length r0 < length s" and "length r1 < length r0" and "length r \<le> length r1"
    by (blast dest: read_line_shorter request_headers_shorter drain_body_shorter)+
  then show ?thesis by simp
qed

text \<open>The connection of one client: \<open>handle\<close> on everything the client sends.\<close>

function handle_conn ::
  "(nat \<Rightarrow> nat option) \<Rightarrow> walk \<Rightarrow> mock_camera \<Rightarrow> string \<Rightarrow> sink \<Rightarrow> sink" where
  "handle_conn lost order c s k =
     (case read_message s of
        Inl _ \<Rightarrow> k
      | Inr (q, r) \<Rightarrow>
          (case answer_request lost order c q k of
             (goes_on, k') \<Rightarrow> if goes_on then handle_conn lost order c r k' else k'))"
  by pat_completeness auto
termination
  by (relation "measure (\<lambda>(lost, order, c, s, k). length s)") (auto dest: read_message_shorter)

declare handle_conn.simps [simp del]

definition camera_peer :: "(nat \<Rightarrow> nat option) \<Rightarrow> walk \<Rightarrow> mock_camera \<Rightarrow> string \<Rightarrow> string" where
  "camera_peer lost order c s = so_out (handle_conn lost order c s \<lparr>so_out = [], so_writes = 0\<rparr>)"

section \<open>The client\<close>

function response_headers :: "headers \<Rightarrow> string \<Rightarrow> rtsp_error + headers \<times> string" where
  "response_headers h s =
     (case read_line s of
        None \<Rightarrow> Inl Starved
      | Some (line, r) \<Rightarrow>
          (let l = trim_right crlf line
           in if l = [] then Inr (h, r)
              else (case header_line l of
                      None \<Rightarrow> response_headers h r
                    | Some (key, v) \<Rightarrow> response_headers (h(key \<mapsto> v)) r)))"
  by pat_completeness auto
termination
  by (relation "measure (\<lambda>(h, s). length s)") (auto dest: read_line_shorter)

declare response_headers.simps [simp del]

text \<open>\<open>make([]byte, n)\<close> panics for a negative \<open>n\<close>, and nothing has checked it.\<close>

definition read_body :: "headers \<Rightarrow> string \<Rightarrow> rtsp_error + string \<times> string" where
  "read_body h s =
     (let cl = header h ''content-length''
      in if cl = [] then Inr ([], s)
         else (case atoi cl of
                 None \<Rightarrow> Inl (BadLength cl)
               | Some n \<Rightarrow>
                   if n < 0 then Inl Panic
                   else if length s < nat n then Inl Starved
                   else Inr (take (nat n) s, drop (nat n) s)))"

definition read_response :: "string \<Rightarrow> rtsp_error + (headers \<times> string) \<times> string" where
  "read_response s =
     (case read_line s of
        None \<Rightarrow> Inl Starved
      | Some (status, r) \<Rightarrow>
          if \<not> has_prefix ''RTSP/1.0 200'' status then Inl (BadStatus (trim_space status))
          else bind_sum (response_headers Map.empty r) (\<lambda>(h, r1).
               bind_sum (read_body h r1) (\<lambda>(body, r2). Inr ((h, body), r2))))"

definition frame_length :: "string \<Rightarrow> 16 word" where
  "frame_length hd4 = word_of_nat (256 * ord (hd4 ! 2) + ord (hd4 ! 3))"

text \<open>One frame; lines of the conversation between the frames are skipped.\<close>

function read_interleaved :: "string \<Rightarrow> rtsp_error + string \<times> string" where
  "read_interleaved s =
     (case s of
        [] \<Rightarrow> Inl Starved
      | c # _ \<Rightarrow>
          if c \<noteq> CHR ''$'' then
            (case read_line s of None \<Rightarrow> Inl Starved | Some (_, r) \<Rightarrow> read_interleaved r)
          else if length s < 4 then Inl Starved
          else if s ! 0 \<noteq> CHR ''$'' then Inl Desynchronised
          else (let n = unat (frame_length (take 4 s)); r = drop 4 s
                in if length r < n then Inl Starved else Inr (take n r, drop n r)))"
  by pat_completeness auto
termination
  by (relation "measure length") (auto dest!: read_line_shorter simp del: read_line.simps)

declare read_interleaved.simps [simp del]

text \<open>The connection the conversation is held over: what the peer has sent once it has read
  the given bytes, and which writes fail.  The client's side of it: what it has written, in how
  many writes, and how much of the peer's bytes it has read.\<close>

record conn =
  cn_peer :: "string \<Rightarrow> string"
  cn_lost :: "nat \<Rightarrow> nat option"

record client =
  cl_sink :: sink
  cl_read :: nat

definition unread :: "conn \<Rightarrow> client \<Rightarrow> string" where
  "unread cn s = drop (cl_read s) (cn_peer cn (so_out (cl_sink s)))"

definition reading :: "conn \<Rightarrow> (string \<Rightarrow> rtsp_error + 'a \<times> string) \<Rightarrow> client \<Rightarrow> rtsp_error + 'a \<times> client" where
  "reading cn f s =
     bind_sum (f (unread cn s)) (\<lambda>(x, r).
       Inr (x, s\<lparr>cl_read := cl_read s + (length (unread cn s) - length r)\<rparr>))"

definition request_text :: "string \<Rightarrow> string \<Rightarrow> nat \<Rightarrow> (string \<times> string) list \<Rightarrow> string" where
  "request_text m target cseq hs =
     m @ '' '' @ target @ '' RTSP/1.0'' @ crlf
     @ header_out (''CSeq'', itoa (int cseq)) @ concat (map header_out hs) @ crlf"

definition write_request ::
  "conn \<Rightarrow> walk \<Rightarrow> string \<Rightarrow> string \<Rightarrow> nat \<Rightarrow> (string \<times> string) list \<Rightarrow> client \<Rightarrow> bool \<times> client" where
  "write_request cn order m target cseq hs s =
     (case put (cn_lost cn) (request_text m target cseq (order (so_writes (cl_sink s)) hs)) (cl_sink s) of
        (ok, k) \<Rightarrow> (ok, s\<lparr>cl_sink := k\<rparr>))"

definition round_trip ::
  "conn \<Rightarrow> walk \<Rightarrow> string \<Rightarrow> string \<Rightarrow> nat \<Rightarrow> (string \<times> string) list \<Rightarrow> client
     \<Rightarrow> rtsp_error + (headers \<times> string) \<times> client" where
  "round_trip cn order m target cseq hs s =
     (case write_request cn order m target cseq hs s of
        (False, _) \<Rightarrow> Inl WriteFailed
      | (True, s') \<Rightarrow> reading cn read_response s')"

text \<open>An error is wrapped with the step it came from; a panic passes through.\<close>

definition at_stage :: "string \<Rightarrow> rtsp_error + 'a \<Rightarrow> rtsp_error + 'a" where
  "at_stage name r =
     (case r of Inl Panic \<Rightarrow> Inl Panic | Inl e \<Rightarrow> Inl (AtStage name e) | Inr x \<Rightarrow> Inr x)"

fun read_packets :: "conn \<Rightarrow> int \<Rightarrow> nat \<Rightarrow> string list \<Rightarrow> client \<Rightarrow> rtsp_error + string list \<times> client" where
  "read_packets cn want 0 rtp s = Inr (rtp, s)"
| "read_packets cn want (Suc n) rtp s =
     bind_sum (at_stage (''read RTP '' @ itoa (int (length rtp)) @ ''/'' @ itoa want)
                 (reading cn read_interleaved s))
       (\<lambda>(p, s'). read_packets cn want n (rtp @ [p]) s')"

definition transport_offer :: string where
  "transport_offer = ''RTP/AVP/TCP;unicast;interleaved=0-1''"

definition play_media ::
  "conn \<Rightarrow> walk \<Rightarrow> string \<Rightarrow> int \<Rightarrow> client \<Rightarrow> rtsp_error + string list \<times> client" where
  "play_media cn order target want s =
     (case write_request cn order ''PLAY'' target 4 [(''Range'', ''npt=0.000-'')] s of
        (False, _) \<Rightarrow> Inl (AtStage ''PLAY write'' WriteFailed)
      | (True, s1) \<Rightarrow>
          bind_sum (at_stage ''PLAY response'' (reading cn read_response s1)) (\<lambda>(_, s2).
            if want < 0 then Inl Panic else read_packets cn want (nat want) [] s2))"

definition dialogue ::
  "conn \<Rightarrow> walk \<Rightarrow> string \<Rightarrow> int \<Rightarrow> client \<Rightarrow> rtsp_error + (string \<times> string list) \<times> client" where
  "dialogue cn order target want s =
     bind_sum (at_stage ''OPTIONS'' (round_trip cn order ''OPTIONS'' target 1 [] s)) (\<lambda>(_, s1).
     bind_sum (at_stage ''DESCRIBE''
        (round_trip cn order ''DESCRIBE'' target 2 [(''Accept'', ''application/sdp'')] s1)) (\<lambda>((_, sdp), s2).
     bind_sum (at_stage ''SETUP''
        (round_trip cn order ''SETUP'' (target @ ''/camera'') 3 [(''Transport'', transport_offer)] s2)) (\<lambda>(_, s3).
     bind_sum (play_media cn order target want s3) (\<lambda>(rtp, s4).
       Inr ((sdp, rtp), snd (write_request cn order ''TEARDOWN'' target 5 [] s4))))))"

definition fresh_client :: client where
  "fresh_client = \<lparr>cl_sink = \<lparr>so_out = [], so_writes = 0\<rparr>, cl_read = 0\<rparr>"

section \<open>What one end writes the other end reads\<close>

text \<open>White space at the ends is what trimming removes.\<close>

lemma drop_spaces_run:
  assumes "\<And>c s. ascii_space c \<Longrightarrow> w (c # s) = 1"
  shows "list_all ascii_space a \<Longrightarrow> drop_spaces w (a @ s) = drop_spaces w s"
proof (induction a)
  case Nil
  then show ?case by simp
next
  case (Cons c a)
  then show ?case using assms [of c "a @ s"] by (subst drop_spaces.simps) simp
qed

text \<open>A value that begins and ends with a visible byte.\<close>

definition firm :: "string \<Rightarrow> bool" where
  "firm s \<longleftrightarrow> s \<noteq> [] \<and> printable (hd s) \<and> printable (last s)"

lemma firm_printable: "s \<noteq> [] \<Longrightarrow> list_all printable s \<Longrightarrow> firm s"
  by (simp add: firm_def list_all_iff)

lemma firm_append: "firm a \<Longrightarrow> firm b \<Longrightarrow> firm (a @ m @ b)"
  by (auto simp: firm_def)

lemma trim_space_edges:
  assumes "firm s" and "list_all ascii_space a" and "list_all ascii_space b"
  shows "trim_space (a @ s @ b) = s"
proof -
  obtain c cs where s: "s = c # cs" using assms(1) by (cases s) (auto simp: firm_def)
  obtain d ds where r: "rev s = d # ds" using s by (cases "rev s") auto
  have "last s = d" using r s by (metis hd_rev list.sel(1))
  with assms(1) s have pd: "printable c" "printable d" by (simp_all add: firm_def)
  have front: "drop_spaces space_width (a @ s @ b) = s @ b"
    using assms(2) pd s
    by (simp add: drop_spaces_run space_width_ascii_space)
      (simp add: drop_spaces_stop space_width_ascii printable_ascii printable_not_space)
  have "list_all ascii_space (rev b)" using assms(3) by (simp add: list_all_iff)
  then have "drop_spaces rev_space_width (rev b @ rev s) = rev s"
    using pd r
    by (simp add: drop_spaces_run rev_space_width_def)
      (simp add: drop_spaces_stop rev_space_width_ascii printable_ascii printable_not_space)
  then show ?thesis by (simp add: trim_space_def front)
qed

lemma trim_space_firm: "firm s \<Longrightarrow> trim_space s = s"
  using trim_space_edges [of s "[]" "[]"] by simp

text \<open>A header both ends can write and read.\<close>

definition good_header :: "string \<times> string \<Rightarrow> bool" where
  "good_header kv \<longleftrightarrow> fst kv \<noteq> [] \<and> list_all printable (fst kv) \<and> CHR '':'' \<notin> set (fst kv)
     \<and> firm (snd kv) \<and> CHR 0x0A \<notin> set (snd kv)"

lemma newline_not_printable: "list_all printable s \<Longrightarrow> CHR 0x0A \<notin> set s"
  by (auto simp: list_all_iff printable_def)

lemma read_header: "good_header kv \<Longrightarrow> read_line (header_out kv @ r) = Some (header_out kv, r)"
  using read_line_at [of "fst kv @ '': '' @ snd kv @ [CHR 0x0D]" r]
  by (simp add: good_header_def header_out_def crlf_def newline_not_printable)

lemma strip_header:
  "good_header kv \<Longrightarrow> trim_right crlf (header_out kv) = fst kv @ CHR '':'' # CHR '' '' # snd kv"
proof -
  assume g: "good_header kv"
  then have "last (fst kv @ '': '' @ snd kv) \<notin> set crlf"
    by (auto simp: good_header_def firm_def crlf_def printable_def)
  then have "trim_right crlf (fst kv @ '': '' @ snd kv) = fst kv @ '': '' @ snd kv"
    by (intro trim_right_id) simp
  moreover have "header_out kv = ((fst kv @ '': '' @ snd kv) @ [CHR 0x0D]) @ [CHR 0x0A]"
    by (simp add: header_out_def crlf_def)
  ultimately show ?thesis by (simp only: trim_right_snoc) (simp add: crlf_def)
qed

lemma parse_header:
  assumes "good_header kv"
  shows "header_line (fst kv @ CHR '':'' # CHR '' '' # snd kv) = Some (to_lower (fst kv), snd kv)"
proof -
  have "trim_space ('' '' @ snd kv) = snd kv"
    using trim_space_edges [of "snd kv" "'' ''" "[]"] assms by (simp add: good_header_def)
  moreover have "cut CHR '':'' (fst kv @ '': '' @ snd kv) = (fst kv, '' '' @ snd kv, True)"
    using assms cut_found [of "CHR '':''" "fst kv" "'' '' @ snd kv"] by (simp add: good_header_def)
  ultimately show ?thesis using assms by (simp add: header_line_def good_header_def trim_space_plain)
qed

lemma read_blank: "read_line (crlf @ r) = Some (crlf, r)" "trim_right crlf crlf = []"
  by (simp_all add: crlf_def trim_right_def)

lemmas header_reads = read_header strip_header parse_header read_blank

definition add_line :: "headers \<Rightarrow> string \<times> string \<Rightarrow> headers" where
  "add_line h kv = h(to_lower (fst kv) \<mapsto> snd kv)"

lemma response_headers_read:
  "list_all good_header hs \<Longrightarrow>
     response_headers h (concat (map header_out hs) @ crlf @ r) = Inr (foldl add_line h hs, r)"
proof (induction hs arbitrary: h)
  case Nil
  then show ?case by (subst response_headers.simps) (simp add: header_reads)
next
  case (Cons kv hs)
  then show ?case
    by (subst response_headers.simps) (simp add: header_reads add_line_def [of h kv] del: fun_upd_apply)
qed

lemma request_headers_read:
  "list_all good_header hs \<Longrightarrow>
     request_headers q (concat (map header_out hs) @ crlf @ r)
       = Inr (foldl (\<lambda>q kv. add_header (to_lower (fst kv), snd kv) q) q hs, r)"
proof (induction hs arbitrary: q)
  case Nil
  then show ?case by (subst request_headers.simps) (simp add: header_reads)
next
  case (Cons kv hs)
  then show ?case
    by (subst request_headers.simps) (simp add: header_reads)
qed

text \<open>Headers with names of their own leave the sequence number and the length alone.\<close>

definition own_header :: "string \<times> string \<Rightarrow> bool" where
  "own_header kv \<longleftrightarrow> good_header kv \<and> to_lower (fst kv) \<notin> {''cseq'', ''content-length''}"

lemma own_good: "list_all own_header hs \<Longrightarrow> list_all good_header hs"
  by (simp add: list_all_iff own_header_def)

lemma header_add_lines:
  "list_all own_header hs \<Longrightarrow> header (foldl add_line h hs) ''content-length'' = header h ''content-length''"
  by (induction hs arbitrary: h) (auto simp: own_header_def add_line_def header_def)

lemma add_headers_own:
  "list_all own_header hs \<Longrightarrow>
     foldl (\<lambda>q kv. add_header (to_lower (fst kv), snd kv) q) q hs
       = q\<lparr>rq_headers := foldl add_line (rq_headers q) hs\<rparr>"
  by (induction hs arbitrary: q) (auto simp: own_header_def add_header_def add_line_def Let_def)

lemma word_field_firm: "word_field s \<Longrightarrow> firm s \<and> CHR 0x0A \<notin> set s"
  by (simp add: word_field_def firm_printable newline_not_printable)

lemma lower_cseq [simp]: "to_lower ''CSeq'' = ''cseq''" "to_lower ''Content-Length'' = ''content-length''"
  by code_simp+

lemma good_number: "good_header (''CSeq'', itoa n)" "good_header (''Content-Length'', itoa n)"
  using itoa_word_field [of n] by (simp_all add: good_header_def word_field_firm printable_def)

lemma request_line:
  assumes "word_field m" and "word_field t"
  shows "read_line (m @ '' '' @ t @ '' RTSP/1.0'' @ crlf @ r) = Some (m @ '' '' @ t @ '' RTSP/1.0'' @ crlf, r)"
    and "str_fields (trim_space (m @ '' '' @ t @ '' RTSP/1.0'' @ crlf)) = [m, t, ''RTSP/1.0'']"
proof -
  let ?ws = "[m, t, ''RTSP/1.0'']"
  show "read_line (m @ '' '' @ t @ '' RTSP/1.0'' @ crlf @ r) = Some (m @ '' '' @ t @ '' RTSP/1.0'' @ crlf, r)"
    using read_line_at [of "m @ '' '' @ t @ '' RTSP/1.0'' @ [CHR 0x0D]" r] assms
    by (simp add: crlf_def word_field_firm)
  have w: "word_field ''RTSP/1.0''" by code_simp
  have "firm (m @ ('' '' @ t @ '' '') @ ''RTSP/1.0'')"
    using assms w by (intro firm_append) (simp_all add: word_field_firm)
  then have "trim_space ([] @ join_sp ?ws @ crlf) = join_sp ?ws"
    by (intro trim_space_edges) (simp_all add: crlf_def)
  moreover have "str_fields (join_sp ?ws) = ?ws" using assms w by (intro fields_join) simp
  ultimately show "str_fields (trim_space (m @ '' '' @ t @ '' RTSP/1.0'' @ crlf)) = ?ws" by simp
qed

definition request_of :: "string \<Rightarrow> string \<Rightarrow> nat \<Rightarrow> (string \<times> string) list \<Rightarrow> request" where
  "request_of m t n hs =
     \<lparr>rq_method = m, rq_target = t, rq_cseq = itoa (int n),
      rq_headers = foldl add_line [''cseq'' \<mapsto> itoa (int n)] hs\<rparr>"

text \<open>The camera reads the request the client wrote, and leaves what follows.\<close>

lemma camera_reads_request:
  assumes "word_field m" and "word_field t" and "list_all own_header hs"
  shows "read_message (request_text m t n hs @ r) = Inr (request_of m t n hs, r)"
proof -
  let ?q = "\<lparr>rq_method = m, rq_target = t, rq_cseq = [], rq_headers = Map.empty\<rparr>"
  let ?hs = "(''CSeq'', itoa (int n)) # hs"
  have "request_headers ?q (concat (map header_out ?hs) @ crlf @ r) = Inr (request_of m t n hs, r)"
    using request_headers_read [of ?hs ?q r] add_headers_own [OF assms(3)] good_number own_good [OF assms(3)]
    by (simp add: request_of_def add_header_def Let_def)
  moreover have "drain_body (request_of m t n hs) r = Inr (request_of m t n hs, r)"
    using header_add_lines [OF assms(3)] by (simp add: drain_body_def request_of_def header_def)
  ultimately show ?thesis
    using request_line [OF assms(1,2)] by (simp add: read_message_def request_text_def)
qed

abbreviation body_text :: "string option \<Rightarrow> string" where
  "body_text b \<equiv> (case b of None \<Rightarrow> [] | Some x \<Rightarrow> x)"

text \<open>The client reads the answer the camera wrote, and leaves what follows.\<close>

lemma client_reads_response:
  assumes "word_field cseq" and "list_all own_header hs" and "length (body_text b) < 2 ^ 63"
  shows "\<exists>h. read_response (response_head cseq hs b @ body_text b @ r) = Inr ((h, body_text b), r)"
proof -
  let ?length = "case b of None \<Rightarrow> [] | Some x \<Rightarrow> [(''Content-Length'', itoa (int (length x)))]"
  let ?hs = "(''CSeq'', cseq) # hs @ ?length"
  have nonempty: "filter (\<lambda>kv. snd kv \<noteq> []) hs = hs"
    using assms(2) by (auto simp: filter_id_conv list_all_iff own_header_def good_header_def firm_def)
  have cseq: "cseq \<noteq> []" "good_header (''CSeq'', cseq)"
    using assms(1) by (simp_all add: word_field_def good_header_def word_field_firm printable_def)
  have good: "list_all good_header ?hs"
    using cseq own_good [OF assms(2)] by (simp add: good_number split: option.split)
  have split: "response_head cseq hs b @ s = ''RTSP/1.0 200 OK'' @ crlf @ concat (map header_out ?hs) @ crlf @ s" for s
    using cseq nonempty by (cases b) (simp_all add: response_head_def)
  have status: "read_line (''RTSP/1.0 200 OK'' @ crlf @ s) = Some (''RTSP/1.0 200 OK'' @ crlf, s)" for s
    by (simp add: crlf_def)
  have pre: "has_prefix ''RTSP/1.0 200'' (''RTSP/1.0 200 OK'' @ crlf) = True" by (simp add: has_prefix_def)
  let ?h = "foldl add_line Map.empty ?hs"
  have headers: "response_headers Map.empty (concat (map header_out ?hs) @ crlf @ s) = Inr (?h, s)" for s
    by (rule response_headers_read [OF good])
  have "header (foldl add_line [''cseq'' \<mapsto> cseq] hs) ''content-length'' = []"
    using header_add_lines [OF assms(2)] by (simp add: header_def)
  then have "header ?h ''content-length'' = (case b of None \<Rightarrow> [] | Some x \<Rightarrow> itoa (int (length x)))"
    by (cases b) (simp_all add: add_line_def header_def)
  then have "read_body ?h (body_text b @ r) = Inr (body_text b, r)"
    using assms(3) itoa_word_field
    by (cases b) (simp_all add: read_body_def word_field_def atoi_itoa)
  then have "read_response (response_head cseq hs b @ body_text b @ r) = Inr ((?h, body_text b), r)"
    unfolding split
    by (simp only: read_response_def status headers pre option.case prod.case bind_sum_simps
        not_True_eq_False if_False)
  then show ?thesis by blast
qed

subsection \<open>Frames\<close>

lemma be16_value:
  assumes "n < 65536"
  shows "\<exists>a b. be16 (word_of_nat n) = [a, b] \<and> 256 * ord a + ord b = n"
proof -
  let ?w = "word_of_nat n :: 16 word"
  have u: "unat ?w = n" using assms by (simp add: unat_of_nat)
  have "unat (drop_bit 8 ?w) = n div 256"
    unfolding unat_drop_bit_eq u by (simp add: drop_bit_eq_div)
  moreover have "unat (?w AND 0xFF) = n mod 256"
  proof -
    have "unat (?w AND 0xFF) = unat (take_bit 8 ?w)"
      by (simp only: take_bit_eq_mask) (simp add: mask_eq_exp_minus_1)
    then show ?thesis unfolding unsigned_take_bit_eq u by (simp add: take_bit_eq_mod unsigned_take_bit_eq u)
  qed
  moreover have "n div 256 < 256" using assms by simp
  ultimately show ?thesis by (simp add: be16_def)
qed

lemma read_frame:
  assumes "length p \<le> 65535"
  shows "read_interleaved (frame_head ch p @ p @ r) = Inr (p, r)"
proof -
  obtain a b where be: "be16 (word_of_nat (length p)) = [a, b]" "256 * ord a + ord b = length p"
    using be16_value [of "length p"] assms by auto
  then have head: "frame_head ch p = [CHR ''$'', ch, a, b]" by (simp add: frame_head_def)
  have "unat (frame_length [CHR ''$'', ch, a, b]) = length p"
    using be(2) assms by (simp add: frame_length_def unat_of_nat del: of_nat_add of_nat_mult)
  then show ?thesis by (subst read_interleaved.simps) (simp add: head)
qed

text \<open>On one channel the frame is a wire format: what \<open>writeInterleaved\<close> writes is what
  \<open>readInterleaved\<close> reads, so frames of different payloads differ.\<close>

interpretation frame_wire: wire_format "\<lambda>p. length p \<le> 65535" "\<lambda>p. frame_head ch p @ p"
    "\<lambda>s. map_sum id fst (read_interleaved s)" for ch
proof unfold_locales
  fix p :: string
  assume "length p \<le> 65535"
  then show "map_sum id fst (read_interleaved (frame_head ch p @ p)) = Inr p"
    using read_frame [of p ch "[]"] by simp
qed

definition frames_out :: "char \<Rightarrow> string list \<Rightarrow> string" where
  "frames_out ch ps = concat (map (\<lambda>p. frame_head ch p @ p) ps)"

text \<open>The packets that reach the wire: those before the first one too large for a frame.\<close>

definition sendable :: "string list \<Rightarrow> string list" where
  "sendable ps = takeWhile (\<lambda>p. length p \<le> 65535) ps"

abbreviation no_loss :: "nat \<Rightarrow> nat option" where
  "no_loss \<equiv> \<lambda>_. None"

lemma put_no_loss: "put no_loss b k = (True, k\<lparr>so_out := so_out k @ b, so_writes := Suc (so_writes k)\<rparr>)"
  by (simp add: put_def)

lemma write_packets_out:
  "\<exists>e k'. write_packets no_loss ch ps k = (e, k') \<and> so_out k' = so_out k @ frames_out ch (sendable ps)
     \<and> (e = None \<longleftrightarrow> sendable ps = ps)"
proof (induction ps arbitrary: k)
  case Nil
  then show ?case by (simp add: frames_out_def sendable_def)
next
  case (Cons p ps)
  show ?case
  proof (cases "length p \<le> 65535")
    case True
    let ?k = "k\<lparr>so_out := (so_out k @ frame_head ch p) @ p, so_writes := Suc (Suc (so_writes k))\<rparr>"
    have "write_interleaved no_loss ch p k = (None, ?k)"
      using True by (simp add: write_interleaved_def put_no_loss)
    with Cons.IH [of ?k] show ?thesis using True by (auto simp: frames_out_def sendable_def)
  next
    case False
    then show ?thesis by (simp add: write_interleaved_def frames_out_def sendable_def)
  qed
qed

subsection \<open>The whole conversation\<close>

text \<open>\<open>Go\<close> walks a map in some order, each entry once.\<close>

definition walks :: "walk \<Rightarrow> bool" where
  "walks order \<longleftrightarrow> (\<forall>n hs. mset (order n hs) = mset hs)"

lemma walks_small: "walks order \<Longrightarrow> order n [] = []" "walks order \<Longrightarrow> order n [kv] = [kv]"
  unfolding walks_def by (metis mset_zero_iff_right mset.simps(1), metis mset_single_iff_right mset.simps)

lemma walks_own: "walks order \<Longrightarrow> list_all own_header (order n hs) = list_all own_header hs"
  unfolding walks_def list_all_iff by (metis set_mset_mset)

abbreviation empty_sink :: sink where
  "empty_sink \<equiv> \<lparr>so_out = [], so_writes = 0\<rparr>"

text \<open>The camera has read \<open>sent\<close>, written what is in \<open>k\<close>, and waits for the next request.\<close>

definition served :: "walk \<Rightarrow> mock_camera \<Rightarrow> string \<Rightarrow> sink \<Rightarrow> bool" where
  "served order c sent k \<longleftrightarrow>
     (\<forall>r. handle_conn no_loss order c (sent @ r) empty_sink = handle_conn no_loss order c r k)"

lemma served_start: "served order c [] empty_sink"
  by (simp add: served_def)

lemma handle_nothing: "handle_conn lost order c [] k = k"
  by (simp add: handle_conn.simps read_message_def)

lemma served_output:
  assumes "served order c sent k"
  shows "camera_peer no_loss order c sent = so_out k"
proof -
  have "handle_conn no_loss order c (sent @ []) empty_sink = handle_conn no_loss order c [] k"
    using assms unfolding served_def by blast
  then show ?thesis by (simp add: camera_peer_def handle_nothing)
qed

lemma served_more:
  assumes "served order c sent k" and "word_field m" and "word_field t" and "list_all own_header hs"
    and "answer_request no_loss order c (request_of m t n hs) k = (True, k')"
  shows "served order c (sent @ request_text m t n hs) k'"
  using assms(1) camera_reads_request [OF assms(2-4)] assms(5)
  unfolding served_def by (simp add: handle_conn.simps [of _ _ _ "request_text m t n hs @ _"])

text \<open>The answer ends the conversation, but what it wrote is there.\<close>

lemma served_last:
  assumes "served order c sent k" and "word_field m" and "word_field t" and "list_all own_header hs"
    and "answer_request no_loss order c (request_of m t n hs) k = (on, k')"
  shows "camera_peer no_loss order c (sent @ request_text m t n hs) = so_out k'"
proof (cases on)
  case True
  with assms show ?thesis using served_output [OF served_more [OF assms(1-4)]] by simp
next
  case False
  have "handle_conn no_loss order c (sent @ request_text m t n hs) empty_sink
      = handle_conn no_loss order c (request_text m t n hs) k"
    using assms(1) by (simp add: served_def)
  also have "\<dots> = k'"
    using camera_reads_request [OF assms(2-4), of n "[]"] assms(5) False
    by (simp add: handle_conn.simps [of _ _ _ "request_text m t n hs"])
  finally show ?thesis by (simp add: camera_peer_def)
qed

text \<open>The connection to the camera, and a client that has read all the camera has written.\<close>

definition line_to :: "walk \<Rightarrow> mock_camera \<Rightarrow> conn" where
  "line_to order c = \<lparr>cn_peer = camera_peer no_loss order c, cn_lost = no_loss\<rparr>"

definition caught_up :: "walk \<Rightarrow> mock_camera \<Rightarrow> string \<Rightarrow> sink \<Rightarrow> client \<Rightarrow> bool" where
  "caught_up order c sent k s \<longleftrightarrow>
     served order c sent k \<and> so_out (cl_sink s) = sent \<and> cl_read s = length (so_out k)"

lemma reading_prefix:
  assumes "unread cn s = x @ r" and "f (x @ r) = Inr (y, r)"
  shows "reading cn f s = Inr (y, s\<lparr>cl_read := cl_read s + length x\<rparr>)"
    and "unread cn (s\<lparr>cl_read := cl_read s + length x\<rparr>) = r"
proof -
  show "reading cn f s = Inr (y, s\<lparr>cl_read := cl_read s + length x\<rparr>)"
    using assms by (simp add: reading_def)
  have "drop (length x) (unread cn s) = r" using assms(1) by simp
  then show "unread cn (s\<lparr>cl_read := cl_read s + length x\<rparr>) = r"
    by (simp add: unread_def add.commute)
qed

lemma write_response_out:
  "so_out (write_response no_loss order cseq hs b k)
     = so_out k @ response_head cseq (order (so_writes k) hs) b @ body_text b"
  by (simp add: write_response_def put_no_loss Let_def split: option.split)

text \<open>An answer appends what the client reads as one response.\<close>

lemma answer_readable:
  assumes "walks order" and "word_field cseq" and "list_all own_header hs" and "length (body_text b) < 2 ^ 63"
  obtains reply h where "so_out (write_response no_loss order cseq hs b k) = so_out k @ reply"
    and "\<And>r. read_response (reply @ r) = Inr ((h r, body_text b), r)"
proof -
  let ?hs = "order (so_writes k) hs"
  have "\<exists>h. read_response ((response_head cseq ?hs b @ body_text b) @ r) = Inr ((h, body_text b), r)" for r
    using client_reads_response [OF assms(2) _ assms(4), of ?hs r] assms(3) walks_own [OF assms(1)] by simp
  then show ?thesis using that write_response_out by metis
qed

text \<open>The client writes one request; the camera, in step with it, has answered.\<close>

lemma ask_in_step:
  assumes "caught_up order c sent k s" and "\<forall>j. corder j hs = hs"
    and "word_field m" and "word_field t" and "list_all own_header hs"
    and "answer_request no_loss order c (request_of m t n hs) k = (on, k')"
    and "so_out k' = so_out k @ reply"
  obtains s' where "write_request (line_to order c) corder m t n hs s = (True, s')"
    and "unread (line_to order c) s' = reply"
    and "so_out (cl_sink s') = sent @ request_text m t n hs" and "cl_read s' = length (so_out k)"
proof -
  let ?k = "(cl_sink s)\<lparr>so_out := sent @ request_text m t n hs, so_writes := Suc (so_writes (cl_sink s))\<rparr>"
  have "write_request (line_to order c) corder m t n hs s = (True, s\<lparr>cl_sink := ?k\<rparr>)"
    using assms(1,2) by (simp add: write_request_def line_to_def put_no_loss caught_up_def)
  moreover have "camera_peer no_loss order c (sent @ request_text m t n hs) = so_out k @ reply"
    using served_last [OF _ assms(3-6)] assms(1,7) by (simp add: caught_up_def)
  then have "unread (line_to order c) (s\<lparr>cl_sink := ?k\<rparr>) = reply"
    using assms(1) by (simp add: unread_def line_to_def caught_up_def)
  ultimately show ?thesis using that assms(1) by (simp add: caught_up_def)
qed

lemma round_trip_in_step:
  assumes "caught_up order c sent k s" and "\<forall>j. corder j hs = hs" and "walks order"
    and "word_field m" and "word_field t" and "list_all own_header hs"
    and "answer_request no_loss order c (request_of m t n hs) k
           = (True, write_response no_loss order (itoa (int n)) rhs b k)"
    and "list_all own_header rhs" and "body_text b = body" and "length body < 2 ^ 63"
  obtains h s' where "round_trip (line_to order c) corder m t n hs s = Inr ((h, body), s')"
    and "caught_up order c (sent @ request_text m t n hs)
           (write_response no_loss order (itoa (int n)) rhs b k) s'"
proof -
  let ?k = "write_response no_loss order (itoa (int n)) rhs b k"
  obtain reply h where reply: "so_out ?k = so_out k @ reply"
    "\<And>r. read_response (reply @ r) = Inr ((h r, body), r)"
    using answer_readable [OF assms(3) itoa_word_field assms(8), of b] assms(9,10) by metis
  obtain s1 where s1: "write_request (line_to order c) corder m t n hs s = (True, s1)"
    "unread (line_to order c) s1 = reply"
    "so_out (cl_sink s1) = sent @ request_text m t n hs" "cl_read s1 = length (so_out k)"
    using ask_in_step [where corder = corder and hs = hs, OF assms(1,2,4-7) reply(1)] by metis
  let ?s = "s1\<lparr>cl_read := cl_read s1 + length reply\<rparr>"
  have "reading (line_to order c) read_response s1 = Inr ((h [], body), ?s)"
    using reading_prefix(1) [of "line_to order c" s1 reply "[]" read_response] s1(2) reply(2) [of "[]"] by simp
  moreover have "served order c (sent @ request_text m t n hs) ?k"
    using served_more [OF _ assms(4-7)] assms(1) by (simp add: caught_up_def)
  ultimately show ?thesis
    using that s1 reply(1) by (simp add: round_trip_def caught_up_def)
qed

lemma read_packets_frames:
  assumes "unread cn s = frames_out ch ps" and "list_all (\<lambda>p. length p \<le> 65535) ps"
  shows "(\<exists>s'. read_packets cn want n rtp s =
    (if n \<le> length ps then Inr (rtp @ take n ps, s')
     else Inl (AtStage (''read RTP '' @ itoa (int (length rtp + length ps)) @ ''/'' @ itoa want) Starved)))"
  using assms
proof (induction n arbitrary: ps rtp s)
  case 0
  then show ?case by simp
next
  case (Suc n)
  show ?case
  proof (cases ps)
    case Nil
    then have "reading cn read_interleaved s = Inl Starved"
      using Suc.prems(1) by (simp add: reading_def frames_out_def read_interleaved.simps)
    then show ?thesis using Nil by (simp add: at_stage_def)
  next
    case (Cons p qs)
    then have "unread cn s = (frame_head ch p @ p) @ frames_out ch qs" "length p \<le> 65535"
      using Suc.prems by (simp_all add: frames_out_def)
    note read = reading_prefix [where f = read_interleaved, OF this(1), of p] read_frame [OF this(2)]
    let ?s = "s\<lparr>cl_read := cl_read s + length (frame_head ch p @ p)\<rparr>"
    have "reading cn read_interleaved s = Inr (p, ?s)" and "unread cn ?s = frames_out ch qs"
      using read by simp_all
    moreover have "list_all (\<lambda>p. length p \<le> 65535) qs" using Suc.prems(2) Cons by simp
    moreover have "length (rtp @ [p]) + length qs = length rtp + length ps"
      and "(rtp @ [p]) @ take n qs = rtp @ take (Suc n) ps" and "n \<le> length qs \<longleftrightarrow> Suc n \<le> length ps"
      using Cons by simp_all
    ultimately show ?thesis using Suc.IH [of ?s qs "rtp @ [p]"]
      by (simp only: read_packets.simps at_stage_def sum.case bind_sum_simps prod.case)
  qed
qed

text \<open>The headers both ends write in this conversation.\<close>

lemma offered_transport: "header (rq_headers (request_of m t n [(''Transport'', transport_offer)])) ''transport'' = transport_offer"
proof -
  have "to_lower ''Transport'' = ''transport''" by code_simp
  then show ?thesis by (simp add: request_of_def add_line_def header_def)
qed

lemma dialogue_headers:
  "list_all own_header [(''Public'', ''OPTIONS, DESCRIBE, SETUP, PLAY, TEARDOWN'')]"
  "list_all own_header [(''Accept'', ''application/sdp'')]"
  "list_all own_header [(''Content-Type'', ''application/sdp'')]"
  "list_all own_header [(''Transport'', transport_offer)]"
  "list_all own_header [(''Session'', session_id), (''Transport'', transport_offer)]"
  "list_all own_header [(''Range'', ''npt=0.000-'')]"
  "list_all own_header [(''Session'', session_id), (''RTP-Info'', ''url=camera'')]"
  by code_simp+

lemma methods_word:
  "word_field ''OPTIONS''" "word_field ''DESCRIBE''" "word_field ''SETUP''" "word_field ''PLAY''"
  by code_simp+

text \<open>What the camera answers to the requests of this conversation.\<close>

lemma camera_answers:
  "answer_request lost order c (request_of ''OPTIONS'' t n hs) k =
     (True, write_response lost order (itoa (int n)) [(''Public'', ''OPTIONS, DESCRIBE, SETUP, PLAY, TEARDOWN'')] None k)"
  "answer_request lost order c (request_of ''DESCRIBE'' t n hs) k =
     (True, write_response lost order (itoa (int n)) [(''Content-Type'', ''application/sdp'')] (Some (sdp_of c)) k)"
  "answer_request lost order c (request_of ''SETUP'' t n [(''Transport'', transport_offer)]) k =
     (True, write_response lost order (itoa (int n)) [(''Session'', session_id), (''Transport'', transport_offer)] None k)"
  by (simp_all add: answer_request_def request_of_def offered_transport [unfolded request_of_def, simplified])

text \<open>PLAY: one response, then the frames, which the client counts off.\<close>

lemma play_in_step:
  assumes "caught_up order c sent k s" and "walks order" and "walks corder" and "word_field target"
  shows "\<exists>s'. play_media (line_to order c) corder target want s =
    (let ps = sendable (packets_of c)
     in if want < 0 then Inl Panic
        else if nat want \<le> length ps then Inr (take (nat want) ps, s')
        else Inl (AtStage (''read RTP '' @ itoa (int (length ps)) @ ''/'' @ itoa want) Starved))"
proof -
  let ?ps = "sendable (packets_of c)" and ?cn = "line_to order c" and ?hs = "[(''Range'', ''npt=0.000-'')]"
  let ?k = "write_response no_loss order (itoa 4) [(''Session'', session_id), (''RTP-Info'', ''url=camera'')] None k"
  obtain reply h where reply: "so_out ?k = so_out k @ reply"
    "\<And>r. read_response (reply @ r) = Inr ((h r, []), r)"
    using answer_readable [where b = None and k = k, OF assms(2) itoa_word_field [of 4] dialogue_headers(7)] by auto
  obtain e k' where packets: "write_packets no_loss (cam_channel c) (packets_of c) ?k = (e, k')"
    "so_out k' = so_out ?k @ frames_out (cam_channel c) ?ps"
    using write_packets_out by metis
  have answer: "answer_request no_loss order c (request_of ''PLAY'' target 4 ?hs) k = (e = None, k')"
    using packets(1) by (simp add: answer_request_def request_of_def)
  have one: "\<forall>j. corder j ?hs = ?hs" using walks_small(2) [OF assms(3)] by blast
  have out: "so_out k' = so_out k @ reply @ frames_out (cam_channel c) ?ps" using reply(1) packets(2) by simp
  obtain s1 where s1: "write_request ?cn corder ''PLAY'' target 4 ?hs s = (True, s1)"
    "unread ?cn s1 = reply @ frames_out (cam_channel c) ?ps"
    using ask_in_step [where corder = corder, OF assms(1) one methods_word(4) assms(4) dialogue_headers(6) answer out]
    by metis
  note response = reading_prefix [where f = read_response, OF s1(2) reply(2)]
  have "list_all (\<lambda>p. length p \<le> 65535) ?ps"
    by (auto simp: sendable_def list_all_iff dest: set_takeWhileD)
  from read_packets_frames [OF response(2) this, of want "nat want" "[]"]
  obtain s' where "read_packets ?cn want (nat want) [] (s1\<lparr>cl_read := cl_read s1 + length reply\<rparr>)
      = (if nat want \<le> length ?ps then Inr (take (nat want) ?ps, s')
         else Inl (AtStage (''read RTP '' @ itoa (int (length ?ps)) @ ''/'' @ itoa want) Starved))"
    unfolding append_Nil list.size add_0 by blast
  then have "play_media ?cn corder target want s = (if want < 0 then Inl Panic
      else if nat want \<le> length ?ps then Inr (take (nat want) ?ps, s')
      else Inl (AtStage (''read RTP '' @ itoa (int (length ?ps)) @ ''/'' @ itoa want) Starved))"
    by (simp only: play_media_def s1(1) response(1) at_stage_def bind_sum_simps prod.case sum.case bool.case)
  then show ?thesis unfolding Let_def by blast
qed

lemma dialogue_media:
  assumes "walks order" and "walks corder" and "word_field target" and "length (sdp_of c) < 2 ^ 63"
  shows "\<exists>s'. dialogue (line_to order c) corder target want fresh_client =
    (let ps = sendable (packets_of c)
     in if want < 0 then Inl Panic
        else if nat want \<le> length ps then Inr ((sdp_of c, take (nat want) ps), s')
        else Inl (AtStage (''read RTP '' @ itoa (int (length ps)) @ ''/'' @ itoa want) Starved))"
proof -
  let ?cn = "line_to order c"
  have one: "\<forall>j. corder j [] = []" "\<forall>j. corder j [kv] = [kv]" for kv
    using walks_small [OF assms(2)] by blast+
  have url: "word_field (target @ ''/camera'')" using assms(3) by (simp add: word_field_def printable_def)
  have short: "length ([] :: string) < 2 ^ 63" by simp
  have none: "list_all own_header []" by simp
  have start: "caught_up order c [] empty_sink fresh_client"
    by (simp add: caught_up_def served_start fresh_client_def)
  obtain h1 t1 k1 s1 where trip1: "round_trip ?cn corder ''OPTIONS'' target 1 [] fresh_client = Inr ((h1, []), s1)"
    "caught_up order c t1 k1 s1"
    by (rule round_trip_in_step [where corder = corder and n = 1, OF start one(1) assms(1) methods_word(1) assms(3) none
        camera_answers(1) dialogue_headers(1) option.case(1) short])
      (rule that; assumption)
  obtain h2 t2 k2 s2 where trip2: "round_trip ?cn corder ''DESCRIBE'' target 2 [(''Accept'', ''application/sdp'')] s1
      = Inr ((h2, sdp_of c), s2)" "caught_up order c t2 k2 s2"
    by (rule round_trip_in_step [where corder = corder and n = 2, OF trip1(2) one(2) assms(1) methods_word(2) assms(3) dialogue_headers(2)
        camera_answers(2) dialogue_headers(3) option.case(2) assms(4)])
      (rule that; assumption)
  obtain h3 t3 k3 s3 where trip3: "round_trip ?cn corder ''SETUP'' (target @ ''/camera'') 3 [(''Transport'', transport_offer)] s2
      = Inr ((h3, []), s3)" "caught_up order c t3 k3 s3"
    by (rule round_trip_in_step [where corder = corder and n = 3, OF trip2(2) one(2) assms(1) methods_word(3) url dialogue_headers(4)
        camera_answers(3) dialogue_headers(5) option.case(1) short])
      (rule that; assumption)
  have "dialogue ?cn corder target want fresh_client = bind_sum (play_media ?cn corder target want s3)
      (\<lambda>(rtp, s4). Inr ((sdp_of c, rtp), snd (write_request ?cn corder ''TEARDOWN'' target 5 [] s4)))"
    by (simp only: dialogue_def trip1(1) trip2(1) trip3(1) at_stage_def sum.case bind_sum_simps prod.case)
  with play_in_step [OF trip3(2) assms(1-3), of want] show ?thesis
    by (auto simp: Let_def)
qed

text \<open>The conversation of \<open>Dialogue\<close> with the mock camera ends exactly as the camera's media
  allow, in whatever order the two ends walk their header maps: the session description returned
  is the camera's, byte for byte, and the packets are its first \<open>wantPackets\<close> packets, unchanged
  and in order.  Where the camera has fewer that fit a frame, the read of the first missing one is
  what fails; a negative count panics.\<close>

theorem dialogue_returns_media:
  assumes "walks order" and "walks corder" and "word_field target" and "length (sdp_of c) < 2 ^ 63"
  shows "\<exists>s'. dialogue (line_to order c) corder target want fresh_client =
    (let ps = sendable (packets_of c)
     in if want < 0 then Inl Panic
        else if nat want \<le> length ps then Inr ((sdp_of c, take (nat want) ps), s')
        else Inl (AtStage (''read RTP '' @ itoa (int (length ps)) @ ''/'' @ itoa want) Starved))"
  using assms by (rule dialogue_media)

theorem dialogue_returns_media_witness:
  "\<exists>s'. dialogue (line_to (\<lambda>_ hs. rev hs) \<lparr>cam_sdp = ''v=0'', cam_packets = [''ab'', [CHR 0x24], ''c''], cam_channel = CHR 0x01\<rparr>)
     (\<lambda>_ hs. hs) ''rtsp://cam/x'' 2 fresh_client = Inr ((''v=0'', [''ab'', [CHR 0x24]]), s')"
proof -
  have "walks (\<lambda>_ hs. rev hs)" and "walks (\<lambda>_ hs. hs)" by (simp_all add: walks_def)
  moreover have "word_field ''rtsp://cam/x''" by code_simp
  ultimately show ?thesis
    using dialogue_returns_media [of "\<lambda>_ hs. rev hs" "\<lambda>_ hs. hs" "''rtsp://cam/x''"
        "\<lparr>cam_sdp = ''v=0'', cam_packets = [''ab'', [CHR 0x24], ''c''], cam_channel = CHR 0x01\<rparr>" 2]
    by (simp add: sdp_of_def packets_of_def sendable_def)
qed

text \<open>What a frame carries comes back, with or without lines of the conversation before it, and
  the reader stops exactly at the frame's end; a payload that does not fit the 16-bit length is
  refused before anything is written.\<close>

lemma skip_lines:
  "list_all (\<lambda>l. l \<noteq> [] \<and> hd l \<noteq> CHR ''$'' \<and> CHR 0x0A \<notin> set l) ls \<Longrightarrow>
     read_interleaved (concat (map (\<lambda>l. l @ [CHR 0x0A]) ls) @ s) = read_interleaved s"
proof (induction ls)
  case Nil
  then show ?case by simp
next
  case (Cons l ls)
  obtain c cs where l: "l = c # cs" using Cons.prems by (cases l) auto
  let ?r = "concat (map (\<lambda>l. l @ [CHR 0x0A]) ls) @ s"
  have "read_line (c # cs @ CHR 0x0A # ?r) = Some (l @ [CHR 0x0A], ?r)"
    using read_line_at [of l ?r] Cons.prems l by simp
  moreover have "c \<noteq> CHR ''$''" using Cons.prems l by simp
  ultimately have "read_interleaved (c # cs @ CHR 0x0A # ?r) = read_interleaved ?r"
    by (subst read_interleaved.simps) (simp del: read_line.simps)
  with Cons.IH Cons.prems l show ?case by simp
qed

theorem frame_roundtrip:
  assumes "list_all (\<lambda>l. l \<noteq> [] \<and> hd l \<noteq> CHR ''$'' \<and> CHR 0x0A \<notin> set l) ls"
  shows "case write_interleaved no_loss ch p k of
           (None, k') \<Rightarrow> (\<exists>frame. so_out k' = so_out k @ frame
              \<and> read_interleaved (concat (map (\<lambda>l. l @ [CHR 0x0A]) ls) @ frame @ r) = Inr (p, r))
         | (Some e, k') \<Rightarrow> e = PacketTooLarge \<and> 65535 < length p \<and> k' = k"
  using skip_lines [OF assms, of "frame_head ch p @ p @ r"] read_frame [of p ch r]
  by (auto simp: write_interleaved_def put_no_loss)

text \<open>The length of a body is not checked before it is allocated: a peer that answers the first
  request with a negative length brings the client down.\<close>

theorem negative_length_panics:
  "dialogue \<lparr>cn_peer = (\<lambda>_. concat [''RTSP/1.0 200 OK'', crlf, ''Content-Length: -1'', crlf, crlf]),
      cn_lost = no_loss\<rparr> (\<lambda>_ hs. hs) ''rtsp://cam/x'' 1 fresh_client = Inl Panic"
  by code_simp

end
