(* ===== verification/Token_Crypto.thy ===== *)
theory Token_Crypto
  imports Go_Text
begin

text \<open>
  The stateful byte transformation of a relay tunnel (internal/magic/token_crypto.go): the
  token key, the random bootstrap with its rejection sampling, the encoder of one direction
  and the decoder of the other, and the contract a tunnel relies on: whatever way the network
  cuts the cipher text into reads, the plain text comes out.

  The random source is the list of bytes it will deliver; reading past its end is the read
  error.  \<open>encode\<close> and \<open>decode\<close> return the updated object, as the methods update theirs.
\<close>

datatype crypto_error = TokenLength | TokenChars | BadRange | RandomExhausted

definition max_device_token_length :: nat where
  "max_device_token_length = 47"

definition token_key :: "string \<Rightarrow> crypto_error + bytes" where
  "token_key token =
     (if length token < 1 \<or> max_device_token_length < length token then Inl TokenLength
      else if \<exists>c \<in> set token. \<not> printable c then Inl TokenChars
      else Inr (map of_char token))"

record encoder =
  en_key :: bytes
  en_state :: nat
  en_bootstrapped :: bool
  en_random :: bytes

record decoder =
  de_key :: bytes
  de_state :: nat
  de_bootstrap :: bytes
  de_ready :: bool

definition new_encoder :: "string \<Rightarrow> bytes \<Rightarrow> crypto_error + encoder" where
  "new_encoder token random = bind_sum (token_key token) (\<lambda>key.
     Inr \<lparr>en_key = key, en_state = 0, en_bootstrapped = False, en_random = random\<rparr>)"

definition new_decoder :: "string \<Rightarrow> crypto_error + decoder" where
  "new_decoder token = bind_sum (token_key token) (\<lambda>key.
     Inr \<lparr>de_key = key, de_state = 0, de_bootstrap = [], de_ready = False\<rparr>)"

subsection \<open>Random bytes in a range\<close>

definition sample_span :: "byte \<Rightarrow> byte \<Rightarrow> nat" where
  "sample_span minimum maximum = unat maximum - unat minimum + 1"

definition sample_limit :: "byte \<Rightarrow> byte \<Rightarrow> nat" where
  "sample_limit minimum maximum = 256 - 256 mod sample_span minimum maximum"

text \<open>The loop reads one byte at a time and rejects those at or above the limit.\<close>

fun random_loop :: "byte \<Rightarrow> byte \<Rightarrow> bytes \<Rightarrow> (crypto_error + byte) \<times> bytes" where
  "random_loop minimum maximum [] = (Inl RandomExhausted, [])"
| "random_loop minimum maximum (v # source) =
     (if unat v < sample_limit minimum maximum
      then (Inr (of_nat (unat minimum + unat v mod sample_span minimum maximum)), source)
      else random_loop minimum maximum source)"

definition random_range :: "bytes \<Rightarrow> byte \<Rightarrow> byte \<Rightarrow> (crypto_error + byte) \<times> bytes" where
  "random_range source minimum maximum =
     (if maximum < minimum then (Inl BadRange, source) else random_loop minimum maximum source)"

subsection \<open>The transformation\<close>

definition next_state :: "bytes \<Rightarrow> nat \<Rightarrow> byte \<Rightarrow> nat" where
  "next_state key state plain =
     (((unat (key ! state) + unat plain) OR 1) + state) mod length key"

fun transform_encode :: "bytes \<Rightarrow> nat \<Rightarrow> bytes \<Rightarrow> nat \<times> bytes" where
  "transform_encode key state [] = (state, [])"
| "transform_encode key state (v # plain) =
     (let c = v XOR (key ! state);
          (state', cipher) = transform_encode key (next_state key state v) plain
      in (state', c # cipher))"

fun transform_decode :: "bytes \<Rightarrow> nat \<Rightarrow> bytes \<Rightarrow> nat \<times> bytes" where
  "transform_decode key state [] = (state, [])"
| "transform_decode key state (v # cipher) =
     (let p = v XOR (key ! state);
          (state', plain) = transform_decode key (next_state key state p) cipher
      in (state', p # plain))"

text \<open>The loop over the prefix, which the callers always make as long as the key.\<close>

fun bootstrap_loop :: "byte \<Rightarrow> bytes \<Rightarrow> bytes \<Rightarrow> bytes" where
  "bootstrap_loop rolling (k # key) (r # prefix) =
     (let rolling' = rolling XOR (drop_bit 1 k XOR push_bit 1 (r AND 0x7f))
      in rolling' # bootstrap_loop rolling' key prefix)"
| "bootstrap_loop rolling key prefix = key"

definition apply_bootstrap :: "bytes \<Rightarrow> bytes \<Rightarrow> bytes" where
  "apply_bootstrap key prefix = bootstrap_loop 0xaa key prefix"

fun random_prefix :: "nat \<Rightarrow> bytes \<Rightarrow> (crypto_error + bytes) \<times> bytes" where
  "random_prefix 0 source = (Inr [], source)"
| "random_prefix (Suc n) source =
     (case random_range source 0x15 0xff of
        (Inl e, rest) \<Rightarrow> (Inl e, rest)
      | (Inr v, rest) \<Rightarrow>
          (case random_prefix n rest of
             (Inl e, rest') \<Rightarrow> (Inl e, rest')
           | (Inr vs, rest') \<Rightarrow> (Inr (v # vs), rest')))"

definition encode :: "encoder \<Rightarrow> bytes \<Rightarrow> encoder \<times> (crypto_error + bytes)" where
  "encode e plain =
     (if plain = [] then (e, Inr [])
      else if en_bootstrapped e then
        (let (s, cipher) = transform_encode (en_key e) (en_state e) plain
         in (e\<lparr>en_state := s\<rparr>, Inr cipher))
      else
        (case random_prefix (length (en_key e)) (en_random e) of
           (Inl err, rest) \<Rightarrow> (e\<lparr>en_random := rest\<rparr>, Inl err)
         | (Inr prefix, rest) \<Rightarrow>
             (case random_range rest (of_nat (length (en_key e) + 1)) 0xff of
                (Inl err, rest') \<Rightarrow> (e\<lparr>en_random := rest'\<rparr>, Inl err)
              | (Inr marker, rest') \<Rightarrow>
                  (let key = apply_bootstrap (en_key e) prefix;
                       (s, cipher) = transform_encode key (unat marker mod length key) plain
                   in (\<lparr>en_key = key, en_state = s, en_bootstrapped = True, en_random = rest'\<rparr>,
                       Inr (prefix @ [marker] @ cipher))))))"

definition decode :: "decoder \<Rightarrow> bytes \<Rightarrow> decoder \<times> bytes" where
  "decode d cipher =
     (if cipher = [] then (d, [])
      else if de_ready d then
        (let (s, plain) = transform_decode (de_key d) (de_state d) cipher
         in (d\<lparr>de_state := s\<rparr>, plain))
      else
        (let need = length (de_key d) + 1 - length (de_bootstrap d);
             boot = de_bootstrap d @ take need cipher;
             rest = drop need cipher
         in if length boot < length (de_key d) + 1 then (d\<lparr>de_bootstrap := boot\<rparr>, [])
            else (let key = apply_bootstrap (de_key d) (take (length (de_key d)) boot);
                      start = unat (boot ! length (de_key d)) mod length (de_key d);
                      (s, plain) = transform_decode key start rest
                  in (\<lparr>de_key = key, de_state = s, de_bootstrap = [], de_ready = True\<rparr>, plain))))"

subsection \<open>What a tunnel relies on\<close>

text \<open>
  One direction of a tunnel: an encoder, a decoder and the relation between the two objects
  that holds as long as the decoder has seen everything the encoder produced.  The decoder
  must not care how the bytes were cut into reads, and must give back each encoded piece.
\<close>

fun run_encode :: "('e \<Rightarrow> bytes \<Rightarrow> 'e \<times> ('x + bytes)) \<Rightarrow> 'e \<Rightarrow> bytes list \<Rightarrow> 'e \<times> ('x + bytes list)" where
  "run_encode enc e [] = (e, Inr [])"
| "run_encode enc e (p # ps) =
     (case enc e p of
        (e', Inl x) \<Rightarrow> (e', Inl x)
      | (e', Inr c) \<Rightarrow>
          (case run_encode enc e' ps of
             (e'', Inl x) \<Rightarrow> (e'', Inl x)
           | (e'', Inr cs) \<Rightarrow> (e'', Inr (c # cs))))"

fun run_decode :: "('d \<Rightarrow> bytes \<Rightarrow> 'd \<times> bytes) \<Rightarrow> 'd \<Rightarrow> bytes list \<Rightarrow> 'd \<times> bytes list" where
  "run_decode dec d [] = (d, [])"
| "run_decode dec d (c # cs) =
     (let (d', p) = dec d c; (d'', ps) = run_decode dec d' cs in (d'', p # ps))"

locale byte_channel =
  fixes enc :: "'e \<Rightarrow> bytes \<Rightarrow> 'e \<times> ('x + bytes)"
    and dec :: "'d \<Rightarrow> bytes \<Rightarrow> 'd \<times> bytes"
    and paired :: "'e \<Rightarrow> 'd \<Rightarrow> bool"
  assumes dec_nil: "dec d [] = (d, [])"
    and dec_append: "dec d (a @ b) =
          (let (d1, x) = dec d a; (d2, y) = dec d1 b in (d2, x @ y))"
    and paired_step: "paired e d \<Longrightarrow> enc e p = (e', Inr c) \<Longrightarrow>
          \<exists>d'. dec d c = (d', p) \<and> paired e' d'"
begin

lemma run_decode_concat:
  "run_decode dec d cs = (d', ps) \<Longrightarrow> dec d (concat cs) = (d', concat ps)"
proof (induction cs arbitrary: d ps)
  case Nil
  then show ?case by (simp add: dec_nil)
next
  case (Cons c cs)
  then show ?case by (auto simp: dec_append split: prod.splits)
qed

lemma cut_independent:
  assumes "concat cs = concat ds"
  shows "concat (snd (run_decode dec d cs)) = concat (snd (run_decode dec d ds))"
proof -
  obtain d1 ps where 1: "run_decode dec d cs = (d1, ps)" by (cases "run_decode dec d cs")
  obtain d2 qs where 2: "run_decode dec d ds = (d2, qs)" by (cases "run_decode dec d ds")
  from run_decode_concat [OF 1] run_decode_concat [OF 2] assms show ?thesis
    by (simp add: 1 2)
qed

lemma transfer_whole:
  "paired e d \<Longrightarrow> run_encode enc e ps = (e', Inr cs) \<Longrightarrow>
     \<exists>d'. run_decode dec d cs = (d', ps) \<and> paired e' d'"
proof (induction ps arbitrary: e d cs)
  case Nil
  then show ?case by simp
next
  case (Cons p ps)
  from Cons.prems(2) obtain e1 c cs' where 1: "enc e p = (e1, Inr c)"
      "run_encode enc e1 ps = (e', Inr cs')" "cs = c # cs'"
    by (auto split: prod.splits sum.splits)
  from paired_step [OF Cons.prems(1) 1(1)] obtain d1 where "dec d c = (d1, p)" "paired e1 d1"
    by blast
  with Cons.IH [of e1 d1 cs'] 1 show ?case by auto
qed

lemma transfer:
  assumes "paired e d" and "run_encode enc e ps = (e', Inr cs)" and "concat ds = concat cs"
  shows "concat (snd (run_decode dec d ds)) = concat ps"
  using transfer_whole [OF assms(1,2)] cut_independent [OF assms(3), of d] by auto

end

subsection \<open>The token transformation provides it\<close>

lemma transform_decode_append:
  "transform_decode key s (a @ b) =
     (let (s1, x) = transform_decode key s a; (s2, y) = transform_decode key s1 b in (s2, x @ y))"
  by (induction a arbitrary: s) (auto simp: Let_def split: prod.splits)

lemma xor_cancel [simp]: "((v :: byte) XOR k) XOR k = v"
  by (simp add: xor.assoc)

lemma transform_inverse:
  "transform_encode key s plain = (s', cipher) \<Longrightarrow> transform_decode key s cipher = (s', plain)"
  by (induction plain arbitrary: s cipher) (auto simp: Let_def split: prod.splits)

lemma random_prefix_length: "random_prefix n source = (Inr p, rest) \<Longrightarrow> length p = n"
  by (induction n arbitrary: source p rest) (auto split: prod.splits sum.splits)

definition in_step :: "encoder \<Rightarrow> decoder \<Rightarrow> bool" where
  "in_step e d \<longleftrightarrow> en_key e = de_key d \<and>
     (if en_bootstrapped e then de_ready d \<and> en_state e = de_state d
      else \<not> de_ready d \<and> de_bootstrap d = [])"

lemma decode_nil: "decode d [] = (d, [])"
  by (simp add: decode_def)

lemma decode_ready:
  "de_ready d \<Longrightarrow> decode d c =
     (let (s, plain) = transform_decode (de_key d) (de_state d) c in (d\<lparr>de_state := s\<rparr>, plain))"
  by (cases "c = []") (auto simp: decode_def)

lemma encode_ready:
  "en_bootstrapped e \<Longrightarrow> encode e p =
     (let (s, cipher) = transform_encode (en_key e) (en_state e) p
      in (e\<lparr>en_state := s\<rparr>, Inr cipher))"
  by (cases "p = []") (auto simp: encode_def)

text \<open>The bootstrap step on its own, for a decoder that is not ready.\<close>

definition decode_boot :: "decoder \<Rightarrow> bytes \<Rightarrow> bytes \<Rightarrow> decoder \<times> bytes" where
  "decode_boot d boot rest =
     (if length boot < length (de_key d) + 1 then (d\<lparr>de_bootstrap := boot\<rparr>, [])
      else (let key = apply_bootstrap (de_key d) (take (length (de_key d)) boot);
                start = unat (boot ! length (de_key d)) mod length (de_key d);
                (s, plain) = transform_decode key start rest
            in (\<lparr>de_key = key, de_state = s, de_bootstrap = [], de_ready = True\<rparr>, plain)))"

lemma decode_not_ready:
  "\<not> de_ready d \<Longrightarrow> c \<noteq> [] \<Longrightarrow> need = length (de_key d) + 1 - length (de_bootstrap d) \<Longrightarrow>
     decode d c = decode_boot d (de_bootstrap d @ take need c) (drop need c)"
  by (simp add: decode_def decode_boot_def Let_def)

lemma decode_boot_short:
  "length boot < length (de_key d) + 1 \<Longrightarrow> decode_boot d boot rest = (d\<lparr>de_bootstrap := boot\<rparr>, [])"
  by (simp add: decode_boot_def)

lemma decode_boot_update: "decode_boot (d\<lparr>de_bootstrap := b\<rparr>) boot rest = decode_boot d boot rest"
  by (simp add: decode_boot_def)

lemma decode_boot_append:
  "length (de_key d) + 1 \<le> length boot \<Longrightarrow> decode_boot d boot (a @ b) =
     (let (d1, x) = decode_boot d boot a; (d2, y) = decode d1 b in (d2, x @ y))"
  by (simp add: decode_boot_def decode_ready transform_decode_append Let_def split: prod.splits)

lemma decode_append:
  "decode d (a @ b) = (let (d1, x) = decode d a; (d2, y) = decode d1 b in (d2, x @ y))"
proof (cases "de_ready d \<or> a = [] \<or> b = []")
  case True
  then show ?thesis
    by (auto simp: decode_ready transform_decode_append decode_nil split: prod.splits)
next
  case False
  then have nr: "\<not> de_ready d" and ne: "a \<noteq> []" "b \<noteq> []" "a @ b \<noteq> []" by auto
  define n where "n = length (de_key d) + 1"
  define need where "need = n - length (de_bootstrap d)"
  note whole = decode_not_ready [OF nr ne(3) need_def [unfolded n_def]]
  note part = decode_not_ready [OF nr ne(1) need_def [unfolded n_def]]
  show ?thesis
  proof (cases "length (de_bootstrap d) + length a < n")
    case True
    let ?d = "d\<lparr>de_bootstrap := de_bootstrap d @ a\<rparr>"
    from True have la: "length a \<le> need" by (simp add: need_def)
    with True have "decode d a = (?d, [])"
      by (subst part) (simp add: decode_boot_short n_def)
    moreover have "decode ?d b = decode_boot d ((de_bootstrap d @ a) @ take (need - length a) b)
        (drop (need - length a) b)"
      using nr ne(2) decode_not_ready [of ?d b "need - length a"]
      by (simp add: need_def n_def decode_boot_update)
    ultimately show ?thesis using la by (simp add: whole)
  next
    case False
    then have "take need (a @ b) = take need a" "drop need (a @ b) = drop need a @ b"
      "length (de_key d) + 1 \<le> length (de_bootstrap d @ take need a)"
      by (auto simp: need_def n_def)
    then show ?thesis by (simp only: whole part decode_boot_append)
  qed
qed

lemma encode_in_step:
  assumes "in_step e d" and "encode e p = (e', Inr c)"
  shows "\<exists>d'. decode d c = (d', p) \<and> in_step e' d'"
proof (cases "p = [] \<or> en_bootstrapped e")
  case True
  with assms show ?thesis
    by (cases "p = []")
      (auto simp: encode_def in_step_def decode_nil decode_ready Let_def split: prod.splits
        dest!: transform_inverse)
next
  case False
  with assms(2) obtain prefix rest marker rest' s cipher where
    1: "random_prefix (length (en_key e)) (en_random e) = (Inr prefix, rest)"
    and 2: "transform_encode (apply_bootstrap (en_key e) prefix)
        (unat marker mod length (apply_bootstrap (en_key e) prefix)) p = (s, cipher)"
    and 3: "e' = \<lparr>en_key = apply_bootstrap (en_key e) prefix, en_state = s,
        en_bootstrapped = True, en_random = rest'\<rparr>" "c = prefix @ [marker] @ cipher"
    by (auto simp: encode_def Let_def split: prod.splits sum.splits)
  have l: "length prefix = length (en_key e)" using random_prefix_length [OF 1] .
  have k: "length (bootstrap_loop r key pre) = length key" for r key pre
    by (induction r key pre rule: bootstrap_loop.induct) (auto simp: Let_def)
  from assms(1) False have d: "de_key d = en_key e" "\<not> de_ready d" "de_bootstrap d = []"
    by (auto simp: in_step_def)
  show ?thesis
    using transform_inverse [OF 2] l
    by (auto simp: decode_def 3 d in_step_def k apply_bootstrap_def nth_append Let_def)
qed

interpretation token_channel: byte_channel encode decode in_step
  by unfold_locales (rule decode_nil, rule decode_append, rule encode_in_step)

subsection \<open>Lengths, index safety and progress\<close>

lemma length_bootstrap_loop: "length (bootstrap_loop r key pre) = length key"
  by (induction r key pre rule: bootstrap_loop.induct) (auto simp: Let_def)

lemma length_apply_bootstrap [simp]: "length (apply_bootstrap key pre) = length key"
  by (simp add: apply_bootstrap_def length_bootstrap_loop)

lemma next_state_less: "key \<noteq> [] \<Longrightarrow> next_state key s v < length key"
  by (simp add: next_state_def)

lemma transform_encode_state:
  "transform_encode key s plain = (s', cipher) \<Longrightarrow> s < length key \<Longrightarrow>
     s' < length key \<and> length cipher = length plain"
proof (induction plain arbitrary: s cipher)
  case Nil
  then show ?case by simp
next
  case (Cons v plain)
  then obtain c where "transform_encode key (next_state key s v) plain = (s', c)"
      "cipher = (v XOR key ! s) # c"
    by (auto simp: Let_def split: prod.splits)
  moreover have "next_state key s v < length key" using Cons.prems(2) by (intro next_state_less) auto
  ultimately show ?case using Cons.IH by simp
qed

definition encoder_ok :: "nat \<Rightarrow> encoder \<Rightarrow> bool" where
  "encoder_ok n e \<longleftrightarrow> 0 < n \<and> length (en_key e) = n \<and> en_state e < n"

lemma new_encoder_ok: "new_encoder tok rnd = Inr e \<Longrightarrow> encoder_ok (length tok) e"
  by (auto simp: new_encoder_def token_key_def bind_sum_Inr_iff encoder_ok_def split: if_splits)

lemma encode_ok:
  assumes "encoder_ok n e" and "encode e p = (e', r)"
  shows "encoder_ok n e'"
  using assms
  by (cases "en_key e = []")
    (auto simp: encode_def encoder_ok_def Let_def split: if_splits prod.splits sum.splits
      dest!: transform_encode_state)

lemma run_encode_ok:
  "encoder_ok n e \<Longrightarrow> run_encode encode e ps = (e', r) \<Longrightarrow> encoder_ok n e'"
proof (induction ps arbitrary: e r)
  case Nil
  then show ?case by simp
next
  case (Cons p ps)
  then show ?case
    by (auto dest: encode_ok split: prod.splits sum.splits)
qed

definition usable :: "nat \<Rightarrow> bytes \<Rightarrow> nat" where
  "usable bound source = length (filter (\<lambda>v. unat v < bound) source)"

lemma random_loop_progress:
  "bound \<le> sample_limit lo hi \<Longrightarrow> Suc k \<le> usable bound source \<Longrightarrow>
     \<exists>v rest. random_loop lo hi source = (Inr v, rest) \<and> k \<le> usable bound rest"
proof (induction source)
  case Nil
  then show ?case by (simp add: usable_def)
next
  case (Cons v source)
  then show ?case by (cases "unat v < bound") (auto simp: usable_def)
qed

lemma random_prefix_progress:
  "n + k \<le> usable 208 source \<Longrightarrow> \<exists>p rest. random_prefix n source = (Inr p, rest) \<and> k \<le> usable 208 rest"
proof (induction n arbitrary: source)
  case 0
  then show ?case by simp
next
  case (Suc n)
  have "208 \<le> sample_limit (0x15 :: byte) 0xff" by (simp add: sample_limit_def sample_span_def)
  with Suc.prems obtain v rest where "random_range source 0x15 0xff = (Inr v, rest)"
      "n + k \<le> usable 208 rest"
    using random_loop_progress [of 208 "0x15" "0xff" "n + k" source] by (auto simp: random_range_def)
  with Suc.IH [of rest] show ?case by auto
qed

lemma marker_limit:
  assumes "n \<le> 47"
  shows "208 \<le> sample_limit (of_nat (n + 1) :: byte) 0xff \<and> \<not> (0xff :: byte) < of_nat (n + 1)"
proof -
  have u: "unat (of_nat (n + 1) :: byte) = n + 1" using assms by (simp only: unat_of_nat) simp
  then have s: "sample_span (of_nat (n + 1) :: byte) 0xff = 255 - n"
    using assms by (simp add: sample_span_def)
  have "256 mod (255 - n) = ((255 - n) + (n + 1)) mod (255 - n)" using assms by simp
  also have "\<dots> = n + 1" using assms by (subst mod_add_self1) simp
  finally have "256 mod (255 - n) = n + 1" .
  with s assms u show ?thesis by (simp add: sample_limit_def word_less_nat_alt)
qed

lemma encode_progress:
  assumes "encoder_ok n e" and "n \<le> 47" and "en_bootstrapped e \<or> n + 1 \<le> usable 208 (en_random e)"
  shows "\<exists>e' c. encode e p = (e', Inr c) \<and> length c = length p
            + (if en_bootstrapped e \<or> p = [] then 0 else n + 1)
         \<and> (en_bootstrapped e' \<longleftrightarrow> en_bootstrapped e \<or> p \<noteq> [])
         \<and> (en_bootstrapped e' \<or> n + 1 \<le> usable 208 (en_random e'))"
proof (cases "en_bootstrapped e \<or> p = []")
  case True
  obtain s c where "transform_encode (en_key e) (en_state e) p = (s, c)" by fastforce
  with True assms show ?thesis
    by (cases "p = []") (auto simp: encode_def encoder_ok_def dest: transform_encode_state)
next
  case False
  with assms have len: "length (en_key e) = n" "0 < n" and use: "n + 1 \<le> usable 208 (en_random e)"
    by (auto simp: encoder_ok_def)
  obtain pre rest where 1: "random_prefix n (en_random e) = (Inr pre, rest)" "1 \<le> usable 208 rest"
    using random_prefix_progress [OF use] by auto
  obtain m rest' where 2: "random_range rest (of_nat (n + 1)) 0xff = (Inr m, rest')"
    using random_loop_progress [of 208 "of_nat (n + 1)" "0xff" 0 rest] marker_limit [OF assms(2)] 1(2)
    by (auto simp: random_range_def)
  let ?key = "apply_bootstrap (en_key e) pre"
  obtain s c where 3: "transform_encode ?key (unat m mod n) p = (s, c)" by fastforce
  then have "length c = length p" using transform_encode_state [OF 3] len by simp
  with False 1 2 3 len random_prefix_length [OF 1(1)] show ?thesis
    by (simp add: encode_def Let_def)
qed

lemma run_encode_progress:
  assumes "encoder_ok n e" and "n \<le> 47" and "en_bootstrapped e \<or> n + 1 \<le> usable 208 (en_random e)"
  shows "\<exists>e' cs. run_encode encode e ps = (e', Inr cs) \<and> length (concat cs) = length (concat ps)
            + (if en_bootstrapped e \<or> concat ps = [] then 0 else n + 1)"
  using assms
proof (induction ps arbitrary: e)
  case Nil
  then show ?case by simp
next
  case (Cons p ps)
  from encode_progress [OF Cons.prems, of p] obtain e1 c where 1: "encode e p = (e1, Inr c)"
      "length c = length p + (if en_bootstrapped e \<or> p = [] then 0 else n + 1)"
      "en_bootstrapped e1 \<longleftrightarrow> en_bootstrapped e \<or> p \<noteq> []"
      "en_bootstrapped e1 \<or> n + 1 \<le> usable 208 (en_random e1)" by blast
  with Cons.IH [OF encode_ok [OF Cons.prems(1) 1(1)] Cons.prems(2) 1(4)] obtain e2 cs where
      "run_encode encode e1 ps = (e2, Inr cs)" "length (concat cs) = length (concat ps)
        + (if en_bootstrapped e1 \<or> concat ps = [] then 0 else n + 1)" by blast
  with 1 show ?case by auto
qed

lemma new_pair_in_step:
  "new_encoder tok rnd = Inr e \<Longrightarrow> new_decoder tok = Inr d \<Longrightarrow> in_step e d"
  by (auto simp: new_encoder_def new_decoder_def bind_sum_Inr_iff in_step_def)

lemma new_encoder_fresh: "new_encoder tok rnd = Inr e \<Longrightarrow> \<not> en_bootstrapped e \<and> en_random e = rnd"
  by (auto simp: new_encoder_def bind_sum_Inr_iff)

lemma new_encoder_length: "new_encoder tok rnd = Inr e \<Longrightarrow> length tok \<le> 47 \<and> 0 < length tok"
  by (auto simp: new_encoder_def token_key_def max_device_token_length_def bind_sum_Inr_iff
      split: if_splits)

text \<open>C18: what one side of a tunnel writes, in any sequence of writes, is what the other side
  reads, in order and without loss, whatever way the network cuts the cipher text into reads
  and whatever random bytes the bootstrap used.\<close>

theorem token_stream_roundtrip:
  assumes "new_encoder tok rnd = Inr e" and "new_decoder tok = Inr d"
    and "run_encode encode e plains = (e', Inr ciphers)" and "concat reads = concat ciphers"
  shows "concat (snd (run_decode decode d reads)) = concat plains"
  using token_channel.transfer [OF new_pair_in_step [OF assms(1,2)] assms(3,4)] .

theorem token_stream_roundtrip_witness:
  "concat (snd (run_decode decode
       \<lparr>de_key = [97, 98], de_state = 0, de_bootstrap = [], de_ready = False\<rparr>
       (map (\<lambda>b. [b]) (concat (case snd (run_encode encode
           \<lparr>en_key = [97, 98], en_state = 0, en_bootstrapped = False, en_random = [9, 250, 7, 200]\<rparr>
           [[1, 2], [], [255, 254, 3]]) of Inr cs \<Rightarrow> cs | Inl _ \<Rightarrow> [])))))
   = [1, 2, 255, 254, 3]"
proof -
  let ?e = "\<lparr>en_key = [97, 98], en_state = 0, en_bootstrapped = False, en_random = [9, 250, 7, 200]\<rparr>"
  let ?d = "\<lparr>de_key = [97, 98], de_state = 0, de_bootstrap = [], de_ready = False\<rparr>"
  have e: "new_encoder ''ab'' [9, 250, 7, 200] = Inr ?e" by code_simp
  have d: "new_decoder ''ab'' = Inr ?d" by code_simp
  have "is_Inr (snd (run_encode encode ?e [[1, 2], [], [255, 254, 3]]))" by code_simp
  then obtain e' cs where r: "run_encode encode ?e [[1, 2], [], [255, 254, 3]] = (e', Inr cs)"
    by (cases "run_encode encode ?e [[1, 2], [], [255, 254, 3]]") (auto simp: is_Inr_def split: sum.splits)
  show ?thesis
    using token_stream_roundtrip [OF e d r, of "map (\<lambda>b. [b]) (concat cs)"]
    by (simp add: r del: run_encode.simps)
qed

text \<open>C26: an encoder whose random source holds one acceptable byte more than the token has
  bytes never fails, and its output is longer than its input by exactly the bootstrap: the
  token's length plus the marker, sent once, with the first non-empty write.\<close>

theorem token_encode_progress:
  assumes "new_encoder tok rnd = Inr e" and "length tok + 1 \<le> usable 208 rnd"
  shows "\<exists>e' cs. run_encode encode e ps = (e', Inr cs) \<and>
     length (concat cs) = length (concat ps) + (if concat ps = [] then 0 else length tok + 1)
     \<and> en_state e' < length (en_key e') \<and> length (en_key e') = length tok"
proof -
  have "encoder_ok (length tok) e" "length tok \<le> 47" "\<not> en_bootstrapped e" "en_random e = rnd"
    using assms(1) new_encoder_ok new_encoder_length new_encoder_fresh by blast+
  then obtain e' cs where r: "run_encode encode e ps = (e', Inr cs)"
      "length (concat cs) = length (concat ps) + (if concat ps = [] then 0 else length tok + 1)"
    using run_encode_progress [of "length tok" e ps] assms(2) by auto
  with run_encode_ok [OF \<open>encoder_ok (length tok) e\<close> r(1)] show ?thesis
    by (auto simp: encoder_ok_def)
qed

theorem token_encode_progress_witness:
  "\<exists>e cs. run_encode encode
     \<lparr>en_key = [97, 98], en_state = 0, en_bootstrapped = False, en_random = [9, 250, 7, 200]\<rparr>
     [[1, 2], [], [3]] = (e, Inr cs) \<and> length (concat cs) = 6"
proof -
  have e: "new_encoder ''ab'' [9, 250, 7, 200] =
      Inr \<lparr>en_key = [97, 98], en_state = 0, en_bootstrapped = False, en_random = [9, 250, 7, 200]\<rparr>"
    by code_simp
  have u: "length ''ab'' + 1 \<le> usable 208 [9, 250, 7, 200]" by code_simp
  show ?thesis using token_encode_progress [OF e u, of "[[1, 2], [], [3]]"] by auto
qed

subsection \<open>The random bytes are uniform on their range\<close>

lemma sample_limit_eq: "sample_limit lo hi = sample_span lo hi * (256 div sample_span lo hi)"
  using minus_mod_eq_mult_div [of 256 "sample_span lo hi"] by (simp add: sample_limit_def)

lemma card_residue:
  assumes "r < m"
  shows "card {v :: nat. v < m * q \<and> v mod m = r} = q"
proof -
  have "{v. v < m * q \<and> v mod m = r} = (\<lambda>i. m * i + r) ` {..<q}" (is "?A = ?B")
  proof
    show "?A \<subseteq> ?B"
    proof
      fix v assume "v \<in> ?A"
      then have "v = m * (v div m) + r" "v div m < q"
        using mult_div_mod_eq [of m v] by (auto simp: less_mult_imp_div_less mult.commute)
      then show "v \<in> ?B" by blast
    qed
    show "?B \<subseteq> ?A"
    proof
      fix v assume "v \<in> ?B"
      then obtain i where i: "i < q" "v = m * i + r" by auto
      then have "m * i + r < m * Suc i" using assms by simp
      also have "\<dots> \<le> m * q" using i by (intro mult_le_mono2) simp
      finally show "v \<in> ?A" using i assms by simp
    qed
  qed
  moreover have "inj_on (\<lambda>i. m * i + r) {..<q}" using assms by (auto simp: inj_on_def)
  ultimately show ?thesis by (simp add: card_image)
qed

lemma sample_unat:
  fixes lo hi v :: byte
  assumes "lo \<le> hi"
  shows "unat (of_nat (unat lo + unat v mod sample_span lo hi) :: byte)
           = unat lo + unat v mod sample_span lo hi"
proof -
  have "unat v mod sample_span lo hi < sample_span lo hi" by (simp add: sample_span_def)
  moreover have "unat lo + sample_span lo hi = unat hi + 1"
    using assms by (simp add: sample_span_def word_le_nat_alt)
  ultimately have "unat lo + unat v mod sample_span lo hi < 256" using unat_byte_less [of hi] by linarith
  then show ?thesis by (simp only: unat_of_nat) simp
qed

text \<open>Rejection sampling is unbiased.  Among the 256 values of one random byte, every
  result between the bounds has the same number of values that produce it, and no value
  produces a result outside the bounds.\<close>

theorem random_range_uniform:
  assumes "lo \<le> hi"
  shows "card {v. fst (random_range [v] lo hi) = Inr x} =
     (if lo \<le> x \<and> x \<le> hi then 256 div sample_span lo hi else 0)"
proof -
  let ?m = "sample_span lo hi" and ?q = "256 div sample_span lo hi"
  have m: "0 < ?m" by (simp add: sample_span_def)
  have hi: "unat lo + ?m = unat hi + 1" using assms by (simp add: sample_span_def word_le_nat_alt)
  let ?A = "{v. fst (random_range [v] lo hi) = Inr x}"
  have A: "?A = {v. unat v < ?m * ?q \<and> unat lo + unat v mod ?m = unat x}"
    using assms sample_unat [OF assms, simplified]
    by (auto simp: random_range_def sample_limit_eq word_unat_eq_iff split: if_splits)
  show ?thesis
  proof (cases "lo \<le> x \<and> x \<le> hi")
    case True
    then have r: "unat x - unat lo < ?m" using hi by (auto simp: word_le_nat_alt)
    have "?m * ?q \<le> 256" by simp
    then have "unat ` ?A = {v :: nat. v < ?m * ?q \<and> v mod ?m = unat x - unat lo}"
      using True unfolding A
    proof (intro equalityI subsetI)
      fix n assume "n \<in> {v. v < ?m * ?q \<and> v mod ?m = unat x - unat lo}"
      then have n: "n < ?m * ?q" "n mod ?m = unat x - unat lo" by auto
      then have "unat (of_nat n :: byte) = n" using less_le_trans [OF n(1) \<open>?m * ?q \<le> 256\<close>] by (simp add: unat_of_nat)
      with n True show "n \<in> unat ` {v :: byte. unat v < ?m * ?q \<and> unat lo + unat v mod ?m = unat x}"
        by (intro image_eqI [of _ _ "of_nat n :: byte"]) (auto simp: word_le_nat_alt)
    qed auto
    then have "card (unat ` ?A) = ?q" using card_residue [OF r] by simp
    moreover have "inj_on unat ?A" by (auto simp: inj_on_def word_unat_eq_iff)
    ultimately show ?thesis using True by (simp add: card_image)
  next
    case False
    have "?A = {}"
    proof (rule ccontr)
      assume "?A \<noteq> {}"
      then obtain v :: byte where "unat lo + unat v mod ?m = unat x" unfolding A by auto
      moreover have "unat v mod ?m < ?m" using m by simp
      ultimately show False using False hi by (auto simp: word_le_nat_alt)
    qed
    then show ?thesis using False by auto
  qed
qed

theorem random_range_uniform_witness:
  "card {v. fst (random_range [v] 0x15 0xff) = Inr 0x20} = 1"
  using random_range_uniform [of "0x15" "0xff" "0x20"] by (simp add: sample_span_def)

end
