(* ===== verification/Rtsp_Tunnel.thy ===== *)
theory Rtsp_Tunnel
  imports Rtsp_Mock Token_Crypto
begin

text \<open>
  The RTSP conversation across the relay tunnel.  \<open>Rtsp_Mock\<close> holds it over a connection that ends at
  the camera; here every byte of both directions goes through an encoder and a decoder of the
  tunnel (\<open>Token_Crypto\<close>), written and read in pieces of any size, the way the client of
  \<open>rtspmock\<close> is put in front of the bridge.
\<close>

section \<open>One direction of the tunnel\<close>

definition to_bytes :: "string \<Rightarrow> bytes" where
  "to_bytes s = map of_char s"

definition of_bytes :: "bytes \<Rightarrow> string" where
  "of_bytes b = map (\<lambda>w. char_of (unat w)) b"

lemma of_to_bytes [simp]: "of_bytes (to_bytes s) = s"
proof -
  have "char_of (unat (of_char c :: byte)) = c" for c
  proof -
    have "(of_char c :: byte) = word_of_nat (ord c)" by (simp only: of_nat_of_char)
    then have "unat (of_char c :: byte) = ord c" by (simp only: unat_of_nat) simp
    then show ?thesis by simp
  qed
  then show ?thesis by (simp add: of_bytes_def to_bytes_def comp_def)
qed

text \<open>\<open>pieces\<close> says how the plain text is cut into writes, \<open>cuts\<close> how the network cuts the cipher
  text into reads.  A failed encoder sends nothing.\<close>

definition across ::
  "encoder \<Rightarrow> decoder \<Rightarrow> (bytes \<Rightarrow> bytes list) \<Rightarrow> (bytes \<Rightarrow> bytes list) \<Rightarrow> string \<Rightarrow> string" where
  "across e d pieces cuts s =
     (case run_encode encode e (pieces (to_bytes s)) of
        (_, Inl _) \<Rightarrow> []
      | (_, Inr ciphers) \<Rightarrow> of_bytes (concat (snd (run_decode decode d (cuts (concat ciphers))))))"

definition cutting :: "(bytes \<Rightarrow> bytes list) \<Rightarrow> bool" where
  "cutting f \<longleftrightarrow> (\<forall>b. concat (f b) = b)"

lemma across_identity:
  assumes "new_encoder tok rnd = Inr e" and "new_decoder tok = Inr d" and "length tok + 1 \<le> usable 208 rnd"
    and "cutting pieces" and "cutting cuts"
  shows "across e d pieces cuts s = s"
proof -
  have "encoder_ok (length tok) e" "length tok \<le> 47" "en_random e = rnd"
    using assms(1) new_encoder_ok new_encoder_length new_encoder_fresh by blast+
  then obtain e' cs where run: "run_encode encode e (pieces (to_bytes s)) = (e', Inr cs)"
    using run_encode_progress [of "length tok" e "pieces (to_bytes s)"] assms(3) by auto
  have "concat (cuts (concat cs)) = concat cs" using assms(5) by (simp add: cutting_def)
  from token_channel.transfer [OF new_pair_in_step [OF assms(1,2)] run this]
  have "concat (snd (run_decode decode d (cuts (concat cs)))) = to_bytes s"
    using assms(4) by (simp add: cutting_def)
  then show ?thesis by (simp add: across_def run)
qed

section \<open>The conversation\<close>

text \<open>The connection a client of the bridge has to the camera: what it writes goes up one pair of
  coders, what the camera answers comes down another.\<close>

definition tunnel_line :: "(string \<Rightarrow> string) \<Rightarrow> (string \<Rightarrow> string) \<Rightarrow> walk \<Rightarrow> mock_camera \<Rightarrow> conn" where
  "tunnel_line up down order c =
     \<lparr>cn_peer = (\<lambda>sent. down (camera_peer no_loss order c (up sent))), cn_lost = no_loss\<rparr>"

text \<open>C22: The conversation survives the tunnel.  With a fresh encoder and decoder of one device token
  in each direction, random bytes enough for the bootstrap, and the bytes of either direction
  written and read in any pieces, the client gets the camera's own session description and its
  first \<open>wantPackets\<close> packets, byte for byte; or it fails at the first packet the camera does not
  send.\<close>

theorem dialogue_crosses_tunnel:
  assumes "walks order" and "walks corder" and "word_field target" and "length (sdp_of c) < 2 ^ 63"
    and "new_encoder tok rnd1 = Inr e1" and "new_encoder tok rnd2 = Inr e2" and "new_decoder tok = Inr d"
    and "length tok + 1 \<le> usable 208 rnd1" and "length tok + 1 \<le> usable 208 rnd2"
    and "cutting w1" and "cutting r1" and "cutting w2" and "cutting r2"
  shows "\<exists>s'. dialogue (tunnel_line (across e1 d w1 r1) (across e2 d w2 r2) order c) corder target want fresh_client =
    (let ps = sendable (packets_of c)
     in if want < 0 then Inl Panic
        else if nat want \<le> length ps then Inr ((sdp_of c, take (nat want) ps), s')
        else Inl (AtStage (''read RTP '' @ itoa (int (length ps)) @ ''/'' @ itoa want) Starved))"
proof -
  have "across e1 d w1 r1 s = s" and "across e2 d w2 r2 s = s" for s
    using assms(5-13) by (simp_all add: across_identity)
  then have "tunnel_line (across e1 d w1 r1) (across e2 d w2 r2) order c = line_to order c"
    by (simp add: tunnel_line_def line_to_def)
  then show ?thesis using dialogue_media [OF assms(1-4), of want] by simp
qed

theorem dialogue_crosses_tunnel_witness:
  "\<exists>e1 e2 d s'. new_encoder ''ab'' [9, 250, 7, 200] = Inr e1 \<and> new_encoder ''ab'' [1, 2, 3] = Inr e2 \<and> new_decoder ''ab'' = Inr d
     \<and> dialogue (tunnel_line (across e1 d (\<lambda>b. [b]) (map (\<lambda>x. [x]))) (across e2 d (map (\<lambda>x. [x])) (\<lambda>b. [[], b]))
         (\<lambda>_ hs. rev hs) \<lparr>cam_sdp = ''v=0'', cam_packets = [''ab'', [CHR 0x24], ''c''], cam_channel = CHR 0x01\<rparr>)
       (\<lambda>_ hs. hs) ''rtsp://cam/x'' 2 fresh_client = Inr ((''v=0'', [''ab'', [CHR 0x24]]), s')"
proof -
  have "is_Inr (new_encoder ''ab'' [9, 250, 7, 200])" "is_Inr (new_encoder ''ab'' [1, 2, 3])" "is_Inr (new_decoder ''ab'')"
    by code_simp+
  then obtain e1 e2 d where coders: "new_encoder ''ab'' [9, 250, 7, 200] = Inr e1"
    "new_encoder ''ab'' [1, 2, 3] = Inr e2" "new_decoder ''ab'' = Inr d"
    by (auto simp: is_Inr_def split: sum.splits)
  have w: "walks (\<lambda>_ hs. rev hs)" "walks (\<lambda>_ hs. hs)" by (simp_all add: walks_def)
  have t: "word_field ''rtsp://cam/x''" by code_simp
  have u: "length ''ab'' + 1 \<le> usable 208 [9, 250, 7, 200]" "length ''ab'' + 1 \<le> usable 208 [1, 2, 3]" by code_simp+
  have cut: "cutting (\<lambda>b. [b])" "cutting (map (\<lambda>x. [x]))" "cutting (\<lambda>b. [[], b])" by (simp_all add: cutting_def)
  let ?c = "\<lparr>cam_sdp = ''v=0'', cam_packets = [''ab'', [CHR 0x24], ''c''], cam_channel = CHR 0x01\<rparr>"
  have "length (sdp_of ?c) < 2 ^ 63" by (simp add: sdp_of_def)
  from dialogue_crosses_tunnel [OF w t this coders u cut(1,2) cut(2,3), of 2] coders show ?thesis
    by (simp add: sdp_of_def packets_of_def sendable_def)
qed

end
