(* ===== verification/Relay_Open.thy ===== *)
theory Relay_Open
  imports Go_Text
begin

text \<open>
  The relay-open frame (internal/magic/relay_open.go): its identifier check, its text form and
  its parser, with the proof that the parser accepts exactly the frames the printer writes.
\<close>

datatype wire_error =
    LengthOutOfRange string nat
  | NotPrintable string
  | OutOfRange string
  | Truncated string
  | NonDecimal string
  | BadPrefix
  | BadField string
  | LengthMismatch

record relay_open =
  ro_version :: int
  ro_connection :: int
  ro_target :: int
  ro_magic :: string
  ro_session :: string

definition relay_open_version2 :: int where
  "relay_open_version2 = 2"

definition validate_identifier :: "string \<Rightarrow> string \<Rightarrow> nat \<Rightarrow> wire_error + unit" where
  "validate_identifier name value maximum =
     (if value = [] \<or> maximum < length value then Inl (LengthOutOfRange name maximum)
      else if \<exists>c \<in> set value. \<not> printable c then Inl (NotPrintable name)
      else Inr ())"

definition marshal_relay_open :: "relay_open \<Rightarrow> wire_error + string" where
  "marshal_relay_open f =
     (if ro_version f < 0 \<or> 999 < ro_version f then Inl (OutOfRange ''version'')
      else if ro_connection f < 0 \<or> 999 < ro_connection f then Inl (OutOfRange ''connection number'')
      else if ro_target f < 0 \<or> 99999 < ro_target f then Inl (OutOfRange ''target port'')
      else bind_sum (validate_identifier ''magic UUID'' (ro_magic f) 999) (\<lambda>_.
           bind_sum (validate_identifier ''session name'' (ro_session f) 9999) (\<lambda>_.
           Inr (''v'' @ zero_pad 3 (nat (ro_version f)) @ '' ''
              @ zero_pad 3 (nat (ro_connection f)) @ '' ''
              @ zero_pad 5 (nat (ro_target f)) @ '' ''
              @ zero_pad 3 (length (ro_magic f)) @ '' '' @ ro_magic f @ '' ''
              @ zero_pad 4 (length (ro_session f)) @ '' '' @ ro_session f))))"

definition fixed_decimal :: "string \<Rightarrow> nat \<Rightarrow> nat \<Rightarrow> string \<Rightarrow> wire_error + int" where
  "fixed_decimal data offset width name =
     (if width < 1 \<or> length data < offset + width then Inl (Truncated name)
      else let d = take width (drop offset data)
           in if \<exists>c \<in> set d. \<not> is_digit c then Inl (NonDecimal name)
              else case atoi d of None \<Rightarrow> Inl (NonDecimal name) | Some v \<Rightarrow> Inr v)"

text \<open>One numeric field and the blank after it: \<open>err != nil || data[offset+width] != ' '\<close>.\<close>

definition number_field :: "string \<Rightarrow> nat \<Rightarrow> nat \<Rightarrow> string \<Rightarrow> wire_error + int" where
  "number_field data offset width name =
     (case fixed_decimal data offset width name of
        Inl _ \<Rightarrow> Inl (BadField name)
      | Inr v \<Rightarrow> if data ! (offset + width) \<noteq> CHR '' '' then Inl (BadField name) else Inr v)"

definition parse_relay_open :: "string \<Rightarrow> wire_error + relay_open" where
  "parse_relay_open data =
     (if length data < 24 \<or> data ! 0 \<noteq> CHR ''v'' then Inl BadPrefix else
      bind_sum (number_field data 1 3 ''version'') (\<lambda>version.
      bind_sum (number_field data 5 3 ''connection number'') (\<lambda>connection.
      bind_sum (number_field data 9 5 ''target port'') (\<lambda>target.
      bind_sum (number_field data 15 3 ''magic UUID length'') (\<lambda>magic_len.
        let magic_end = 19 + nat magic_len in
        if length data < magic_end + 6 \<or> data ! magic_end \<noteq> CHR '' ''
        then Inl (Truncated ''magic UUID'') else
        bind_sum (number_field data (magic_end + 1) 4 ''session-name length'') (\<lambda>session_len.
          let session_start = magic_end + 6; session_end = magic_end + 6 + nat session_len in
          if session_end \<noteq> length data then Inl LengthMismatch else
          let result = \<lparr> ro_version = version, ro_connection = connection, ro_target = target,
                         ro_magic = take (nat magic_len) (drop 19 data),
                         ro_session = take (nat session_len) (drop session_start data) \<rparr> in
          bind_sum (validate_identifier ''magic UUID'' (ro_magic result) 999) (\<lambda>_.
          bind_sum (validate_identifier ''session name'' (ro_session result) 9999) (\<lambda>_.
            Inr result))))))))"

subsection \<open>Well-formed frames\<close>

definition ident_ok :: "nat \<Rightarrow> string \<Rightarrow> bool" where
  "ident_ok maximum s \<longleftrightarrow> s \<noteq> [] \<and> length s \<le> maximum \<and> list_all printable s"

definition relay_open_ok :: "relay_open \<Rightarrow> bool" where
  "relay_open_ok f \<longleftrightarrow> 0 \<le> ro_version f \<and> ro_version f \<le> 999
     \<and> 0 \<le> ro_connection f \<and> ro_connection f \<le> 999
     \<and> 0 \<le> ro_target f \<and> ro_target f \<le> 99999
     \<and> ident_ok 999 (ro_magic f) \<and> ident_ok 9999 (ro_session f)"

lemma validate_identifier_iff:
  "validate_identifier name v m = Inr u \<longleftrightarrow> ident_ok m v"
  by (auto simp: validate_identifier_def ident_ok_def list_all_iff)

lemma validate_identifier_ok [simp]: "ident_ok m v \<Longrightarrow> validate_identifier name v m = Inr ()"
  by (simp add: validate_identifier_iff)

definition relay_frame :: "relay_open \<Rightarrow> string" where
  "relay_frame f = CHR ''v'' # zero_pad 3 (nat (ro_version f)) @ CHR '' ''
       # zero_pad 3 (nat (ro_connection f)) @ CHR '' ''
       # zero_pad 5 (nat (ro_target f)) @ CHR '' ''
       # zero_pad 3 (length (ro_magic f)) @ CHR '' '' # ro_magic f @ CHR '' ''
       # zero_pad 4 (length (ro_session f)) @ CHR '' '' # ro_session f"

lemma marshal_relay_open_iff:
  "marshal_relay_open f = Inr w \<longleftrightarrow> relay_open_ok f \<and> w = relay_frame f"
  by (auto simp: marshal_relay_open_def relay_open_ok_def relay_frame_def bind_sum_Inr_iff
      validate_identifier_iff)

subsection \<open>Reading a fixed-width number\<close>

lemma fixed_decimal_at:
  assumes "list_all is_digit d" and "d \<noteq> []" and "length d \<le> 9"
  shows "fixed_decimal (a @ d @ r) (length a) (length d) name = Inr (int (dec_val 0 d))"
proof -
  have "dec_val 0 d < 10 ^ length d" using dec_val_bound [OF assms(1), of 0] by simp
  also have "(10::nat) ^ length d \<le> 10 ^ 9" using assms(3) by (intro power_increasing) auto
  finally have "dec_val 0 d < 2 ^ 63" by simp
  with assms show ?thesis
    by (simp add: fixed_decimal_def atoi_digits list_all_iff Suc_le_eq)
qed

lemma number_field_at:
  assumes "data = a @ d @ CHR '' '' # r" and "length a = n" and "length d = w"
    and "list_all is_digit d" and "d \<noteq> []" and "w \<le> 9"
  shows "number_field data n w name = Inr (int (dec_val 0 d))"
proof -
  have "fixed_decimal data n w name = Inr (int (dec_val 0 d))"
    using assms fixed_decimal_at [of d a "CHR '' '' # r" name] by simp
  moreover have "data ! (n + w) = CHR '' ''"
    using assms(1-3) nth_append_exact [of "a @ d" "n + w" "CHR '' ''" r] by simp
  ultimately show ?thesis by (simp add: number_field_def)
qed

text \<open>A field that was read is the digits at that place followed by a blank.\<close>

lemma number_field_Inr:
  assumes "number_field data n w name = Inr v" and "n + w < length data"
  shows "\<exists>d. length d = w \<and> list_all is_digit d \<and> v = int (dec_val 0 d)
     \<and> drop n data = d @ CHR '' '' # drop (n + w + 1) data"
proof -
  let ?d = "take w (drop n data)"
  from assms(1) have f: "fixed_decimal data n w name = Inr v" and b: "data ! (n + w) = CHR '' ''"
    by (auto simp: number_field_def split: sum.splits if_splits)
  from f have w: "1 \<le> w" and d: "list_all is_digit ?d" and a: "atoi ?d = Some v"
    by (auto simp: fixed_decimal_def Let_def list_all_iff split: option.splits if_splits)
  have len: "length ?d = w" using assms(2) by simp
  with w have ne: "?d \<noteq> []" by auto
  have "parse_digits ?d = Some (dec_val 0 ?d)" using d ne by (simp add: parse_digits_def)
  with a hd_digit_not_sign [OF d ne] have v: "v = int (dec_val 0 ?d)"
    by (auto simp: atoi_def Let_def split: if_splits)
  have "drop w (drop n data) = CHR '' '' # drop (n + w + 1) data"
    using assms(2) b Cons_nth_drop_Suc [of "n + w" data] by (simp add: add.commute)
  then have "drop n data = ?d @ CHR '' '' # drop (n + w + 1) data"
    by (metis append_take_drop_id)
  with len d v show ?thesis by blast
qed

subsection \<open>The parser and the printer agree\<close>

lemma ident_ok_length: "ident_ok m s \<Longrightarrow> length s \<le> m \<and> 1 \<le> length s"
  by (cases s) (auto simp: ident_ok_def)

lemma parse_relay_frame:
  assumes "relay_open_ok f"
  shows "parse_relay_open (relay_frame f) = Inr f"
proof -
  let ?d = "relay_frame f"
  define v c t m s where "v = zero_pad 3 (nat (ro_version f))"
    and "c = zero_pad 3 (nat (ro_connection f))" and "t = zero_pad 5 (nat (ro_target f))"
    and "m = ro_magic f" and "s = ro_session f"
  define lm ls where "lm = zero_pad 3 (length m)" and "ls = zero_pad 4 (length s)"
  note ok = assms [unfolded relay_open_ok_def]
  have frame: "?d = ''v'' @ v @ CHR '' '' # c @ CHR '' '' # t @ CHR '' '' # lm @ CHR '' '' # m
      @ CHR '' '' # ls @ CHR '' '' # s"
    by (simp add: relay_frame_def v_def c_def t_def lm_def ls_def m_def s_def)
  have m: "length m \<le> 999" "1 \<le> length m" and s: "length s \<le> 9999" "1 \<le> length s"
    using ok ident_ok_length by (auto simp: m_def s_def)
  have l: "length v = 3" "length c = 3" "length t = 5" "length lm = 3" "length ls = 4"
    using ok m s by (auto simp: v_def c_def t_def lm_def ls_def intro!: zero_pad_length)
  have ne: "v \<noteq> []" "c \<noteq> []" "t \<noteq> []" "lm \<noteq> []" "ls \<noteq> []"
    by (simp_all add: v_def c_def t_def lm_def ls_def)
  have dg: "list_all is_digit v" "list_all is_digit c" "list_all is_digit t"
      "list_all is_digit lm" "list_all is_digit ls"
    by (simp_all add: v_def c_def t_def lm_def ls_def zero_pad_digits)
  have len: "length ?d = 25 + length m + length s"
    by (simp add: frame l)
  have vals: "int (dec_val 0 v) = ro_version f" "int (dec_val 0 c) = ro_connection f"
      "int (dec_val 0 t) = ro_target f" "dec_val 0 lm = length m" "dec_val 0 ls = length s"
    using ok by (simp_all add: v_def c_def t_def lm_def ls_def)
  have n1: "number_field ?d 1 3 nm = Inr (int (dec_val 0 v))" for nm
    by (rule number_field_at [of _ "''v''"]) (simp_all add: frame l ne dg)
  have n2: "number_field ?d 5 3 nm = Inr (int (dec_val 0 c))" for nm
    by (rule number_field_at [of _ "''v'' @ v @ '' ''"]) (simp_all add: frame l ne dg)
  have n3: "number_field ?d 9 5 nm = Inr (int (dec_val 0 t))" for nm
    by (rule number_field_at [of _ "''v'' @ v @ '' '' @ c @ '' ''"]) (simp_all add: frame l ne dg)
  have n4: "number_field ?d 15 3 nm = Inr (int (dec_val 0 lm))" for nm
    by (rule number_field_at [of _ "''v'' @ v @ '' '' @ c @ '' '' @ t @ '' ''"])
      (simp_all add: frame l ne dg)
  have b: "?d ! (19 + length m) = CHR '' ''"
    using nth_append_exact [of "''v'' @ v @ '' '' @ c @ '' '' @ t @ '' '' @ lm @ '' '' @ m"
        "19 + length m" "CHR '' ''" "ls @ CHR '' '' # s"]
    by (simp add: frame l)
  have n5: "number_field ?d (20 + length m) 4 nm = Inr (int (dec_val 0 ls))" for nm
    by (rule number_field_at [of _ "''v'' @ v @ '' '' @ c @ '' '' @ t @ '' '' @ lm @ '' '' @ m @ '' ''"])
      (simp_all add: frame l ne dg)
  note n = n1 [unfolded vals] n2 [unfolded vals] n3 [unfolded vals] n4 [unfolded vals] n5 [unfolded vals]
  have d1: "drop 19 ?d = m @ CHR '' '' # ls @ CHR '' '' # s"
    using drop_append_exact [of "''v'' @ v @ '' '' @ c @ '' '' @ t @ '' '' @ lm @ '' ''" 19
        "m @ CHR '' '' # ls @ CHR '' '' # s"] by (simp add: frame l)
  have d2: "drop (25 + length m) ?d = s"
    using drop_append_exact [of "''v'' @ v @ '' '' @ c @ '' '' @ t @ '' '' @ lm @ '' '' @ m @ '' '' @ ls @ '' ''"
        "25 + length m" s] by (simp add: frame l)
  have h: "?d ! 0 = CHR ''v''" by (simp add: frame)
  have fit: "19 + nat (int (length m)) + 6 \<le> length ?d" using s by (simp add: len)
  have idm: "ident_ok 999 m" "ident_ok 9999 s" using ok by (simp_all add: m_def s_def)
  have "parse_relay_open ?d = Inr \<lparr>ro_version = ro_version f, ro_connection = ro_connection f,
      ro_target = ro_target f, ro_magic = m, ro_session = s\<rparr>"
    unfolding parse_relay_open_def using fit idm
    by (simp add: n n [simplified] h b d1 d2 len Let_def add.commute [of _ 1])
  then show ?thesis by (simp add: m_def s_def)
qed

interpretation relay_wire: wire_format relay_open_ok relay_frame parse_relay_open
  by unfold_locales (rule parse_relay_frame)

lemma parse_relay_open_canonical:
  assumes "parse_relay_open data = Inr f"
  shows "relay_open_ok f \<and> data = relay_frame f"
proof -
  from assms have len: "24 \<le> length data" and v0: "data ! 0 = CHR ''v''"
    by (auto simp: parse_relay_open_def split: if_splits)
  from assms len obtain ml sl where
      n1: "number_field data 1 3 ''version'' = Inr (ro_version f)"
    and n2: "number_field data 5 3 ''connection number'' = Inr (ro_connection f)"
    and n3: "number_field data 9 5 ''target port'' = Inr (ro_target f)"
    and n4: "number_field data 15 3 ''magic UUID length'' = Inr ml"
    and e1: "19 + nat ml + 6 \<le> length data" and b1: "data ! (19 + nat ml) = CHR '' ''"
    and n5: "number_field data (20 + nat ml) 4 ''session-name length'' = Inr sl"
    and e2: "25 + nat ml + nat sl = length data"
    and m: "ro_magic f = take (nat ml) (drop 19 data)" "ident_ok 999 (ro_magic f)"
    and s: "ro_session f = take (nat sl) (drop (25 + nat ml) data)" "ident_ok 9999 (ro_session f)"
    by (auto simp: parse_relay_open_def bind_sum_Inr_iff Let_def validate_identifier_iff
        algebra_simps split: if_splits)
  obtain v where v: "length v = 3" "list_all is_digit v" "ro_version f = int (dec_val 0 v)"
      "drop 1 data = v @ CHR '' '' # drop 5 data"
    using number_field_Inr [OF n1] len by auto
  obtain c where c: "length c = 3" "list_all is_digit c" "ro_connection f = int (dec_val 0 c)"
      "drop 5 data = c @ CHR '' '' # drop 9 data"
    using number_field_Inr [OF n2] len by auto
  obtain t where t: "length t = 5" "list_all is_digit t" "ro_target f = int (dec_val 0 t)"
      "drop 9 data = t @ CHR '' '' # drop 15 data"
    using number_field_Inr [OF n3] len by auto
  obtain lm where lm: "length lm = 3" "list_all is_digit lm" "ml = int (dec_val 0 lm)"
      "drop 15 data = lm @ CHR '' '' # drop 19 data"
    using number_field_Inr [OF n4] len by auto
  obtain ls where ls: "length ls = 4" "list_all is_digit ls" "sl = int (dec_val 0 ls)"
      "drop (20 + nat ml) data = ls @ CHR '' '' # drop (25 + nat ml) data"
    using number_field_Inr [OF n5] e1 by (auto simp: algebra_simps)
  have zp: "zero_pad 3 (dec_val 0 v) = v" "zero_pad 3 (dec_val 0 c) = c"
      "zero_pad 5 (dec_val 0 t) = t" "zero_pad 3 (dec_val 0 lm) = lm" "zero_pad 4 (dec_val 0 ls) = ls"
    using zero_pad_dec_val v(1,2) c(1,2) t(1,2) lm(1,2) ls(1,2) by fastforce+
  have bounds: "dec_val 0 v < 1000" "dec_val 0 c < 1000" "dec_val 0 t < 100000"
    using dec_val_bound [of v 0] dec_val_bound [of c 0] dec_val_bound [of t 0] v c t by simp_all
  have lens: "length (ro_magic f) = dec_val 0 lm" "length (ro_session f) = dec_val 0 ls"
    using m(1) s(1) e1 e2 lm(3) ls(3) by simp_all
  have d0: "data = CHR ''v'' # drop 1 data"
    using len v0 Cons_nth_drop_Suc [of 0 data] by (cases data) auto
  have dm: "drop 19 data = ro_magic f @ CHR '' '' # drop (20 + nat ml) data"
  proof -
    have "drop (19 + nat ml) data = CHR '' '' # drop (20 + nat ml) data"
      using e1 b1 Cons_nth_drop_Suc [of "19 + nat ml" data] by simp
    then show ?thesis
      using append_take_drop_id [of "nat ml" "drop 19 data"] m(1) by (simp add: add.commute)
  qed
  have ds: "drop (25 + nat ml) data = ro_session f"
    using s(1) e2 by simp
  have "data = relay_frame f"
    by (subst d0) (simp add: v(4) [simplified] c(4) t(4) lm(4) dm ls(4) ds relay_frame_def v(3) c(3) t(3) lens zp)
  moreover have "relay_open_ok f"
    using bounds m(2) s(2) v(3) c(3) t(3) by (simp add: relay_open_ok_def)
  ultimately show ?thesis by simp
qed

text \<open>C19: the relay-open parser accepts exactly the frames the printer can write, and reads
  back the frame that was printed: \<open>ParseRelayOpen\<close> returns a frame without error if and only
  if marshalling that frame gives the same bytes.\<close>

theorem relay_open_parse_iff_marshal:
  "parse_relay_open data = Inr f \<longleftrightarrow> marshal_relay_open f = Inr data"
  using parse_relay_frame parse_relay_open_canonical by (auto simp: marshal_relay_open_iff)

end
