(* ===== verification/Control_Discovery.thy ===== *)
theory Control_Discovery
  imports Relay_Open
begin

text \<open>
  The discovery exchange with the relay's control host (internal/magic/control_discovery.go):
  the request line, the parser of the two response forms the relay was seen to send, and the
  refusal.  The errors keep the response text they quote, cut as \<open>describeResponse\<close> cuts it.
\<close>

definition connection_mode_web2 :: int where
  "connection_mode_web2 = 2"

definition relay_stream_port :: int where
  "relay_stream_port = 9901"

record app_request =
  rq_magic :: string
  rq_target :: int
  rq_mode :: int
  rq_session :: string

definition marshal_app_request :: "app_request \<Rightarrow> wire_error + string" where
  "marshal_app_request r =
     bind_sum (validate_identifier ''magic UUID'' (rq_magic r) 999) (\<lambda>_.
     if rq_target r < 0 \<or> 99999 < rq_target r then Inl (OutOfRange ''target port'')
     else if rq_mode r < 0 \<or> 999 < rq_mode r then Inl (OutOfRange ''mode'')
     else bind_sum (validate_identifier ''session name'' (rq_session r) 9999) (\<lambda>_.
       Inr (''app '' @ rq_magic r @ '' '' @ itoa (rq_target r) @ '' '' @ itoa (rq_mode r) @ '' ''
            @ rq_session r @ [CHR 0x0A])))"

record app_response =
  rs_fields :: nat
  rs_connection :: int
  rs_stream_host :: string
  rs_control_host :: string
  rs_target :: int
  rs_direct_ip :: string
  rs_direct_port :: int
  rs_mode :: int

datatype discovery_error =
    NotAppResponse string
  | BadConnectionNumber string
  | RelayRefused int string
  | UnsupportedFieldCount nat string
  | HostLength string
  | HostChars string
  | PortSyntax string
  | PortRange string
  | BadMode

definition max_described_response :: nat where
  "max_described_response = 160"

definition describe_response :: "string \<Rightarrow> string" where
  "describe_response text =
     (if max_described_response < length text
      then take max_described_response text @ ''...'' else text)"

definition parse_port :: "string \<Rightarrow> string \<Rightarrow> discovery_error + int" where
  "parse_port field name =
     (case atoi field of
        None \<Rightarrow> Inl (PortSyntax name)
      | Some value \<Rightarrow> if value < 0 \<or> 99999 < value then Inl (PortRange name) else Inr value)"

definition validate_host :: "string \<Rightarrow> string \<Rightarrow> discovery_error + unit" where
  "validate_host name value =
     (if value = [] \<or> 253 < length value then Inl (HostLength name)
      else if \<exists>c \<in> set value. \<not> printable c then Inl (HostChars name)
      else Inr ())"

definition parse_app_response :: "string \<Rightarrow> discovery_error + app_response" where
  "parse_app_response data =
     (let text = trim_right [CHR 0x0D, CHR 0x0A] data;
          fs = split_at CHR '' '' text
      in if length fs < 2 \<or> \<not> equal_fold (fs ! 0) ''app'' then Inl (NotAppResponse (describe_response text))
         else case atoi (fs ! 1) of
           None \<Rightarrow> Inl (BadConnectionNumber (describe_response text))
         | Some num \<Rightarrow>
             if num \<le> 0 then Inl (RelayRefused num (describe_response text))
             else if length fs \<noteq> 4 \<and> length fs \<noteq> 8
               then Inl (UnsupportedFieldCount (length fs) (describe_response text))
             else
               bind_sum (validate_host ''stream host'' (fs ! 2)) (\<lambda>_.
               bind_sum (validate_host ''control host'' (fs ! 3)) (\<lambda>_.
               let result = \<lparr>rs_fields = length fs, rs_connection = num, rs_stream_host = fs ! 2,
                     rs_control_host = fs ! 3, rs_target = 0, rs_direct_ip = [], rs_direct_port = 0,
                     rs_mode = 0\<rparr> in
               if length fs = 4 then Inr result else
               bind_sum (parse_port (fs ! 4) ''target port'') (\<lambda>target.
               bind_sum (parse_port (fs ! 6) ''direct port'') (\<lambda>direct_port.
               case atoi (fs ! 7) of
                 None \<Rightarrow> Inl BadMode
               | Some mode \<Rightarrow>
                   bind_sum (validate_host ''direct IP'' (fs ! 5)) (\<lambda>_.
                   Inr (result\<lparr>rs_target := target, rs_direct_ip := fs ! 5,
                               rs_direct_port := direct_port, rs_mode := mode\<rparr>)))))))"

subsection \<open>What the parser accepts\<close>

definition host_ok :: "string \<Rightarrow> bool" where
  "host_ok h \<longleftrightarrow> h \<noteq> [] \<and> length h \<le> 253 \<and> list_all printable h"

definition port_ok :: "int \<Rightarrow> bool" where
  "port_ok p \<longleftrightarrow> 0 \<le> p \<and> p \<le> 99999"

text \<open>The two forms of an answer, the way the relay writes them.\<close>

definition response_fields :: "app_response \<Rightarrow> string list" where
  "response_fields r =
     [''app'', itoa (rs_connection r), rs_stream_host r, rs_control_host r] @
     (if rs_fields r = 4 then []
      else [itoa (rs_target r), rs_direct_ip r, itoa (rs_direct_port r), itoa (rs_mode r)])"

definition response_line :: "app_response \<Rightarrow> string" where
  "response_line r = join_sp (response_fields r) @ [CHR 0x0A]"

definition response_ok :: "app_response \<Rightarrow> bool" where
  "response_ok r \<longleftrightarrow> 0 < rs_connection r \<and> rs_connection r < 2 ^ 63
     \<and> host_ok (rs_stream_host r) \<and> host_ok (rs_control_host r)
     \<and> (if rs_fields r = 4
        then rs_target r = 0 \<and> rs_direct_ip r = [] \<and> rs_direct_port r = 0 \<and> rs_mode r = 0
        else rs_fields r = 8 \<and> port_ok (rs_target r) \<and> host_ok (rs_direct_ip r)
             \<and> port_ok (rs_direct_port r) \<and> - (2 ^ 63) \<le> rs_mode r \<and> rs_mode r < 2 ^ 63)"

lemma validate_host_iff: "validate_host name h = Inr u \<longleftrightarrow> host_ok h"
  by (auto simp: validate_host_def host_ok_def list_all_iff)

lemma validate_host_ok [simp]: "host_ok h \<Longrightarrow> validate_host name h = Inr ()"
  by (simp add: validate_host_iff)

lemma parse_port_Inr: "parse_port f name = Inr p \<Longrightarrow> port_ok p"
  by (auto simp: parse_port_def port_ok_def split: option.splits if_splits)

lemma parse_port_itoa [simp]: "port_ok p \<Longrightarrow> parse_port (itoa p) name = Inr p"
  using atoi_itoa [of p] by (simp add: parse_port_def port_ok_def)

lemma equal_fold_refl [simp]: "equal_fold s s"
  by (simp add: equal_fold_def)

lemma host_word_field: "host_ok h \<Longrightarrow> word_field h"
  by (simp add: host_ok_def word_field_def)

lemma app_word_field: "word_field ''app''"
  by (simp add: word_field_def printable_def)

lemma response_fields_words: "response_ok r \<Longrightarrow> list_all word_field (response_fields r)"
  by (auto simp: response_ok_def response_fields_def itoa_word_field host_word_field
      app_word_field)

lemma join_sp_printable_end:
  "list_all word_field ws \<Longrightarrow> ws \<noteq> [] \<Longrightarrow> join_sp ws \<noteq> [] \<and> printable (last (join_sp ws))"
  by (induction ws rule: join_sp.induct)
    (auto simp: word_field_def list_all_iff last_in_set)

lemma parse_response_line:
  assumes "response_ok r"
  shows "parse_app_response (response_line r) = Inr r"
proof -
  let ?t = "join_sp (response_fields r)"
  have w: "list_all word_field (response_fields r)" using response_fields_words [OF assms] .
  have ne: "response_fields r \<noteq> []" by (simp add: response_fields_def)
  from join_sp_printable_end [OF w ne] have "last ?t \<notin> set [CHR 0x0D, CHR 0x0A]"
    by (auto simp: printable_def)
  then have trim: "trim_right [CHR 0x0D, CHR 0x0A] (response_line r) = ?t"
    by (simp add: response_line_def trim_right_id)
  have split: "split_at CHR '' '' ?t = response_fields r"
    using w ne by (intro split_at_join) (auto simp: list_all_iff word_field_no_blank)
  have num: "atoi (itoa (rs_connection r)) = Some (rs_connection r)"
    using assms by (intro atoi_itoa) (auto simp: response_ok_def)
  show ?thesis
  proof (cases "rs_fields r = 4")
    case True
    then have fs: "response_fields r = [''app'', itoa (rs_connection r), rs_stream_host r, rs_control_host r]"
      by (simp add: response_fields_def)
    show ?thesis
      unfolding parse_app_response_def Let_def trim split
      using assms True by (simp add: fs num response_ok_def)
  next
    case False
    then have fs: "response_fields r = [''app'', itoa (rs_connection r), rs_stream_host r,
        rs_control_host r, itoa (rs_target r), rs_direct_ip r, itoa (rs_direct_port r), itoa (rs_mode r)]"
      by (simp add: response_fields_def)
    have mode: "atoi (itoa (rs_mode r)) = Some (rs_mode r)"
      using assms False by (intro atoi_itoa) (auto simp: response_ok_def)
    show ?thesis
      unfolding parse_app_response_def Let_def trim split
      using assms False by (simp add: fs num mode response_ok_def)
  qed
qed

interpretation response_wire: wire_format response_ok response_line parse_app_response
  by unfold_locales (rule parse_response_line)

lemma parse_app_response_ok:
  assumes "parse_app_response data = Inr r"
  shows "response_ok r"
proof -
  define fs where "fs = split_at CHR '' '' (trim_right [CHR 0x0D, CHR 0x0A] data)"
  from assms [unfolded parse_app_response_def Let_def, folded fs_def]
  obtain num where num: "atoi (fs ! 1) = Some num" "\<not> num \<le> 0" "host_ok (fs ! 2)" "host_ok (fs ! 3)"
    and len: "length fs = 4 \<or> length fs = 8"
    by (auto simp: Inr_iffs validate_host_iff)
  show ?thesis
  proof (cases "length fs = 4")
    case True
    with assms [unfolded parse_app_response_def Let_def, folded fs_def] num show ?thesis
      by (auto simp: Inr_iffs response_ok_def dest: atoi_range)
  next
    case False
    with len have 8: "length fs = 8" by simp
    from assms [unfolded parse_app_response_def Let_def, folded fs_def] num 8
    obtain tp dp mode where "parse_port (fs ! 4) ''target port'' = Inr tp"
        "parse_port (fs ! 6) ''direct port'' = Inr dp" "atoi (fs ! 7) = Some mode"
        "host_ok (fs ! 5)" and r: "r = \<lparr>rs_fields = 8, rs_connection = num, rs_stream_host = fs ! 2,
          rs_control_host = fs ! 3, rs_target = tp, rs_direct_ip = fs ! 5, rs_direct_port = dp,
          rs_mode = mode\<rparr>"
      by (auto simp: Inr_iffs validate_host_iff)
    then have "port_ok tp" "port_ok dp" "- (2 ^ 63) \<le> mode" "mode < 2 ^ 63" "num < 2 ^ 63"
      using parse_port_Inr atoi_range num(1) by blast+
    with num \<open>host_ok (fs ! 5)\<close> show ?thesis by (simp add: r response_ok_def)
  qed
qed

lemma parse_app_response_refused:
  "parse_app_response data = Inl (RelayRefused n d) \<longleftrightarrow>
     (let text = trim_right [CHR 0x0D, CHR 0x0A] data; fs = split_at CHR '' '' text
      in 2 \<le> length fs \<and> equal_fold (fs ! 0) ''app'' \<and> atoi (fs ! 1) = Some n \<and> n \<le> 0
         \<and> d = describe_response text)"
proof -
  define line where "line = trim_right [CHR 0x0D, CHR 0x0A] data"
  define fs where "fs = split_at CHR '' '' line"
  have hosts: "validate_host nm h \<noteq> Inl (RelayRefused n d)" for nm h
    by (simp add: validate_host_def)
  have ports: "parse_port f nm \<noteq> Inl (RelayRefused n d)" for f nm
    by (simp add: parse_port_def split: option.splits)
  have bind: "bind_sum x k = Inl e \<longleftrightarrow> x = Inl e \<or> (\<exists>y. x = Inr y \<and> k y = Inl e)"
    for x :: "discovery_error + 'x" and k :: "'x \<Rightarrow> discovery_error + app_response" and e
    by (cases x) auto
  show ?thesis
    unfolding parse_app_response_def Let_def line_def [symmetric] fs_def [symmetric]
    by (auto simp: bind hosts ports split: option.splits)
qed

text \<open>What a well-formed answer is, read off its fields: the \<open>app\<close> word in any case, a positive
  connection number and two hosts; in the long form also two ports, an address and a mode; no
  other number of fields.\<close>

definition answer_of :: "string list \<Rightarrow> app_response \<Rightarrow> bool" where
  "answer_of fs r \<longleftrightarrow>
     (length fs = 4 \<or> length fs = 8) \<and> equal_fold (fs ! 0) ''app''
   \<and> atoi (fs ! 1) = Some (rs_connection r) \<and> 0 < rs_connection r
   \<and> rs_stream_host r = fs ! 2 \<and> host_ok (fs ! 2) \<and> rs_control_host r = fs ! 3 \<and> host_ok (fs ! 3)
   \<and> rs_fields r = length fs
   \<and> (if length fs = 4
      then rs_target r = 0 \<and> rs_direct_ip r = [] \<and> rs_direct_port r = 0 \<and> rs_mode r = 0
      else atoi (fs ! 4) = Some (rs_target r) \<and> port_ok (rs_target r)
         \<and> rs_direct_ip r = fs ! 5 \<and> host_ok (fs ! 5)
         \<and> atoi (fs ! 6) = Some (rs_direct_port r) \<and> port_ok (rs_direct_port r)
         \<and> atoi (fs ! 7) = Some (rs_mode r))"

lemma parse_port_iff: "parse_port f name = Inr p \<longleftrightarrow> atoi f = Some p \<and> port_ok p"
  by (auto simp: parse_port_def port_ok_def split: option.splits)

lemma parse_app_response_iff:
  "parse_app_response data = Inr r \<longleftrightarrow>
     answer_of (split_at CHR '' '' (trim_right [CHR 0x0D, CHR 0x0A] data)) r"
proof -
  define fs where "fs = split_at CHR '' '' (trim_right [CHR 0x0D, CHR 0x0A] data)"
  show ?thesis
    unfolding parse_app_response_def answer_of_def Let_def fs_def [symmetric]
    by (cases "length fs = 4"; cases "length fs = 8"; cases r)
      (auto simp: Inr_iffs validate_host_iff parse_port_iff split: option.splits)
qed

text \<open>C25: the discovery parser accepts exactly the well-formed answers and reads off exactly their
  values.  A line is accepted if and only if, without its line end and cut at the blanks, it has
  four or eight fields: the word \<open>app\<close> in any case, a positive number, two hosts of 1 to 253
  printable bytes and, in the long form, a port within 0..99999, a further host, a second port
  and a number; the response is those values.  Whatever is accepted is a valid response, and
  every valid response as the relay writes it is read back unchanged.\<close>

theorem app_response_accepts:
  "(parse_app_response data = Inr r \<longleftrightarrow>
      answer_of (split_at CHR '' '' (trim_right [CHR 0x0D, CHR 0x0A] data)) r)
   \<and> (parse_app_response data = Inr r \<longrightarrow> response_ok r)
   \<and> (response_ok r \<longrightarrow> parse_app_response (response_line r) = Inr r)"
  using parse_app_response_iff parse_app_response_ok parse_response_line by blast

theorem app_response_accepts_witness:
  "response_ok \<lparr>rs_fields = 4, rs_connection = 1, rs_stream_host = ''s.example'',
      rs_control_host = ''c.example'', rs_target = 0, rs_direct_ip = [], rs_direct_port = 0, rs_mode = 0\<rparr>
   \<and> parse_app_response (''app 1 s.example c.example'' @ [CHR 0x0A]) =
     Inr \<lparr>rs_fields = 4, rs_connection = 1, rs_stream_host = ''s.example'',
      rs_control_host = ''c.example'', rs_target = 0, rs_direct_ip = [], rs_direct_port = 0, rs_mode = 0\<rparr>
   \<and> parse_app_response ''junk 1 s.example c.example'' \<noteq> Inr \<lparr>rs_fields = 4, rs_connection = 1,
      rs_stream_host = ''s.example'', rs_control_host = ''c.example'', rs_target = 0,
      rs_direct_ip = [], rs_direct_port = 0, rs_mode = 0\<rparr>"
proof -
  let ?r = "\<lparr>rs_fields = 4, rs_connection = 1, rs_stream_host = ''s.example'',
      rs_control_host = ''c.example'', rs_target = 0, rs_direct_ip = [], rs_direct_port = 0, rs_mode = 0\<rparr>"
  have ok: "response_ok ?r" by code_simp
  have "response_line ?r = ''app 1 s.example c.example'' @ [CHR 0x0A]" by code_simp
  moreover have "\<not> answer_of (split_at CHR '' '' (trim_right [CHR 0x0D, CHR 0x0A] ''junk 1 s.example c.example'')) ?r"
    by code_simp
  ultimately show ?thesis
    using ok app_response_accepts [of "response_line ?r" ?r]
      app_response_accepts [of "''junk 1 s.example c.example''" ?r] by simp
qed

text \<open>An answer is reported as a refusal exactly when it is an \<open>app\<close> line whose second
  field is a number that is not positive, whatever fields follow; the quoted response is never
  longer than the limit and its ellipsis.\<close>

theorem app_response_refusal:
  "(parse_app_response data = Inl (RelayRefused n d)) =
     (let text = trim_right [CHR 0x0D, CHR 0x0A] data; fs = split_at CHR '' '' text
      in 2 \<le> length fs \<and> equal_fold (fs ! 0) ''app'' \<and> atoi (fs ! 1) = Some n \<and> n \<le> 0
         \<and> d = describe_response text \<and> length d \<le> 163)"
  unfolding parse_app_response_refused
  by (auto simp: Let_def describe_response_def max_described_response_def)

end
