(* ===== verification/Go_Net.thy ===== *)
theory Go_Net
  imports Go_Text
begin

text \<open>
  Go's \<open>net.SplitHostPort\<close> and \<open>net.JoinHostPort\<close>, with the bracket rules of IPv6 literals,
  and the round trip the address allocation relies on.
\<close>

definition last_index :: "char \<Rightarrow> string \<Rightarrow> nat option" where
  "last_index c s = (if c \<in> set s then Some (length s - 1 - length (takeWhile (\<lambda>x. x \<noteq> c) (rev s))) else None)"

definition first_index :: "char \<Rightarrow> string \<Rightarrow> nat option" where
  "first_index c s = (if c \<in> set s then Some (length (takeWhile (\<lambda>x. x \<noteq> c) s)) else None)"

definition finish_host_port :: "string \<Rightarrow> nat \<Rightarrow> string \<Rightarrow> nat \<Rightarrow> nat \<Rightarrow> (string \<times> string) option" where
  "finish_host_port hostport i host j k =
     (if CHR ''['' \<in> set (drop j hostport) \<or> CHR '']'' \<in> set (drop k hostport) then None
      else Some (host, drop (i + 1) hostport))"

definition split_host_port :: "string \<Rightarrow> (string \<times> string) option" where
  "split_host_port hostport =
     (case last_index CHR '':'' hostport of
        None \<Rightarrow> None
      | Some i \<Rightarrow>
          if hostport ! 0 = CHR ''['' then
            (case first_index CHR '']'' hostport of
               None \<Rightarrow> None
             | Some end \<Rightarrow>
                 if end + 1 = i
                 then finish_host_port hostport i (take (end - 1) (drop 1 hostport)) 1 (end + 1)
                 else None)
          else if CHR '':'' \<in> set (take i hostport) then None
          else finish_host_port hostport i (take i hostport) 0 0)"

definition join_host_port :: "string \<Rightarrow> string \<Rightarrow> string" where
  "join_host_port host port =
     (if CHR '':'' \<in> set host then ''['' @ host @ '']:'' @ port else host @ '':'' @ port)"

lemma last_index_append:
  "c \<notin> set b \<Longrightarrow> last_index c (a @ c # b) = Some (length a)"
proof -
  assume "c \<notin> set b"
  then have "takeWhile (\<lambda>x. x \<noteq> c) (rev b @ c # rev a) = rev b"
    by (subst takeWhile_append2) auto
  then show ?thesis by (simp add: last_index_def)
qed

lemma first_index_append:
  "c \<notin> set a \<Longrightarrow> first_index c (a @ c # b) = Some (length a)"
proof -
  assume "c \<notin> set a"
  then have "takeWhile (\<lambda>x. x \<noteq> c) (a @ c # b) = a"
    by (subst takeWhile_append2) auto
  then show ?thesis by (simp add: first_index_def)
qed

definition plain_host :: "string \<Rightarrow> bool" where
  "plain_host h \<longleftrightarrow> CHR ''['' \<notin> set h \<and> CHR '']'' \<notin> set h"

definition plain_port :: "string \<Rightarrow> bool" where
  "plain_port p \<longleftrightarrow> CHR ''['' \<notin> set p \<and> CHR '']'' \<notin> set p \<and> CHR '':'' \<notin> set p"

lemma split_join_host_port:
  assumes "plain_host h" and "plain_port p"
  shows "split_host_port (join_host_port h p) = Some (h, p)"
proof (cases "CHR '':'' \<in> set h")
  case True
  let ?s = "CHR ''['' # h @ CHR '']'' # CHR '':'' # p"
  have j: "join_host_port h p = ?s" using True by (simp add: join_host_port_def)
  have l: "last_index CHR '':'' ?s = Some (length h + 2)"
    using assms last_index_append [of "CHR '':''" p "CHR ''['' # h @ [CHR '']'']"]
    by (simp add: plain_port_def)
  have f: "first_index CHR '']'' ?s = Some (length h + 1)"
    using assms first_index_append [of "CHR '']''" "CHR ''['' # h"] by (simp add: plain_host_def)
  show ?thesis
    using assms by (simp add: split_host_port_def j l f finish_host_port_def plain_host_def plain_port_def)
next
  case False
  let ?s = "h @ CHR '':'' # p"
  have j: "join_host_port h p = ?s" using False by (simp add: join_host_port_def)
  have l: "last_index CHR '':'' ?s = Some (length h)"
    using assms last_index_append by (simp add: plain_port_def)
  have "?s ! 0 \<noteq> CHR ''[''" using assms by (cases h) (auto simp: plain_host_def)
  then show ?thesis
    using assms False
    by (simp add: split_host_port_def j l finish_host_port_def plain_host_def plain_port_def)
qed

lemma plain_port_itoa: "plain_port (itoa n)"
proof -
  have "list_all is_digit (dec_digits (nat n)) \<and> list_all is_digit (dec_digits (nat (- n)))"
    by (simp add: dec_digits_digits)
  then show ?thesis
    by (auto simp: plain_port_def itoa_def list_all_iff is_digit_def)
qed

text \<open>A host that came out of splitting an address has no brackets.\<close>

lemma split_host_port_plain:
  assumes "split_host_port a = Some (h, p)"
  shows "plain_host h \<and> plain_port p"
proof -
  from assms obtain i where i: "last_index CHR '':'' a = Some i"
    by (auto simp: split_host_port_def split: option.splits)
  define b where "b = rev (takeWhile (\<lambda>x. x \<noteq> CHR '':'') (rev a))"
  have colon: "CHR '':'' \<in> set a" using i by (auto simp: last_index_def split: if_splits)
  then obtain ys zs where sp: "rev a = ys @ CHR '':'' # zs" "CHR '':'' \<notin> set ys"
    using split_list_first [of "CHR '':''" "rev a"] by auto
  have "takeWhile (\<lambda>x. x \<noteq> CHR '':'') (ys @ CHR '':'' # zs) = ys"
    using sp(2) by (subst takeWhile_append2) auto
  then have "rev a = rev b @ CHR '':'' # zs" by (simp add: b_def sp(1))
  then have "\<exists>r. rev a = rev b @ CHR '':'' # r" by blast
  then obtain r where r: "a = rev r @ CHR '':'' # b"
    by (metis append.assoc append_Cons append_Nil rev_append rev_rev_ident rev.simps(2))
  have nb: "CHR '':'' \<notin> set b" by (auto simp: b_def dest: set_takeWhileD)
  have il: "i = length r" using i r last_index_append [OF nb, of "rev r"] by simp
  have pb: "drop (i + 1) a = b" by (simp add: r il)
  show ?thesis
  proof (cases "a ! 0 = CHR ''[''")
    case True
    with assms i obtain e where e: "first_index CHR '']'' a = Some e" "e + 1 = i"
      and f: "finish_host_port a i (take (e - 1) (drop 1 a)) 1 (e + 1) = Some (h, p)"
      by (auto simp: split_host_port_def split: option.splits if_splits)
    from f have h: "h = take (e - 1) (drop 1 a)" "p = b" and nolb: "CHR ''['' \<notin> set (drop 1 a)"
      and norb: "CHR '']'' \<notin> set (drop (e + 1) a)"
      using pb by (auto simp: finish_host_port_def split: if_splits)
    have sub: "set b \<subseteq> set (drop (e + 1) a)" using e(2) pb set_drop_subset_set_drop [of "e + 1" "i + 1" a] by auto
    have "set b \<subseteq> set (drop 1 a)" using pb set_drop_subset_set_drop [of 1 "i + 1" a] by auto
    moreover have "set h \<subseteq> set (drop 1 a)" by (auto simp: h(1) dest: in_set_takeD)
    moreover have "CHR '']'' \<notin> set h"
    proof -
      have "e = length (takeWhile (\<lambda>x. x \<noteq> CHR '']'') a)"
        using e(1) by (auto simp: first_index_def split: if_splits)
      then have "take e a = takeWhile (\<lambda>x. x \<noteq> CHR '']'') a" by (metis takeWhile_eq_take)
      then have "CHR '']'' \<notin> set (take e a)" by (auto dest: set_takeWhileD)
      moreover have "h = drop 1 (take e a)" by (simp add: h(1) drop_take)
      ultimately show ?thesis by (auto dest: in_set_dropD)
    qed
    ultimately show ?thesis using nolb norb nb sub by (auto simp: plain_host_def plain_port_def h(2))
  next
    case False
    with assms i have "finish_host_port a i (take i a) 0 0 = Some (h, p)"
      by (auto simp: split_host_port_def split: option.splits if_splits)
    then have "h = take i a" "p = b" "CHR ''['' \<notin> set a" "CHR '']'' \<notin> set a"
      using pb by (auto simp: finish_host_port_def split: if_splits)
    moreover have "set (take i a) \<subseteq> set a" "set b \<subseteq> set a"
      using set_take_subset [of i a] r by auto
    ultimately show ?thesis using nb by (auto simp: plain_host_def plain_port_def)
  qed
qed

end
