(* ===== verification/Tunnel.thy ===== *)
theory Tunnel
  imports Token_Crypto Control_Discovery Go_Net
begin

text \<open>
  The relay tunnel (internal/magic/tunnel.go): the opening sequence over two sockets, and the
  byte-transparent connection it leaves behind.

  The network is a parameter: a \<open>dial_script\<close> holds the outcome of every call the opening
  sequence makes on it (an error, or success), and the model returns the calls it made, in
  order, as a list of \<open>net_act\<close>.  Later reads of the stream are a list of the results of
  \<open>Read\<close> on the socket, each with the bytes it delivered and its error, if any.
\<close>

subsection \<open>The opening sequence\<close>

definition control_port_default :: int where
  "control_port_default = 8800"

definition default_handshake_timeout :: int where
  "default_handshake_timeout = 15 * 1000000000"

record tunnel_config =
  tc_control_host :: string
  tc_control_port :: int
  tc_magic :: string
  tc_target :: int
  tc_session :: string
  tc_token :: string
  tc_handshake_timeout :: int

datatype sock = Control | Stream

datatype net_act =
    Opened sock string
  | DialFailed string
  | Deadline sock "int option"
  | Sent sock string
  | LineRead sock
  | Closed sock

text \<open>What the network answers, call by call; \<open>None\<close> is success.\<close>

record dial_script =
  sc_dial_control :: "string option"
  sc_control_deadline :: "string option"
  sc_send_request :: "string option"
  sc_answer :: "string + string"
  sc_dial_stream :: "string option"
  sc_stream_deadline :: "string option"
  sc_send_open :: "string option"
  sc_clear_stream :: "string option"
  sc_clear_control :: "string option"
  sc_random :: bytes

datatype dial_cause =
    NetFault string
  | WireFault wire_error
  | AnswerFault discovery_error
  | ModeFault int
  | CryptoFault crypto_error

datatype dial_error =
    NoDeviceToken
  | BuildRequest wire_error
  | DialControlHost string
  | StepFailed string dial_cause

record tunnel =
  tn_response :: app_response
  tn_encoder :: encoder
  tn_decoder :: decoder
  tn_read_buf :: bytes

text \<open>The caller's deadline wins; without one the handshake still has one.\<close>

definition handshake_deadline :: "int option \<Rightarrow> int \<Rightarrow> int \<Rightarrow> int" where
  "handshake_deadline ctx_deadline now timeout =
     (case ctx_deadline of
        Some d \<Rightarrow> d
      | None \<Rightarrow> now + (if timeout \<le> 0 then default_handshake_timeout else timeout))"

text \<open>\<open>Close\<close> closes the sockets that were opened, the stream first.\<close>

definition close_acts :: "bool \<Rightarrow> net_act list" where
  "close_acts stream_open = (if stream_open then [Closed Stream] else []) @ [Closed Control]"

definition fail_step ::
  "bool \<Rightarrow> net_act list \<Rightarrow> string \<Rightarrow> dial_cause \<Rightarrow> (dial_error + tunnel) \<times> net_act list" where
  "fail_step stream_open acts step cause = (Inl (StepFailed step cause), acts @ close_acts stream_open)"

text \<open>The second half of \<open>Dial\<close>, from the stream socket on.\<close>

definition open_stream ::
  "tunnel_config \<Rightarrow> int \<Rightarrow> dial_script \<Rightarrow> app_response \<Rightarrow> int \<Rightarrow> net_act list
     \<Rightarrow> (dial_error + tunnel) \<times> net_act list" where
  "open_stream cfg deadline net response target acts =
     (let addr = join_host_port (rs_stream_host response) (itoa relay_stream_port) in
      case sc_dial_stream net of
        Some err \<Rightarrow> fail_step False (acts @ [DialFailed addr]) ''dial stream host'' (NetFault err)
      | None \<Rightarrow>
     (let acts = acts @ [Opened Stream addr, Deadline Stream (Some deadline)] in
      case sc_stream_deadline net of
        Some err \<Rightarrow> fail_step True acts ''set stream deadline'' (NetFault err)
      | None \<Rightarrow>
     (case marshal_relay_open \<lparr>ro_version = relay_open_version2,
             ro_connection = rs_connection response, ro_target = target,
             ro_magic = tc_magic cfg, ro_session = tc_session cfg\<rparr> of
        Inl err \<Rightarrow> fail_step True acts ''build relay-open frame'' (WireFault err)
      | Inr frame \<Rightarrow>
     (let acts = acts @ [Sent Stream frame] in
      case sc_send_open net of
        Some err \<Rightarrow> fail_step True acts ''send relay-open frame'' (NetFault err)
      | None \<Rightarrow>
     (case new_encoder (tc_token cfg) (sc_random net) of
        Inl err \<Rightarrow> fail_step True acts ''init token encoder'' (CryptoFault err)
      | Inr enc \<Rightarrow>
     (case new_decoder (tc_token cfg) of
        Inl err \<Rightarrow> fail_step True acts ''init token decoder'' (CryptoFault err)
      | Inr dec \<Rightarrow>
     (let acts = acts @ [Deadline Stream None] in
      case sc_clear_stream net of
        Some err \<Rightarrow> fail_step True acts ''clear stream deadline'' (NetFault err)
      | None \<Rightarrow>
     (let acts = acts @ [Deadline Control None] in
      case sc_clear_control net of
        Some err \<Rightarrow> fail_step True acts ''clear control deadline'' (NetFault err)
      | None \<Rightarrow> (Inr \<lparr>tn_response = response, tn_encoder = enc, tn_decoder = dec,
                       tn_read_buf = []\<rparr>, acts)))))))))"

definition dial_tunnel ::
  "tunnel_config \<Rightarrow> int option \<Rightarrow> int \<Rightarrow> dial_script \<Rightarrow> (dial_error + tunnel) \<times> net_act list" where
  "dial_tunnel cfg ctx_deadline now net =
     (if tc_token cfg = [] then (Inl NoDeviceToken, []) else
      let port = (if tc_control_port cfg = 0 then control_port_default else tc_control_port cfg);
          deadline = handshake_deadline ctx_deadline now (tc_handshake_timeout cfg) in
      case marshal_app_request \<lparr>rq_magic = tc_magic cfg, rq_target = tc_target cfg,
             rq_mode = connection_mode_web2, rq_session = tc_session cfg\<rparr> of
        Inl err \<Rightarrow> (Inl (BuildRequest err), [])
      | Inr request \<Rightarrow>
     (let addr = join_host_port (tc_control_host cfg) (itoa port) in
      case sc_dial_control net of
        Some err \<Rightarrow> (Inl (DialControlHost err), [DialFailed addr])
      | None \<Rightarrow>
     (let acts = [Opened Control addr, Deadline Control (Some deadline)] in
      case sc_control_deadline net of
        Some err \<Rightarrow> fail_step False acts ''set control deadline'' (NetFault err)
      | None \<Rightarrow>
     (let acts = acts @ [Sent Control request] in
      case sc_send_request net of
        Some err \<Rightarrow> fail_step False acts ''send app request'' (NetFault err)
      | None \<Rightarrow>
     (let acts = acts @ [LineRead Control] in
      case sc_answer net of
        Inl err \<Rightarrow> fail_step False acts ''read app response'' (NetFault err)
      | Inr line \<Rightarrow>
     (case parse_app_response line of
        Inl err \<Rightarrow> fail_step False acts ''parse app response'' (AnswerFault err)
      | Inr response \<Rightarrow>
        if rs_fields response = 8 \<and> rs_mode response \<noteq> connection_mode_web2
        then fail_step False acts ''relay selected non-WEB2 mode'' (ModeFault (rs_mode response))
        else open_stream cfg deadline net response
               (if rs_fields response = 8 then rs_target response else tc_target cfg) acts))))))"

subsection \<open>The open tunnel\<close>

datatype read_result = GotBytes bytes | GotError string | StillWaiting

text \<open>\<open>bytes.Buffer.Read\<close> hands out at most the caller's capacity and keeps the rest.\<close>

definition take_buffered :: "tunnel \<Rightarrow> nat \<Rightarrow> tunnel \<times> read_result" where
  "take_buffered t cap =
     (t\<lparr>tn_read_buf := drop cap (tn_read_buf t)\<rparr>, GotBytes (take cap (tn_read_buf t)))"

fun read_stream ::
  "tunnel \<Rightarrow> nat \<Rightarrow> (bytes \<times> string option) list
     \<Rightarrow> tunnel \<times> read_result \<times> (bytes \<times> string option) list" where
  "read_stream t cap [] = (t, StillWaiting, [])"
| "read_stream t cap ((raw, err) # net) =
     (let (dec, plain) = (if raw \<noteq> [] then decode (tn_decoder t) raw else (tn_decoder t, []));
          t' = t\<lparr>tn_decoder := dec\<rparr> in
      if plain \<noteq> [] then
        (let (t'', r) = take_buffered (t'\<lparr>tn_read_buf := tn_read_buf t' @ plain\<rparr>) cap in (t'', r, net))
      else (case err of
              Some e \<Rightarrow> (t', GotError e, net)
            | None \<Rightarrow> read_stream t' cap net))"

definition tunnel_read ::
  "tunnel \<Rightarrow> nat \<Rightarrow> (bytes \<times> string option) list
     \<Rightarrow> tunnel \<times> read_result \<times> (bytes \<times> string option) list" where
  "tunnel_read t cap net =
     (if tn_read_buf t \<noteq> [] then (let (t', r) = take_buffered t cap in (t', r, net))
      else read_stream t cap net)"

datatype write_error = EncodeFault crypto_error | SendFault string

text \<open>The encoder has moved on even when the socket then refuses the bytes.\<close>

definition tunnel_write ::
  "tunnel \<Rightarrow> bytes \<Rightarrow> string option \<Rightarrow> tunnel \<times> bytes \<times> (write_error + nat)" where
  "tunnel_write t p send =
     (case encode (tn_encoder t) p of
        (enc, Inl err) \<Rightarrow> (t\<lparr>tn_encoder := enc\<rparr>, [], Inl (EncodeFault err))
      | (enc, Inr cipher) \<Rightarrow>
          (t\<lparr>tn_encoder := enc\<rparr>, cipher,
           (case send of Some e \<Rightarrow> Inl (SendFault e) | None \<Rightarrow> Inr (length p))))"

text \<open>The first error of the two, the stream's before the control connection's.\<close>

definition tunnel_close_result :: "string option \<Rightarrow> string option \<Rightarrow> string option" where
  "tunnel_close_result stream_err control_err =
     (case stream_err of Some e \<Rightarrow> Some e | None \<Rightarrow> control_err)"

datatype keep_alive_act = KeepAliveOn | KeepAlivePeriod int

definition set_keep_alive ::
  "bool \<Rightarrow> string option \<Rightarrow> string option \<Rightarrow> int \<Rightarrow> keep_alive_act list \<times> string option" where
  "set_keep_alive is_tcp on_err period_err period =
     (if period \<le> 0 then ([], None)
      else if \<not> is_tcp then ([], None)
      else (case on_err of
              Some e \<Rightarrow> ([KeepAliveOn], Some e)
            | None \<Rightarrow> ([KeepAliveOn, KeepAlivePeriod period], period_err)))"

subsection \<open>No socket is left behind\<close>

fun still_open :: "net_act list \<Rightarrow> sock set \<Rightarrow> sock set" where
  "still_open [] s = s"
| "still_open (Opened k a # acts) s = still_open acts (insert k s)"
| "still_open (Closed k # acts) s = still_open acts (s - {k})"
| "still_open (_ # acts) s = still_open acts s"

lemma still_open_append: "still_open (a @ b) s = still_open b (still_open a s)"
  by (induction a s rule: still_open.induct) simp_all

lemma still_open_close_acts:
  "s \<subseteq> {Control} \<union> (if b then {Stream} else {}) \<Longrightarrow> still_open (close_acts b) s = {}"
  by (auto simp: close_acts_def)

definition settled :: "(dial_error + tunnel) \<times> net_act list \<Rightarrow> bool" where
  "settled r \<longleftrightarrow> still_open (snd r) {} = (if is_Inr (fst r) then {Control, Stream} else {})"

lemma settled_fail_step:
  "still_open acts {} \<subseteq> {Control} \<union> (if b then {Stream} else {}) \<Longrightarrow> settled (fail_step b acts step cause)"
  using still_open_close_acts [of "still_open acts {}" b]
  by (simp add: settled_def fail_step_def still_open_append)

lemma settled_open_stream:
  assumes "still_open acts {} = {Control}"
  shows "settled (open_stream cfg d net resp tgt acts)"
  unfolding open_stream_def Let_def
  by (simp add: settled_fail_step still_open_append assms split: option.split sum.split)
    (simp add: settled_def still_open_append assms insert_commute)

lemma dial_tunnel_settled: "settled (dial_tunnel cfg ctx_deadline now net)"
  unfolding dial_tunnel_def Let_def
  by (simp add: settled_fail_step settled_open_stream split: option.split sum.split)
    (simp add: settled_def)

text \<open>C3: however the opening sequence ends, it leaks no socket: a failed dial has closed
  everything it opened, and a successful one leaves exactly the control and the stream
  connection open.\<close>

theorem dial_closes_on_failure:
  "still_open (snd (dial_tunnel cfg ctx_deadline now net)) {} =
     (if is_Inr (fst (dial_tunnel cfg ctx_deadline now net)) then {Control, Stream} else {})"
  using dial_tunnel_settled [of cfg ctx_deadline now net] by (simp add: settled_def)

subsection \<open>What a successful dial did\<close>

definition dial_trace ::
  "tunnel_config \<Rightarrow> int \<Rightarrow> app_response \<Rightarrow> string \<Rightarrow> string \<Rightarrow> net_act list" where
  "dial_trace cfg deadline resp request frame =
     [Opened Control (join_host_port (tc_control_host cfg)
        (itoa (if tc_control_port cfg = 0 then control_port_default else tc_control_port cfg))),
      Deadline Control (Some deadline), Sent Control request, LineRead Control,
      Opened Stream (join_host_port (rs_stream_host resp) (itoa relay_stream_port)),
      Deadline Stream (Some deadline), Sent Stream frame,
      Deadline Stream None, Deadline Control None]"

lemma fail_step_not_ok: "fail_step b acts step cause \<noteq> (Inr t, out)"
  by (simp add: fail_step_def)

lemma open_stream_ok:
  assumes "open_stream cfg d net resp tgt acts = (Inr t, out)"
  shows "\<exists>frame. marshal_relay_open \<lparr>ro_version = relay_open_version2,
             ro_connection = rs_connection resp, ro_target = tgt, ro_magic = tc_magic cfg,
             ro_session = tc_session cfg\<rparr> = Inr frame
       \<and> out = acts @ [Opened Stream (join_host_port (rs_stream_host resp) (itoa relay_stream_port)),
                       Deadline Stream (Some d), Sent Stream frame, Deadline Stream None,
                       Deadline Control None]
       \<and> tn_response t = resp \<and> tn_read_buf t = []
       \<and> new_encoder (tc_token cfg) (sc_random net) = Inr (tn_encoder t)
       \<and> new_decoder (tc_token cfg) = Inr (tn_decoder t)"
  using assms
  by (auto simp: open_stream_def Let_def fail_step_not_ok split: option.splits sum.splits)

lemma dial_tunnel_ok:
  assumes "dial_tunnel cfg ctx_deadline now net = (Inr t, out)"
  obtains line resp acts request where "sc_answer net = Inr line" "parse_app_response line = Inr resp"
    "rs_fields resp = 8 \<longrightarrow> rs_mode resp = connection_mode_web2"
    "marshal_app_request \<lparr>rq_magic = tc_magic cfg, rq_target = tc_target cfg,
       rq_mode = connection_mode_web2, rq_session = tc_session cfg\<rparr> = Inr request"
    "open_stream cfg (handshake_deadline ctx_deadline now (tc_handshake_timeout cfg)) net resp
       (if rs_fields resp = 8 then rs_target resp else tc_target cfg)
       [Opened Control (join_host_port (tc_control_host cfg)
          (itoa (if tc_control_port cfg = 0 then control_port_default else tc_control_port cfg))),
        Deadline Control (Some (handshake_deadline ctx_deadline now (tc_handshake_timeout cfg))),
        Sent Control request, LineRead Control] = (Inr t, out)"
  using assms
  by (auto simp: dial_tunnel_def Let_def fail_step_not_ok
      split: option.splits sum.splits if_split_asm)

lemma dial_tunnel_trace:
  assumes "dial_tunnel cfg ctx_deadline now net = (Inr t, acts)"
  obtains request frame where
    "acts = dial_trace cfg (handshake_deadline ctx_deadline now (tc_handshake_timeout cfg)) (tn_response t) request frame"
    and "new_encoder (tc_token cfg) (sc_random net) = Inr (tn_encoder t)"
    and "new_decoder (tc_token cfg) = Inr (tn_decoder t)" and "tn_read_buf t = []"
proof (rule dial_tunnel_ok [OF assms])
  fix resp request
  assume "open_stream cfg (handshake_deadline ctx_deadline now (tc_handshake_timeout cfg)) net resp
       (if rs_fields resp = 8 then rs_target resp else tc_target cfg)
       [Opened Control (join_host_port (tc_control_host cfg)
          (itoa (if tc_control_port cfg = 0 then control_port_default else tc_control_port cfg))),
        Deadline Control (Some (handshake_deadline ctx_deadline now (tc_handshake_timeout cfg))),
        Sent Control request, LineRead Control] = (Inr t, acts)"
  from open_stream_ok [OF this] show thesis
    by (elim exE conjE) (rule that; simp add: dial_trace_def)
qed

text \<open>C4: a successful dial performed exactly the opening sequence, once: the request to the
  control host, then, after an answer that accepts, one relay-open frame to the stream host of
  that answer, under one deadline that is cleared on both sockets at the end.  The relay reads
  from the frame the answer's connection number, this session's identifiers and the target
  port of the answer (of the request when the answer names none).\<close>

theorem dial_opens_session:
  assumes "dial_tunnel cfg ctx_deadline now net = (Inr t, acts)"
  shows "\<exists>line request frame. sc_answer net = Inr line
     \<and> parse_app_response line = Inr (tn_response t)
     \<and> marshal_app_request \<lparr>rq_magic = tc_magic cfg, rq_target = tc_target cfg,
          rq_mode = connection_mode_web2, rq_session = tc_session cfg\<rparr> = Inr request
     \<and> acts = dial_trace cfg (handshake_deadline ctx_deadline now (tc_handshake_timeout cfg))
          (tn_response t) request frame
     \<and> parse_relay_open frame = Inr \<lparr>ro_version = 2, ro_connection = rs_connection (tn_response t),
          ro_target = (if rs_fields (tn_response t) = 8 then rs_target (tn_response t) else tc_target cfg),
          ro_magic = tc_magic cfg, ro_session = tc_session cfg\<rparr>
     \<and> \<not> (rs_fields (tn_response t) = 8 \<and> rs_mode (tn_response t) \<noteq> 2)"
  using assms
proof (rule dial_tunnel_ok)
  fix line resp request
  assume a: "sc_answer net = Inr line" "parse_app_response line = Inr resp"
    "rs_fields resp = 8 \<longrightarrow> rs_mode resp = connection_mode_web2"
    "marshal_app_request \<lparr>rq_magic = tc_magic cfg, rq_target = tc_target cfg,
       rq_mode = connection_mode_web2, rq_session = tc_session cfg\<rparr> = Inr request"
  assume o: "open_stream cfg (handshake_deadline ctx_deadline now (tc_handshake_timeout cfg)) net resp
       (if rs_fields resp = 8 then rs_target resp else tc_target cfg)
       [Opened Control (join_host_port (tc_control_host cfg)
          (itoa (if tc_control_port cfg = 0 then control_port_default else tc_control_port cfg))),
        Deadline Control (Some (handshake_deadline ctx_deadline now (tc_handshake_timeout cfg))),
        Sent Control request, LineRead Control] = (Inr t, acts)"
  from open_stream_ok [OF o] obtain frame where f: "marshal_relay_open \<lparr>ro_version = relay_open_version2,
             ro_connection = rs_connection resp,
             ro_target = (if rs_fields resp = 8 then rs_target resp else tc_target cfg),
             ro_magic = tc_magic cfg, ro_session = tc_session cfg\<rparr> = Inr frame"
    and acts: "acts = dial_trace cfg (handshake_deadline ctx_deadline now (tc_handshake_timeout cfg))
          resp request frame"
    and t: "tn_response t = resp"
    by (auto simp: dial_trace_def)
  from f parse_relay_frame have "parse_relay_open frame = Inr \<lparr>ro_version = 2,
      ro_connection = rs_connection resp,
      ro_target = (if rs_fields resp = 8 then rs_target resp else tc_target cfg),
      ro_magic = tc_magic cfg, ro_session = tc_session cfg\<rparr>"
    by (auto simp: marshal_relay_open_iff relay_open_version2_def)
  with a acts t show ?thesis by (auto simp: connection_mode_web2_def)
qed

text \<open>A concrete session: the four-field answer, and what the two sockets saw.\<close>

definition sample_config :: tunnel_config where
  "sample_config = \<lparr>tc_control_host = ''c.example'', tc_control_port = 0, tc_magic = ''uuid'',
     tc_target = 6667, tc_session = ''sess'', tc_token = ''ab'', tc_handshake_timeout = 0\<rparr>"

definition sample_net :: dial_script where
  "sample_net = \<lparr>sc_dial_control = None, sc_control_deadline = None, sc_send_request = None,
     sc_answer = Inr (''app 7 s.example c.example'' @ [CHR 0x0A]), sc_dial_stream = None,
     sc_stream_deadline = None, sc_send_open = None, sc_clear_stream = None,
     sc_clear_control = None, sc_random = [9, 250, 7, 200]\<rparr>"

definition sample_dial :: "(dial_error + tunnel) \<times> net_act list" where
  "sample_dial = dial_tunnel sample_config None 100 sample_net"

lemma sample_dial_ok: "case sample_dial of (Inr t, _) \<Rightarrow> tn_read_buf t = []
    \<and> tn_decoder t = \<lparr>de_key = [97, 98], de_state = 0, de_bootstrap = [], de_ready = False\<rparr> | _ \<Rightarrow> False"
  by code_simp

theorem dial_opens_session_witness:
  "\<exists>t acts frame. dial_tunnel sample_config None 100 sample_net = (Inr t, acts)
     \<and> parse_relay_open frame = Inr \<lparr>ro_version = 2, ro_connection = rs_connection (tn_response t),
          ro_target = (if rs_fields (tn_response t) = 8 then rs_target (tn_response t)
                       else tc_target sample_config),
          ro_magic = tc_magic sample_config, ro_session = tc_session sample_config\<rparr>"
proof -
  obtain t acts where d: "dial_tunnel sample_config None 100 sample_net = (Inr t, acts)"
    using sample_dial_ok by (auto simp: sample_dial_def split: prod.splits sum.splits)
  from dial_opens_session [OF d] d show ?thesis by blast
qed

subsection \<open>Reading through the tunnel\<close>

fun got :: "read_result \<Rightarrow> bytes" where
  "got (GotBytes b) = b"
| "got _ = []"

fun read_many ::
  "tunnel \<Rightarrow> nat list \<Rightarrow> (bytes \<times> string option) list
     \<Rightarrow> tunnel \<times> read_result list \<times> (bytes \<times> string option) list" where
  "read_many t [] net = (t, [], net)"
| "read_many t (cap # caps) net =
     (let (t', r, net') = tunnel_read t cap net; (t'', rs, net'') = read_many t' caps net'
      in (t'', r # rs, net''))"

definition received :: "read_result list \<Rightarrow> bytes" where
  "received rs = concat (map got rs)"

lemma received_simps [simp]: "received [] = []" "received (r # rs) = got r @ received rs"
  by (simp_all add: received_def)

text \<open>The plaintext a read consumed from the network is what it returned and what it kept.\<close>

definition accounts ::
  "tunnel \<Rightarrow> (bytes \<times> string option) list \<Rightarrow> tunnel \<Rightarrow> bytes \<Rightarrow> (bytes \<times> string option) list \<Rightarrow> bool" where
  "accounts t net t' out rest \<longleftrightarrow>
     (\<exists>used p. net = used @ rest \<and> decode (tn_decoder t) (concat (map fst used)) = (tn_decoder t', p)
        \<and> out @ tn_read_buf t' = tn_read_buf t @ p)"

lemma accounts_refl: "accounts t net t [] net"
  by (auto simp: accounts_def decode_nil)

lemma accounts_trans:
  assumes "accounts t net t1 o1 net1" and "accounts t1 net1 t2 o2 net2"
  shows "accounts t net t2 (o1 @ o2) net2"
proof -
  from assms obtain u p v q where
      1: "net = u @ net1" "decode (tn_decoder t) (concat (map fst u)) = (tn_decoder t1, p)"
         "o1 @ tn_read_buf t1 = tn_read_buf t @ p"
    and 2: "net1 = v @ net2" "decode (tn_decoder t1) (concat (map fst v)) = (tn_decoder t2, q)"
         "o2 @ tn_read_buf t2 = tn_read_buf t1 @ q"
    by (auto simp: accounts_def)
  have "decode (tn_decoder t) (concat (map fst (u @ v))) = (tn_decoder t2, p @ q)"
    by (simp add: decode_append 1(2) 2(2))
  moreover have "(o1 @ o2) @ tn_read_buf t2 = tn_read_buf t @ p @ q"
    using 1(3) 2(3) by (metis append.assoc)
  ultimately show ?thesis using 1(1) 2(1) unfolding accounts_def
    by (intro exI [of _ "u @ v"] exI [of _ "p @ q"]) simp
qed

lemma accounts_step:
  "decode (tn_decoder t) raw = (dec, plain) \<Longrightarrow>
     accounts t ((raw, err) # net) (t\<lparr>tn_decoder := dec, tn_read_buf := tn_read_buf t @ plain\<rparr>) [] net"
  unfolding accounts_def by (intro exI [of _ "[(raw, err)]"] exI [of _ plain]) simp

lemma accounts_take: "accounts t net (fst (take_buffered t cap)) (got (snd (take_buffered t cap))) net"
  unfolding accounts_def by (intro exI [of _ "[]"]) (simp add: take_buffered_def decode_nil)

lemma read_stream_accounts:
  "read_stream t cap net = (t', r, rest) \<Longrightarrow> tn_read_buf t = [] \<Longrightarrow>
     accounts t net t' (got r) rest \<and> (r = StillWaiting \<longrightarrow> rest = [] \<and> tn_read_buf t' = [])"
proof (induction net arbitrary: t)
  case Nil
  then show ?case by (auto simp: accounts_refl)
next
  case (Cons step net)
  obtain raw err where step: "step = (raw, err)" by fastforce
  obtain dec plain where d: "decode (tn_decoder t) raw = (dec, plain)" by fastforce
  then have dec: "(if raw \<noteq> [] then decode (tn_decoder t) raw else (tn_decoder t, [])) = (dec, plain)"
    by (auto simp: decode_nil)
  let ?t = "t\<lparr>tn_decoder := dec, tn_read_buf := tn_read_buf t @ plain\<rparr>"
  have acc: "accounts t (step # net) ?t [] net" using accounts_step [OF d] step by simp
  note run = Cons.prems(1) [unfolded step read_stream.simps dec prod.case Let_def]
  show ?case
  proof (cases "plain = []")
    case False
    then have "t' = fst (take_buffered ?t cap)" "r = snd (take_buffered ?t cap)" "rest = net"
      using run by (auto simp: Let_def take_buffered_def)
    with accounts_trans [OF acc accounts_take] show ?thesis by (simp add: take_buffered_def)
  next
    case True
    then have eq: "?t = t\<lparr>tn_decoder := dec\<rparr>" by simp
    show ?thesis
    proof (cases err)
      case None
      with True run have "read_stream ?t cap net = (t', r, rest)" using eq by simp
      from Cons.IH [OF this] Cons.prems(2) True accounts_trans [OF acc] show ?thesis by auto
    next
      case (Some e)
      with True run have "t' = ?t" "r = GotError e" "rest = net" using eq by auto
      with acc show ?thesis by simp
    qed
  qed
qed

lemma tunnel_read_accounts:
  "tunnel_read t cap net = (t', r, rest) \<Longrightarrow>
     accounts t net t' (got r) rest \<and> (r = StillWaiting \<longrightarrow> rest = [] \<and> tn_read_buf t' = [])"
  using accounts_take [of t net cap] read_stream_accounts [of t cap net]
  by (auto simp: tunnel_read_def take_buffered_def split: if_splits)

lemma read_many_accounts:
  "read_many t caps net = (t', rs, rest) \<Longrightarrow> accounts t net t' (received rs) rest"
proof (induction caps arbitrary: t net rs)
  case Nil
  then show ?case by (auto simp: accounts_refl)
next
  case (Cons cap caps)
  obtain t1 r net1 where r: "tunnel_read t cap net = (t1, r, net1)" by (metis prod_cases3)
  obtain rs' where m: "read_many t1 caps net1 = (t', rs', rest)" "rs = r # rs'"
    using Cons.prems r by (auto simp: Let_def split: prod.splits)
  from accounts_trans [OF conjunct1 [OF tunnel_read_accounts [OF r]] Cons.IH [OF m(1)]]
  show ?case by (simp add: m(2))
qed

lemma read_many_idle:
  "tn_read_buf t = [] \<Longrightarrow> read_many t caps [] = (t', rs, rest) \<Longrightarrow> rest = [] \<and> tn_read_buf t' = []"
  by (induction caps arbitrary: rs) (auto simp: tunnel_read_def Let_def split: prod.splits)

lemma read_many_waiting:
  "read_many t caps net = (t', rs, rest) \<Longrightarrow> StillWaiting \<in> set rs \<Longrightarrow> rest = [] \<and> tn_read_buf t' = []"
proof (induction caps arbitrary: t net rs)
  case Nil
  then show ?case by simp
next
  case (Cons cap caps)
  obtain t1 r net1 where r: "tunnel_read t cap net = (t1, r, net1)" by (metis prod_cases3)
  obtain rs' where m: "read_many t1 caps net1 = (t', rs', rest)" "rs = r # rs'"
    using Cons.prems r by (auto simp: Let_def split: prod.splits)
  show ?case
  proof (cases "r = StillWaiting")
    case True
    then show ?thesis using tunnel_read_accounts [OF r] read_many_idle m(1) by auto
  next
    case False
    then show ?thesis using Cons.IH [OF m(1)] Cons.prems(2) m(2) by auto
  qed
qed

text \<open>C1: over a dialled tunnel, whatever buffer sizes the RTSP client reads with and however the
  network cuts the relay's bytes (and whatever errors it reports in between), the client
  receives a prefix of the plaintext the relay wrote, in order, and once a read finds nothing
  left it has received all of it.\<close>

theorem tunnel_delivers_plaintext:
  assumes "dial_tunnel cfg ctx_deadline now net0 = (Inr t, acts)"
    and "new_encoder (tc_token cfg) rnd = Inr e"
    and "run_encode encode e plains = (e', Inr ciphers)"
    and "concat (map fst net) = concat ciphers"
    and "read_many t caps net = (t', rs, rest)"
  shows "(\<exists>unread. concat plains = received rs @ unread) \<and>
    (StillWaiting \<in> set rs \<longrightarrow> received rs = concat plains)"
proof -
  have d: "new_decoder (tc_token cfg) = Inr (tn_decoder t)" and b: "tn_read_buf t = []"
    by (rule dial_tunnel_ok [OF assms(1)], drule open_stream_ok, blast)+
  have whole: "snd (decode (tn_decoder t) (concat (map fst net))) = concat plains"
    using token_channel.transfer [OF new_pair_in_step [OF assms(2) d] assms(3), of "[concat (map fst net)]"]
      assms(4) by (simp split: prod.splits)
  from read_many_accounts [OF assms(5)] obtain used p where
      u: "net = used @ rest" "decode (tn_decoder t) (concat (map fst used)) = (tn_decoder t', p)"
         "received rs @ tn_read_buf t' = p"
    by (auto simp: accounts_def b)
  obtain dec q where "decode (tn_decoder t') (concat (map fst rest)) = (dec, q)" by fastforce
  with whole u(1,2) have "concat plains = p @ q" by (simp add: decode_append)
  then have "concat plains = received rs @ tn_read_buf t' @ q" using u(3) by simp
  moreover have "concat plains = received rs" if "StillWaiting \<in> set rs"
    using read_many_waiting [OF assms(5) that] whole u by simp
  ultimately show ?thesis by auto
qed

theorem tunnel_delivers_plaintext_witness:
  "\<exists>t acts cs. dial_tunnel sample_config None 100 sample_net = (Inr t, acts)
     \<and> snd (run_encode encode \<lparr>en_key = [97, 98], en_state = 0, en_bootstrapped = False,
          en_random = [9, 250, 7, 200]\<rparr> [[1, 2, 3]]) = Inr cs
     \<and> (\<exists>unread. [1, 2, 3] = received (fst (snd (read_many t [2, 2] (map (\<lambda>b. ([b], None)) (concat cs))))) @ unread)"
proof -
  let ?e = "\<lparr>en_key = [97, 98], en_state = 0, en_bootstrapped = False, en_random = [9, 250, 7, 200]\<rparr>"
  obtain t acts where d: "dial_tunnel sample_config None 100 sample_net = (Inr t, acts)"
    using sample_dial_ok by (auto simp: sample_dial_def split: prod.splits sum.splits)
  have e: "new_encoder (tc_token sample_config) [9, 250, 7, 200] = Inr ?e" by code_simp
  have "is_Inr (snd (run_encode encode ?e [[1, 2, 3]]))" by code_simp
  then obtain e' cs where r: "run_encode encode ?e [[1, 2, 3]] = (e', Inr cs)"
    by (cases "run_encode encode ?e [[1, 2, 3]]") (auto simp: is_Inr_def split: sum.splits)
  obtain t' rs rest where m: "read_many t [2, 2] (map (\<lambda>b. ([b], None)) (concat cs)) = (t', rs, rest)"
    by (metis prod_cases3)
  have n: "concat (map fst (map (\<lambda>b. ([b], None)) (concat cs))) = concat cs"
    by (simp add: comp_def)
  from tunnel_delivers_plaintext [OF d e r n m] d show ?thesis
    by (simp add: r m del: run_encode.simps read_many.simps)
qed

end
