(* ===== verification/Digest.thy ===== *)
theory Digest
  imports Go_Text
begin

text \<open>
  The hash functions the program calls from Go's \<open>crypto\<close> packages: SHA-1, SHA-256 and
  HMAC-SHA-256 on byte lists, executable on 32-bit words.  Only the length of the results is
  used by proofs; the definitions compute the standard's values.
\<close>

type_synonym w32 = "32 word"

definition rotr32 :: "nat \<Rightarrow> w32 \<Rightarrow> w32" where
  "rotr32 n w = drop_bit n w OR push_bit (32 - n) w"

definition be_word :: "bytes \<Rightarrow> w32" where
  "be_word bs = foldl (\<lambda>a b. push_bit 8 a OR ucast b) 0 bs"

definition be_bytes :: "w32 \<Rightarrow> bytes" where
  "be_bytes w = [ucast (drop_bit 24 w), ucast (drop_bit 16 w), ucast (drop_bit 8 w), ucast w]"

definition be_length :: "nat \<Rightarrow> bytes" where
  "be_length n = map (\<lambda>i. ucast (drop_bit i (of_nat n :: 64 word))) [56, 48, 40, 32, 24, 16, 8, 0]"

definition pad_message :: "bytes \<Rightarrow> bytes" where
  "pad_message m = m @ [0x80] @ replicate ((119 - length m mod 64) mod 64) 0 @ be_length (8 * length m)"

fun blocks :: "nat \<Rightarrow> bytes \<Rightarrow> bytes list" where
  "blocks 0 m = []"
| "blocks (Suc n) m = take 64 m # blocks n (drop 64 m)"

fun words16 :: "nat \<Rightarrow> bytes \<Rightarrow> w32 list" where
  "words16 0 b = []"
| "words16 (Suc n) b = be_word (take 4 b) # words16 n (drop 4 b)"

subsection \<open>SHA-256\<close>

text \<open>The 64 round constants of the standard, in decimal.\<close>

definition sha256_k :: "w32 list" where
  "sha256_k = [
    1116352408, 1899447441, 3049323471, 3921009573, 961987163, 1508970993, 2453635748, 2870763221,
    3624381080, 310598401, 607225278, 1426881987, 1925078388, 2162078206, 2614888103, 3248222580,
    3835390401, 4022224774, 264347078, 604807628, 770255983, 1249150122, 1555081692, 1996064986,
    2554220882, 2821834349, 2952996808, 3210313671, 3336571891, 3584528711, 113926993, 338241895,
    666307205, 773529912, 1294757372, 1396182291, 1695183700, 1986661051, 2177026350, 2456956037,
    2730485921, 2820302411, 3259730800, 3345764771, 3516065817, 3600352804, 4094571909, 275423344,
    430227734, 506948616, 659060556, 883997877, 958139571, 1322822218, 1537002063, 1747873779,
    1955562222, 2024104815, 2227730452, 2361852424, 2428436474, 2756734187, 3204031479, 3329325298]"

fun sha256_schedule :: "nat \<Rightarrow> w32 list \<Rightarrow> w32 list" where
  "sha256_schedule 0 ws = ws"
| "sha256_schedule (Suc n) ws =
     (let t = length ws; a = ws ! (t - 15); b = ws ! (t - 2);
          s0 = rotr32 7 a XOR rotr32 18 a XOR drop_bit 3 a;
          s1 = rotr32 17 b XOR rotr32 19 b XOR drop_bit 10 b
      in sha256_schedule n (ws @ [ws ! (t - 16) + s0 + ws ! (t - 7) + s1]))"

type_synonym state8 = "w32 \<times> w32 \<times> w32 \<times> w32 \<times> w32 \<times> w32 \<times> w32 \<times> w32"

fun sha256_round :: "state8 \<Rightarrow> w32 \<times> w32 \<Rightarrow> state8" where
  "sha256_round (a, b, c, d, e, f, g, h) (k, w) =
     (let s1 = rotr32 6 e XOR rotr32 11 e XOR rotr32 25 e;
          ch = (e AND f) XOR (NOT e AND g);
          t1 = h + s1 + ch + k + w;
          s0 = rotr32 2 a XOR rotr32 13 a XOR rotr32 22 a;
          maj = (a AND b) XOR (a AND c) XOR (b AND c)
      in (t1 + (s0 + maj), a, b, c, d + t1, e, f, g))"

fun add8 :: "state8 \<Rightarrow> state8 \<Rightarrow> state8" where
  "add8 (a, b, c, d, e, f, g, h) (a', b', c', d', e', f', g', h') =
     (a + a', b + b', c + c', d + d', e + e', f + f', g + g', h + h')"

definition sha256_block :: "state8 \<Rightarrow> bytes \<Rightarrow> state8" where
  "sha256_block s b =
     add8 s (foldl sha256_round s (zip sha256_k (sha256_schedule 48 (words16 16 b))))"

fun out8 :: "state8 \<Rightarrow> bytes" where
  "out8 (a, b, c, d, e, f, g, h) =
     be_bytes a @ be_bytes b @ be_bytes c @ be_bytes d @ be_bytes e @ be_bytes f @ be_bytes g @ be_bytes h"

definition sha256 :: "bytes \<Rightarrow> bytes" where
  "sha256 m = (let p = pad_message m in
     out8 (foldl sha256_block
       (1779033703, 3144134277, 1013904242, 2773480762, 1359893119, 2600822924, 528734635, 1541459225)
       (blocks (length p div 64) p)))"

text \<open>For keys of at most one block, which is the only way the program calls it.\<close>

definition hmac_sha256 :: "bytes \<Rightarrow> bytes \<Rightarrow> bytes" where
  "hmac_sha256 key m =
     (let k0 = (if 64 < length key then sha256 key else key);
          k = k0 @ replicate (64 - length k0) 0
      in sha256 (map (\<lambda>b. b XOR 0x5c) k @ sha256 (map (\<lambda>b. b XOR 0x36) k @ m)))"

lemma length_out8 [simp]: "length (out8 s) = 32"
  by (cases s rule: out8.cases) (simp add: be_bytes_def)

lemma length_sha256 [simp]: "length (sha256 m) = 32"
  unfolding sha256_def Let_def by (rule length_out8)

lemma length_hmac_sha256 [simp]: "length (hmac_sha256 key m) = 32"
  by (simp add: hmac_sha256_def Let_def)

subsection \<open>SHA-1\<close>

definition rotl32 :: "nat \<Rightarrow> w32 \<Rightarrow> w32" where
  "rotl32 n w = rotr32 (32 - n) w"

fun sha1_schedule :: "nat \<Rightarrow> w32 list \<Rightarrow> w32 list" where
  "sha1_schedule 0 ws = ws"
| "sha1_schedule (Suc n) ws =
     (let t = length ws
      in sha1_schedule n (ws @ [rotl32 1 (ws ! (t - 3) XOR ws ! (t - 8) XOR ws ! (t - 14) XOR ws ! (t - 16))]))"

type_synonym state5 = "w32 \<times> w32 \<times> w32 \<times> w32 \<times> w32"

fun sha1_round :: "state5 \<Rightarrow> nat \<times> w32 \<Rightarrow> state5" where
  "sha1_round (a, b, c, d, e) (t, w) =
     (let (f, k) = (if t < 20 then ((b AND c) OR (NOT b AND d), 1518500249)
                    else if t < 40 then (b XOR c XOR d, 1859775393)
                    else if t < 60 then ((b AND c) OR (b AND d) OR (c AND d), 2400959708)
                    else (b XOR c XOR d, 3395469782))
      in (rotl32 5 a + f + e + k + w, a, rotl32 30 b, c, d))"

fun add5 :: "state5 \<Rightarrow> state5 \<Rightarrow> state5" where
  "add5 (a, b, c, d, e) (a', b', c', d', e') = (a + a', b + b', c + c', d + d', e + e')"

definition sha1_block :: "state5 \<Rightarrow> bytes \<Rightarrow> state5" where
  "sha1_block s b =
     add5 s (foldl sha1_round s (zip [0..<80] (sha1_schedule 64 (words16 16 b))))"

fun out5 :: "state5 \<Rightarrow> bytes" where
  "out5 (a, b, c, d, e) = be_bytes a @ be_bytes b @ be_bytes c @ be_bytes d @ be_bytes e"

definition sha1 :: "bytes \<Rightarrow> bytes" where
  "sha1 m = (let p = pad_message m in
     out5 (foldl sha1_block (1732584193, 4023233417, 2562383102, 271733878, 3285377520)
       (blocks (length p div 64) p)))"

lemma length_out5 [simp]: "length (out5 s) = 20"
  by (cases s rule: out5.cases) (simp add: be_bytes_def)

lemma length_sha1 [simp]: "length (sha1 m) = 20"
  unfolding sha1_def Let_def by (rule length_out5)

end
