(* ===== verification/Identity.thy ===== *)
theory Identity
  imports Digest Relay_Open
begin

text \<open>
  The magic UUID of a camera (internal/magic/identity.go): the keyed hash of the SID under a
  seed built from the device id, the SID and the token, printed behind the device id and the
  first three bytes of each.
\<close>

datatype identity_error = InputShort string | InputChars string | SeedShort

definition validate_derivation_input :: "string \<Rightarrow> string \<Rightarrow> identity_error + unit" where
  "validate_derivation_input name value =
     (if length value < 3 then Inl (InputShort name)
      else if \<exists>b \<in> set value. \<not> printable b then Inl (InputChars name)
      else Inr ())"

definition uuid_seed :: "32 word \<Rightarrow> string \<Rightarrow> string \<Rightarrow> string" where
  "uuid_seed device_id sid token =
     hex_digits 8 (unat device_id) @ pad_right 20 sid @ pad_right 27 token @ pad_right 20 sid"

definition generate_magic_uuid :: "32 word \<Rightarrow> string \<Rightarrow> string \<Rightarrow> identity_error + string" where
  "generate_magic_uuid device_id sid token =
     bind_sum (validate_derivation_input ''SID'' sid) (\<lambda>_.
     bind_sum (validate_derivation_input ''device token'' token) (\<lambda>_.
       let seed = uuid_seed device_id sid token
       in if length seed < 32 then Inl SeedShort
          else let digest = hmac_sha256 (map of_char (take 32 seed)) (map of_char sid)
               in Inr (to_lower (hex_digits 8 (unat device_id) @ take 3 sid @ take 3 token
                       @ hex_encode digest))))"

definition derivation_input_ok :: "string \<Rightarrow> bool" where
  "derivation_input_ok s \<longleftrightarrow> 3 \<le> length s \<and> list_all printable s"

lemma validate_derivation_input_iff:
  "validate_derivation_input name v = Inr u \<longleftrightarrow> derivation_input_ok v"
  by (auto simp: validate_derivation_input_def derivation_input_ok_def list_all_iff)

lemma uuid_seed_length: "75 \<le> length (uuid_seed device_id sid token)"
  by (simp add: uuid_seed_def pad_right_def)

lemma lower_printable: "printable c \<Longrightarrow> printable (lower c)"
  by (auto simp: printable_def lower_def)

lemma to_lower_printable: "list_all printable s \<Longrightarrow> list_all printable (to_lower s)"
  by (auto simp: to_lower_def list_all_iff lower_printable)

lemma hex_char_printable: "hex_char c \<Longrightarrow> printable c"
  by (auto simp: hex_char_def printable_def is_digit_def)

lemma hex_printable: "list_all hex_char s \<Longrightarrow> list_all printable s"
  by (auto simp: list_all_iff hex_char_printable)

lemma printable_take: "list_all printable s \<Longrightarrow> list_all printable (take n s)"
  by (auto simp: list_all_iff dest: in_set_takeD)

lemma lower_idem: "lower (lower c) = lower c"
  by (auto simp: lower_def)

lemma magic_uuid_cases:
  "case generate_magic_uuid device_id sid token of
     Inl _ \<Rightarrow> \<not> (derivation_input_ok sid \<and> derivation_input_ok token)
   | Inr u \<Rightarrow> derivation_input_ok sid \<and> derivation_input_ok token
       \<and> length u = 78 \<and> to_lower u = u \<and> ident_ok 999 u"
proof -
  have nl: "\<not> length (uuid_seed device_id sid token) < 32"
    using uuid_seed_length [of device_id sid token] by simp
  have succ: "is_Inr (generate_magic_uuid device_id sid token) \<longleftrightarrow>
      derivation_input_ok sid \<and> derivation_input_ok token"
    by (auto simp: generate_magic_uuid_def is_Inr_def bind_sum_def validate_derivation_input_def
        derivation_input_ok_def Let_def nl list_all_iff split: sum.splits if_splits)
  moreover have "length u = 78 \<and> to_lower u = u \<and> ident_ok 999 u"
    if "generate_magic_uuid device_id sid token = Inr u" for u
  proof -
    let ?raw = "hex_digits 8 (unat device_id) @ take 3 sid @ take 3 token @
      hex_encode (hmac_sha256 (map of_char (take 32 (uuid_seed device_id sid token))) (map of_char sid))"
    from that have ok: "derivation_input_ok sid" "derivation_input_ok token" and u: "u = to_lower ?raw"
      by (auto simp: generate_magic_uuid_def bind_sum_Inr_iff validate_derivation_input_iff nl Let_def)
    have len: "length ?raw = 78"
      using ok by (simp add: derivation_input_ok_def length_hex_encode)
    have "list_all printable ?raw"
      using ok by (simp add: derivation_input_ok_def printable_take hex_printable hex_digits_chars
          hex_encode_chars)
    then have "list_all printable u" by (simp only: u to_lower_printable)
    moreover have "length u = 78" using len by (simp only: u) (simp add: to_lower_def)
    moreover have "to_lower u = u" by (simp add: u to_lower_def lower_idem)
    ultimately show ?thesis by (auto simp: ident_ok_def)
  qed
  ultimately show ?thesis by (cases "generate_magic_uuid device_id sid token") auto
qed

lemma generate_magic_uuid_ok:
  "generate_magic_uuid device_id sid token = Inr u \<Longrightarrow> length u = 78 \<and> ident_ok 999 u"
  using magic_uuid_cases [where device_id = device_id and sid = sid and token = token] by simp

text \<open>The derivation succeeds exactly for a SID and a token of at least three printable
  bytes, and then gives 78 printable lower-case bytes, the identifier the relay-open frame
  and the discovery request accept.\<close>

theorem magic_uuid_shape:
  "case generate_magic_uuid device_id sid token of
     Inl _ \<Rightarrow> \<not> (derivation_input_ok sid \<and> derivation_input_ok token)
   | Inr u \<Rightarrow> derivation_input_ok sid \<and> derivation_input_ok token
       \<and> length u = 78 \<and> to_lower u = u \<and> ident_ok 999 u"
  by (rule magic_uuid_cases)

end
