(* ===== verification/Tunnel_Check.thy ===== *)
theory Tunnel_Check
  imports Tunnel Identity
begin

text \<open>
  \<open>research/cmd/tunnelcheck\<close>: the command that tries the whole relay chain once with the
  credentials of a file.  It derives the UUID, dials a tunnel, and either waits for the relay to
  send anything (\<open>-readonly\<close>) or writes one RTSP OPTIONS request and prints the first bytes of
  the answer.  It is the smallest program that puts \<open>Identity\<close> and \<open>Tunnel\<close> together.

  What the outside gives is a \<open>check_world\<close>: the file and its JSON text, the random bytes of
  the session name, the clock, the network of the dial, and the socket afterwards.  The result is
  the outcome, the lines printed, what was done to the network, and the bytes written to the
  stream after the dial.  A read that finds nothing before its deadline fails with a timeout.
\<close>

section \<open>The program\<close>

record check_creds =
  kc_device :: "32 word"
  kc_sid :: string
  kc_token :: string
  kc_host :: string
  kc_target :: int

record check_world =
  kw_file :: "string + string"
  kw_parse :: "string \<Rightarrow> string + check_creds"
  kw_random :: bytes
  kw_now :: int
  kw_dial :: dial_script
  kw_send :: "string option"
  kw_socket :: "(bytes \<times> string option) list"

record check_options =
  ko_timeout :: int
  ko_readonly :: bool
  ko_predelay :: int

datatype check_outcome =
    NoCredsFile string
  | BadCreds string
  | NoUuid identity_error
  | NoTunnel dial_error
  | ReadonlyFault string
  | WriteFault write_error
  | ReadFault string
  | HeldOpen
  | Answered

datatype check_line =
    HostLine string int
  | DeviceLine "32 word"
  | UuidLine nat
  | SessionLine string
  | TargetLine int
  | ResponseLine app_response
  | RelayLine string int
  | HeldLine nat
  | DelayLine int
  | AnswerLine bytes

text \<open>A random UUID of version 4, printed in its five groups.\<close>

definition check_session_name :: "bytes \<Rightarrow> string" where
  "check_session_name bs =
     (let b = bs[6 := (bs ! 6 AND 0x0f) OR 0x40, 8 := (bs ! 8 AND 0x3f) OR 0x80]
      in hex_encode (take 4 b) @ ''-'' @ hex_encode (take 2 (drop 4 b)) @ ''-''
         @ hex_encode (take 2 (drop 6 b)) @ ''-'' @ hex_encode (take 2 (drop 8 b)) @ ''-''
         @ hex_encode (take 6 (drop 10 b)))"

definition options_request :: "string \<Rightarrow> string" where
  "options_request host =
     ''OPTIONS rtsp://'' @ host @ ''/owner/streaming RTSP/1.0'' @ [CHR 0x0D, CHR 0x0A]
     @ ''CSeq: 1'' @ [CHR 0x0D, CHR 0x0A] @ ''User-Agent: tunnelcheck'' @ [CHR 0x0D, CHR 0x0A, CHR 0x0D, CHR 0x0A]"

definition default_target :: "check_creds \<Rightarrow> check_creds" where
  "default_target c = (if kc_target c = 0 then c\<lparr>kc_target := 6667\<rparr> else c)"

definition check_config :: "check_creds \<Rightarrow> string \<Rightarrow> string \<Rightarrow> tunnel_config" where
  "check_config c uuid name =
     \<lparr>tc_control_host = kc_host c, tc_control_port = 0, tc_magic = uuid, tc_target = kc_target c,
      tc_session = name, tc_token = kc_token c, tc_handshake_timeout = 0\<rparr>"

text \<open>A read with a deadline: nothing before it is a timeout.\<close>

definition read_by_deadline ::
  "tunnel \<Rightarrow> nat \<Rightarrow> (bytes \<times> string option) list \<Rightarrow> string + bytes" where
  "read_by_deadline t cap net =
     (case tunnel_read t cap net of
        (_, GotBytes b, _) \<Rightarrow> Inr b
      | (_, GotError e, _) \<Rightarrow> Inl e
      | (_, StillWaiting, _) \<Rightarrow> Inl ''i/o timeout'')"

text \<open>What happens over the open tunnel: the outcome, the lines, and the bytes written.\<close>

definition use_tunnel ::
  "check_options \<Rightarrow> check_world \<Rightarrow> string \<Rightarrow> tunnel \<Rightarrow> check_outcome \<times> check_line list \<times> bytes" where
  "use_tunnel opts w host t =
     (if ko_readonly opts then
        (case read_by_deadline t 4096 (kw_socket w) of
           Inl e \<Rightarrow> (ReadonlyFault e, [], [])
         | Inr b \<Rightarrow> (HeldOpen, [HeldLine (length b)], []))
      else
        (let delay = (if 0 < ko_predelay opts then [DelayLine (ko_predelay opts)] else [])
         in case tunnel_write t (map of_char (options_request host)) (kw_send w) of
              (_, cipher, Inl e) \<Rightarrow> (WriteFault e, delay, cipher)
            | (t', cipher, Inr _) \<Rightarrow>
                (case read_by_deadline t' 4096 (kw_socket w) of
                   Inl e \<Rightarrow> (ReadFault e, delay, cipher)
                 | Inr b \<Rightarrow> (Answered, delay @ [AnswerLine b], cipher))))"

definition check_chain ::
  "check_options \<Rightarrow> check_world \<Rightarrow> check_creds \<Rightarrow> check_outcome \<times> check_line list \<times> net_act list \<times> bytes" where
  "check_chain opts w c =
     (case generate_magic_uuid (kc_device c) (kc_sid c) (kc_token c) of
        Inl e \<Rightarrow> (NoUuid e, [], [], [])
      | Inr uuid \<Rightarrow>
          (let name = check_session_name (kw_random w);
               intro = [HostLine (kc_host c) control_port_default, DeviceLine (kc_device c),
                        UuidLine (length uuid), SessionLine name, TargetLine (kc_target c)]
           in case dial_tunnel (check_config c uuid name) (Some (kw_now w + ko_timeout opts))
                     (kw_now w) (kw_dial w) of
                (Inl e, acts) \<Rightarrow> (NoTunnel e, intro, acts, [])
              | (Inr t, acts) \<Rightarrow>
                  (case use_tunnel opts w (kc_host c) t of
                     (r, printed, cipher) \<Rightarrow>
                       (r, intro @ [ResponseLine (tn_response t), RelayLine (rs_stream_host (tn_response t)) relay_stream_port]
                             @ printed, acts @ close_acts True, cipher))))"

definition run_check ::
  "check_options \<Rightarrow> check_world \<Rightarrow> check_outcome \<times> check_line list \<times> net_act list \<times> bytes" where
  "run_check opts w =
     (case kw_file w of
        Inl e \<Rightarrow> (NoCredsFile e, [], [], [])
      | Inr raw \<Rightarrow>
          (case kw_parse w raw of
             Inl e \<Rightarrow> (BadCreds e, [], [], [])
           | Inr c \<Rightarrow> check_chain opts w (default_target c)))"

definition check_exit :: "check_outcome \<Rightarrow> nat" where
  "check_exit r = (if r \<in> {HeldOpen, Answered} then 0 else 1)"

section \<open>What a run shows\<close>

lemma read_stream_got:
  "read_stream t cap net = (t', GotBytes b, rest) \<Longrightarrow> 0 < cap \<Longrightarrow> tn_read_buf t = [] \<Longrightarrow> b \<noteq> [] \<and> length b \<le> cap"
proof (induction net arbitrary: t)
  case Nil
  then show ?case by simp
next
  case (Cons step net)
  obtain raw err where step: "step = (raw, err)" by fastforce
  obtain dec plain where d: "(if raw \<noteq> [] then decode (tn_decoder t) raw else (tn_decoder t, [])) = (dec, plain)"
    by fastforce
  note run = Cons.prems(1) [unfolded step read_stream.simps d prod.case Let_def]
  show ?case
  proof (cases "plain = []")
    case True
    with run Cons.IH [of "t\<lparr>tn_decoder := dec\<rparr>"] Cons.prems(2,3) show ?thesis by (cases err) auto
  next
    case False
    with run Cons.prems(2,3) show ?thesis by (auto simp: take_buffered_def)
  qed
qed

lemma read_by_deadline_got:
  assumes "read_by_deadline t 4096 net = Inr b" and "tn_read_buf t = []"
  shows "b \<noteq> [] \<and> length b \<le> 4096 \<and> (\<exists>unread. snd (decode (tn_decoder t) (concat (map fst net))) = b @ unread)"
proof -
  obtain t' rest where r: "tunnel_read t 4096 net = (t', GotBytes b, rest)"
    using assms(1) by (auto simp: read_by_deadline_def split: prod.splits read_result.splits)
  have "b \<noteq> [] \<and> length b \<le> 4096"
    using read_stream_got [of t 4096 net t' b rest] r assms(2) by (simp add: tunnel_read_def)
  moreover obtain used p where u: "net = used @ rest" "decode (tn_decoder t) (concat (map fst used)) = (tn_decoder t', p)"
      "b @ tn_read_buf t' = p"
    using tunnel_read_accounts [OF r] assms(2) by (auto simp: accounts_def)
  obtain d q where "decode (tn_decoder t') (concat (map fst rest)) = (d, q)" by fastforce
  then have "snd (decode (tn_decoder t) (concat (map fst net))) = b @ tn_read_buf t' @ q"
    using u by (auto simp: decode_append)
  ultimately show ?thesis by blast
qed

text \<open>Whatever happens, no socket outlives the command, and what it prints of its credentials is
  the host, the device and the port: the SID and the token appear in no line of its own, the
  derived UUID only by its length.\<close>

definition public_lines :: "check_creds \<Rightarrow> string \<Rightarrow> check_line list" where
  "public_lines c name = [HostLine (kc_host c) 8800, DeviceLine (kc_device c), UuidLine 78, SessionLine name, TargetLine (kc_target c)]"

fun of_the_relay :: "check_line \<Rightarrow> bool" where
  "of_the_relay (ResponseLine _) = True"
| "of_the_relay (RelayLine _ _) = True"
| "of_the_relay (HeldLine _) = True"
| "of_the_relay (DelayLine _) = True"
| "of_the_relay (AnswerLine _) = True"
| "of_the_relay _ = False"

lemma use_tunnel_lines: "use_tunnel opts w host t = (r, printed, cipher) \<Longrightarrow> list_all of_the_relay printed"
  by (auto simp: use_tunnel_def Let_def split: if_splits sum.splits prod.splits)

lemma check_chain_clean:
  assumes "check_chain opts w c = (r, printed, acts, cipher)"
  shows "still_open acts {} = {} \<and>
    (printed = [] \<or> (\<exists>more. printed = public_lines c (check_session_name (kw_random w)) @ more \<and> list_all of_the_relay more))"
proof (cases "generate_magic_uuid (kc_device c) (kc_sid c) (kc_token c)")
  case (Inl e)
  with assms show ?thesis by (simp add: check_chain_def)
next
  case (Inr uuid)
  then have len: "length uuid = 78" using generate_magic_uuid_ok by blast
  let ?name = "check_session_name (kw_random w)"
  let ?dial = "dial_tunnel (check_config c uuid ?name) (Some (kw_now w + ko_timeout opts)) (kw_now w) (kw_dial w)"
  obtain d dacts where dial: "?dial = (d, dacts)" by fastforce
  then have open_set: "still_open dacts {} = (if is_Inr d then {Control, Stream} else {})"
    using dial_tunnel_settled [of "check_config c uuid ?name" "Some (kw_now w + ko_timeout opts)" "kw_now w" "kw_dial w"]
    by (simp add: settled_def)
  show ?thesis
  proof (cases d)
    case (Inl e)
    with assms Inr dial open_set len show ?thesis
      by (auto simp: check_chain_def Let_def public_lines_def control_port_default_def)
  next
    case (Inr t)
    obtain r' lines c' where "use_tunnel opts w (kc_host c) t = (r', lines, c')" by (metis prod_cases3)
    with assms \<open>generate_magic_uuid _ _ _ = _\<close> dial Inr open_set len show ?thesis
      using use_tunnel_lines [of opts w "kc_host c" t r' lines c']
      by (auto simp: check_chain_def Let_def public_lines_def control_port_default_def
          still_open_append still_open_close_acts)
  qed
qed

theorem check_leaves_no_trace:
  "case run_check opts w of (r, printed, acts, cipher) \<Rightarrow>
     still_open acts {} = {} \<and>
     (case (kw_file w, kw_parse w (projr (kw_file w))) of
        (Inr raw, Inr c) \<Rightarrow> printed = [] \<or> (\<exists>more.
           printed = public_lines (default_target c) (check_session_name (kw_random w)) @ more
           \<and> list_all of_the_relay more)
      | _ \<Rightarrow> printed = [] \<and> acts = [] \<and> cipher = [])"
proof (cases "kw_file w")
  case (Inl e)
  then show ?thesis by (simp add: run_check_def)
next
  case (Inr raw)
  show ?thesis
  proof (cases "kw_parse w raw")
    case (Inl e)
    with Inr show ?thesis by (simp add: run_check_def)
  next
    case (Inr c)
    obtain r printed acts cipher where "check_chain opts w (default_target c) = (r, printed, acts, cipher)"
      by (metis prod_cases4)
    with check_chain_clean [OF this] Inr \<open>kw_file w = Inr raw\<close> show ?thesis
      by (simp add: run_check_def)
  qed
qed

text \<open>A run that reports success has shown what it says: the relay opened a session for the
  derived UUID on the file's target port (6667 when the file has none), the camera's side of the
  tunnel decodes exactly the OPTIONS request, and the bytes printed are the beginning of what the
  relay's bytes decode to.\<close>

theorem check_success_is_real:
  assumes "kw_file w = Inr raw" and "kw_parse w raw = Inr c" and "kc_target c \<noteq> 0"
    and "run_check opts w = (Answered, printed, acts, cipher)"
  shows "\<exists>uuid (t :: tunnel) d b request frame. generate_magic_uuid (kc_device c) (kc_sid c) (kc_token c) = Inr uuid
    \<and> acts = dial_trace (check_config c uuid (check_session_name (kw_random w))) (kw_now w + ko_timeout opts)
          (tn_response t) request frame @ close_acts True
    \<and> new_decoder (kc_token c) = Inr d
    \<and> snd (decode d cipher) = map of_char (options_request (kc_host c))
    \<and> last printed = AnswerLine b \<and> b \<noteq> []
    \<and> (\<exists>unread. snd (decode d (concat (map fst (kw_socket w)))) = b @ unread)"
proof -
  let ?name = "check_session_name (kw_random w)"
  have chain: "check_chain opts w c = (Answered, printed, acts, cipher)"
    using assms by (simp add: run_check_def default_target_def)
  then obtain uuid t dacts lines where u: "generate_magic_uuid (kc_device c) (kc_sid c) (kc_token c) = Inr uuid"
    and dial: "dial_tunnel (check_config c uuid ?name) (Some (kw_now w + ko_timeout opts)) (kw_now w) (kw_dial w) = (Inr t, dacts)"
    and tail: "use_tunnel opts w (kc_host c) t = (Answered, lines, cipher)"
    and acts: "acts = dacts @ close_acts True" and printed: "\<exists>before. printed = before @ lines"
    by (auto simp: check_chain_def Let_def split: sum.splits prod.splits)
  obtain request frame where trace: "dacts = dial_trace (check_config c uuid ?name) (kw_now w + ko_timeout opts)
        (tn_response t) request frame"
    and ends: "new_encoder (kc_token c) (sc_random (kw_dial w)) = Inr (tn_encoder t)"
      "new_decoder (kc_token c) = Inr (tn_decoder t)" "tn_read_buf t = []"
    by (rule dial_tunnel_trace [OF dial]) (rule that; simp add: check_config_def handshake_deadline_def)
  obtain enc b before where sent: "encode (tn_encoder t) (map of_char (options_request (kc_host c))) = (enc, Inr cipher)"
    and got: "read_by_deadline (t\<lparr>tn_encoder := enc\<rparr>) 4096 (kw_socket w) = Inr b"
    and lines: "lines = before @ [AnswerLine b]"
    using tail by (auto simp: use_tunnel_def tunnel_write_def Let_def split: if_splits sum.splits prod.splits option.splits)
  have "snd (decode (tn_decoder t) cipher) = map of_char (options_request (kc_host c))"
    using encode_in_step [OF new_pair_in_step [OF ends(1,2)] sent] by auto
  moreover have "last printed = AnswerLine b" using printed lines by auto
  moreover have "b \<noteq> [] \<and> (\<exists>unread. snd (decode (tn_decoder t) (concat (map fst (kw_socket w)))) = b @ unread)"
    using read_by_deadline_got [OF got] ends(3) by simp
  ultimately show ?thesis using u acts [unfolded trace] ends(2) by blast
qed

end
