(* ===== verification/Go_Http.thy ===== *)
theory Go_Http
  imports Go_Net
begin

text \<open>
  The parts of Go's \<open>path\<close>, \<open>net/url\<close> and \<open>net/http\<close> packages the HTTP side of the
  program uses: \<open>path.Clean\<close>, query strings in both directions and header fields.  Library
  functions, written out as the Go distribution has them; the lemmas are shared by the
  components that call them.

  \<open>clean_loop\<close> is the two-index loop of \<open>path.Clean\<close>: the input still to read, and the output
  written so far in reverse.  It is a \<open>partial_function\<close>, so that its returning is a theorem and
  not a precondition of the definition.
\<close>

subsection \<open>path.Clean\<close>

definition slash :: char where "slash = CHR ''/''"

definition ends_elem :: "string \<Rightarrow> bool" where
  "ends_elem s \<longleftrightarrow> s = [] \<or> hd s = slash"

text \<open>Backing up over the last element: drop at least one byte, and on to the slash before it,
  never below \<open>dotdot\<close> bytes.\<close>

fun back_up :: "nat \<Rightarrow> string \<Rightarrow> string" where
  "back_up dotdot [] = []"
| "back_up dotdot (c # out) =
     (if length out > dotdot \<and> c \<noteq> slash then back_up dotdot out else out)"

partial_function (option) clean_loop :: "bool \<Rightarrow> nat \<Rightarrow> string \<Rightarrow> string \<Rightarrow> string option" where
  "clean_loop rooted dotdot s out =
     (if s = [] then Some (if out = [] then ''.'' else rev out)
      else if hd s = slash then clean_loop rooted dotdot (tl s) out
      else if hd s = CHR ''.'' \<and> ends_elem (tl s) then clean_loop rooted dotdot (tl s) out
      else if take 2 s = ''..'' \<and> ends_elem (drop 2 s) then
        (if length out > dotdot then clean_loop rooted dotdot (drop 2 s) (back_up dotdot out)
         else if \<not> rooted then
           (let out' = CHR ''.'' # CHR ''.'' # (if out = [] then [] else slash # out)
            in clean_loop rooted (length out') (drop 2 s) out')
         else clean_loop rooted dotdot (drop 2 s) out)
      else
        (let out' = (if rooted \<and> length out \<noteq> 1 \<or> \<not> rooted \<and> out \<noteq> [] then slash # out else out)
         in clean_loop rooted dotdot (dropWhile (\<lambda>c. c \<noteq> slash) s)
              (rev (takeWhile (\<lambda>c. c \<noteq> slash) s) @ out')))"

definition path_clean :: "string \<Rightarrow> string option" where
  "path_clean p =
     (if p = [] then Some ''.''
      else if hd p = slash then clean_loop True 1 (tl p) [slash]
      else clean_loop False 0 p [])"

text \<open>The reference: a stack of path elements.\<close>

fun resolve :: "string list \<Rightarrow> string list \<Rightarrow> string list" where
  "resolve st [] = rev st"
| "resolve st (e # es) =
     (if e = [] \<or> e = ''.'' then resolve st es
      else if e = ''..'' then resolve (drop 1 st) es
      else resolve (e # st) es)"

definition path_elems :: "string \<Rightarrow> string list" where
  "path_elems p = resolve [] (split_at slash p)"

fun join_slash :: "string list \<Rightarrow> string" where
  "join_slash [] = []"
| "join_slash (e # es) = slash # e @ join_slash es"

definition plain_elem :: "string \<Rightarrow> bool" where
  "plain_elem e \<longleftrightarrow> e \<noteq> [] \<and> e \<noteq> ''.'' \<and> e \<noteq> ''..'' \<and> slash \<notin> set e"

text \<open>The loop's output for a stack of elements (last element first): the leading slash alone,
  or every element after a slash.\<close>

definition out_of :: "string list \<Rightarrow> string" where
  "out_of st = (if st = [] then [slash] else rev (join_slash (rev st)))"

lemma join_slash_append: "join_slash (xs @ ys) = join_slash xs @ join_slash ys"
  by (induction xs) auto

lemma back_up_plain:
  "slash \<notin> set e \<Longrightarrow> back_up 1 (rev e @ slash # rest) = (if rest = [] \<and> e \<noteq> [] then [slash] else rest)"
proof (induction e rule: rev_induct)
  case Nil
  then show ?case by auto
next
  case (snoc c e)
  then show ?case by (cases e rule: rev_cases) auto
qed

lemma out_of_Cons: "st \<noteq> [] \<Longrightarrow> out_of (e # st) = rev e @ slash # out_of st"
  by (simp add: out_of_def join_slash_append)

lemma out_of_single: "out_of [e] = rev e @ [slash]"
  by (simp add: out_of_def)

lemma length_out_of: "list_all plain_elem st \<Longrightarrow> st \<noteq> [] \<Longrightarrow> length (out_of st) > 1"
  by (cases st; cases "tl st = []") (auto simp: out_of_def join_slash_append plain_elem_def)

lemma length_out_of_eq_1: "list_all plain_elem st \<Longrightarrow> length (out_of st) = 1 \<longleftrightarrow> st = []"
  using length_out_of [of st] by (auto simp: out_of_def)

lemma back_up_out_of:
  assumes "list_all plain_elem st" and "st \<noteq> []"
  shows "back_up 1 (out_of st) = out_of (tl st)"
proof -
  obtain e es where st: "st = e # es" using assms(2) by (cases st) auto
  then have e: "e \<noteq> []" "slash \<notin> set e" using assms(1) by (auto simp: plain_elem_def)
  show ?thesis
  proof (cases "es = []")
    case True
    then show ?thesis using e st back_up_plain [of e "[]"] by (simp add: out_of_single) (simp add: out_of_def)
  next
    case False
    moreover have "out_of es \<noteq> []" using False by (simp add: out_of_def) (cases es rule: rev_cases, auto)
    ultimately show ?thesis using e st back_up_plain [of e "out_of es"] by (simp add: out_of_Cons)
  qed
qed

lemma resolve_split_elem:
  assumes "slash \<notin> set e" and "ends_elem rest"
  shows "resolve st (split_at slash (e @ rest)) = resolve st (e # split_at slash rest)"
proof (cases rest)
  case Nil
  then show ?thesis using assms(1) by (simp add: split_at_plain)
next
  case (Cons c r)
  then have "c = slash" using assms(2) by (simp add: ends_elem_def)
  then show ?thesis using assms(1) Cons by (simp add: split_at_append)
qed

lemma ends_elem_dropWhile: "ends_elem (dropWhile (\<lambda>c. c \<noteq> slash) s)"
  by (induction s) (auto simp: ends_elem_def)

lemma out_of_push:
  "list_all plain_elem st \<Longrightarrow>
     rev e @ (if length (out_of st) \<noteq> 1 then slash # out_of st else out_of st) = out_of (e # st)"
  using length_out_of [of st] by (cases "st = []") (auto simp: out_of_Cons out_of_single, simp_all add: out_of_def)

lemma first_elem:
  assumes "s \<noteq> []" and "hd s \<noteq> slash"
    and "\<not> (hd s = CHR ''.'' \<and> ends_elem (tl s))" and "\<not> (take 2 s = ''..'' \<and> ends_elem (drop 2 s))"
  shows "plain_elem (takeWhile (\<lambda>c. c \<noteq> slash) s)"
proof -
  let ?e = "takeWhile (\<lambda>c. c \<noteq> slash) s" and ?r = "dropWhile (\<lambda>c. c \<noteq> slash) s"
  have s: "s = ?e @ ?r" by simp
  have "?e \<noteq> []" using assms(1,2) by (cases s) auto
  moreover have "?e \<noteq> ''.''"
  proof
    assume e: "?e = ''.''"
    then have "s = ''.'' @ ?r" using s by metis
    then have "hd s = CHR ''.''" "tl s = ?r" by (metis append_Cons list.sel(1)) (metis append_Cons append_Nil list.sel(3) \<open>s = ''.'' @ ?r\<close>)
    then show False using assms(3) ends_elem_dropWhile by metis
  qed
  moreover have "?e \<noteq> ''..''"
  proof
    assume e: "?e = ''..''"
    then obtain r where r: "s = ''..'' @ r" "?r = r" using s by metis
    then have "take 2 s = ''..''" "drop 2 s = r" by auto
    then show False using assms(4) ends_elem_dropWhile r(2) by metis
  qed
  ultimately show ?thesis by (auto simp: plain_elem_def dest: set_takeWhileD)
qed

lemma clean_loop_rooted:
  "list_all plain_elem st \<Longrightarrow>
     clean_loop True 1 s (out_of st) = Some (rev (out_of (rev (resolve st (split_at slash s)))))"
proof (induction "length s" arbitrary: s st rule: less_induct)
  case less
  note IH = less(1) and st = less(2)
  have ne: "out_of st \<noteq> []" by (cases st) (auto simp: out_of_def join_slash_append)
  consider "s = []" | "s \<noteq> []" "hd s = slash"
    | "s \<noteq> []" "hd s \<noteq> slash" "hd s = CHR ''.''" "ends_elem (tl s)"
    | "s \<noteq> []" "hd s \<noteq> slash" "\<not> (hd s = CHR ''.'' \<and> ends_elem (tl s))" "take 2 s = ''..''" "ends_elem (drop 2 s)"
    | "s \<noteq> []" "hd s \<noteq> slash" "\<not> (hd s = CHR ''.'' \<and> ends_elem (tl s))" "\<not> (take 2 s = ''..'' \<and> ends_elem (drop 2 s))"
    by blast
  then show ?case
  proof cases
    case 1
    then show ?thesis using ne by (subst clean_loop.simps) simp
  next
    case 2
    then have "split_at slash s = [] # split_at slash (tl s)" by (cases s) auto
    then show ?thesis using 2 IH [of "tl s" st] st by (subst clean_loop.simps) simp
  next
    case 3
    then obtain r where s: "s = ''.'' @ r" by (cases s) auto
    have "resolve st (split_at slash s) = resolve st (split_at slash (tl s))"
      unfolding s using resolve_split_elem [of "''.''" "r" st] 3(4) s by (simp add: slash_def)
    then show ?thesis using 3 IH [of "tl s" st] st by (subst clean_loop.simps) simp
  next
    case 4
    then obtain q where s: "s = ''..'' @ q" by (metis append_take_drop_id)
    then have r: "resolve st (split_at slash s) = resolve (drop 1 st) (split_at slash (drop 2 s))"
      using resolve_split_elem [of "''..''" q st] 4(5) by (simp add: slash_def)
    have b: "back_up 1 (out_of st) = out_of (drop 1 st)" if "st \<noteq> []"
      using back_up_out_of [OF st that] by (simp add: drop_Suc)
    have d: "drop 1 st = st" if "st = []" using that by simp
    have l: "length (out_of st) > 1 \<longleftrightarrow> st \<noteq> []"
      using length_out_of [OF st] by (auto simp: out_of_def)
    have "list_all plain_elem (drop 1 st)" using st by (cases st) auto
    moreover have "length (drop 2 s) < length s" using 4(1) by (cases s) auto
    ultimately have "clean_loop True 1 (drop 2 s) (out_of (drop 1 st)) =
        Some (rev (out_of (rev (resolve (drop 1 st) (split_at slash (drop 2 s))))))"
      using IH by blast
    then show ?thesis using 4 l b r by (subst clean_loop.simps) (cases "st = []", auto)
  next
    case 5
    let ?e = "takeWhile (\<lambda>c. c \<noteq> slash) s" and ?r = "dropWhile (\<lambda>c. c \<noteq> slash) s"
    have e: "plain_elem ?e" using first_elem [OF 5] .
    have "resolve st (split_at slash s) = resolve st (?e # split_at slash ?r)"
      using resolve_split_elem [of ?e ?r st] e ends_elem_dropWhile by (simp add: plain_elem_def)
    also have "\<dots> = resolve (?e # st) (split_at slash ?r)" using e by (simp add: plain_elem_def)
    finally have r: "resolve st (split_at slash s) = resolve (?e # st) (split_at slash ?r)" .
    have "length ?r < length s" using 5(1,2) by (cases s) (auto simp: le_imp_less_Suc length_dropWhile_le)
    then have "clean_loop True 1 ?r (out_of (?e # st)) = Some (rev (out_of (rev (resolve (?e # st) (split_at slash ?r)))))"
      using IH e st by simp
    moreover have "clean_loop True 1 s (out_of st) = clean_loop True 1 ?r
        (rev ?e @ (if length (out_of st) \<noteq> 1 then slash # out_of st else out_of st))"
      by (subst clean_loop.simps) (simp only: 5 Let_def if_False simp_thms)
    ultimately show ?thesis using r out_of_push [OF st, of ?e] by (simp only:)
  qed
qed

lemma path_clean_rooted:
  "path_clean (slash # p) = Some (if path_elems p = [] then [slash] else join_slash (path_elems p))"
  using clean_loop_rooted [of "[]" p] by (auto simp: path_clean_def path_elems_def out_of_def)

lemma resolve_plain: "list_all plain_elem es \<Longrightarrow> resolve st es = rev st @ es"
  by (induction es arbitrary: st) (auto simp: plain_elem_def)

lemma plain_resolve:
  "list_all plain_elem st \<Longrightarrow> list_all (\<lambda>e. slash \<notin> set e) es \<Longrightarrow> list_all plain_elem (resolve st es)"
proof (induction st es rule: resolve.induct)
  case (1 st)
  then show ?case by (simp add: list_all_iff)
next
  case (2 st e es)
  have "list_all plain_elem (drop (Suc 0) st)" using 2(4) by (cases st) auto
  moreover have "e \<noteq> [] \<Longrightarrow> e \<noteq> ''.'' \<Longrightarrow> e \<noteq> ''..'' \<Longrightarrow> plain_elem e"
    using 2(5) by (simp add: plain_elem_def)
  ultimately show ?case using 2 by auto
qed

lemma split_at_free: "list_all (\<lambda>e. d \<notin> set e) (split_at d s)"
  by (induction s) (auto split: list.splits)

lemma path_elems_plain: "list_all plain_elem (path_elems p)"
  unfolding path_elems_def by (rule plain_resolve) (auto simp: split_at_free)

lemma split_at_join_slash:
  "list_all plain_elem es \<Longrightarrow> es \<noteq> [] \<Longrightarrow> split_at slash (join_slash es) = [] # es"
proof (induction es)
  case Nil
  then show ?case by simp
next
  case (Cons e es)
  show ?case
  proof (cases "es = []")
    case True
    with Cons show ?thesis by (simp add: plain_elem_def split_at_plain)
  next
    case False
    then obtain f fs where "es = f # fs" by (cases es) auto
    with Cons show ?thesis by (auto simp: plain_elem_def split_at_append)
  qed
qed

lemma path_elems_join: "list_all plain_elem es \<Longrightarrow> path_elems (join_slash es) = es"
  by (cases "es = []") (simp_all add: path_elems_def split_at_join_slash resolve_plain)

subsection \<open>Query strings (net/url)\<close>

definition hex_value :: "char \<Rightarrow> nat option" where
  "hex_value c =
     (let n = ord c
      in if 48 \<le> n \<and> n \<le> 57 then Some (n - 48)
         else if 97 \<le> n \<and> n \<le> 102 then Some (n - 87)
         else if 65 \<le> n \<and> n \<le> 70 then Some (n - 55) else None)"

fun query_unescape :: "string \<Rightarrow> string option" where
  "query_unescape [] = Some []"
| "query_unescape (c # s) =
     (if c = CHR ''%'' then
        (case s of
           a # b # r \<Rightarrow>
             (case (hex_value a, hex_value b) of
                (Some h, Some l) \<Rightarrow> map_option (Cons (char_of (16 * h + l))) (query_unescape r)
              | _ \<Rightarrow> None)
         | _ \<Rightarrow> None)
      else map_option (Cons (if c = CHR ''+'' then CHR '' '' else c)) (query_unescape s))"

definition unreserved :: "char \<Rightarrow> bool" where
  "unreserved c \<longleftrightarrow>
     (let n = ord c in 48 \<le> n \<and> n \<le> 57 \<or> 65 \<le> n \<and> n \<le> 90 \<or> 97 \<le> n \<and> n \<le> 122)
   \<or> c = CHR ''-'' \<or> c = CHR ''_'' \<or> c = CHR ''.'' \<or> c = CHR ''~''"

definition upper_hex :: "nat \<Rightarrow> char" where
  "upper_hex d = (if d < 10 then char_of (48 + d) else char_of (55 + d))"

definition escape_char :: "char \<Rightarrow> string" where
  "escape_char c =
     (if unreserved c then [c]
      else if c = CHR '' '' then ''+''
      else [CHR ''%'', upper_hex (ord c div 16), upper_hex (ord c mod 16)])"

definition query_escape :: "string \<Rightarrow> string" where
  "query_escape s = concat (map escape_char s)"

text \<open>\<open>url.ParseQuery\<close> as \<open>URL.Query\<close> uses it: pairs that do not parse are dropped.\<close>

definition parse_pair :: "string \<Rightarrow> (string \<times> string) option" where
  "parse_pair p =
     (if p = [] \<or> CHR '';'' \<in> set p then None
      else (case cut CHR ''='' p of (k, v, _) \<Rightarrow>
        (case (query_unescape k, query_unescape v) of
           (Some k', Some v') \<Rightarrow> Some (k', v')
         | _ \<Rightarrow> None)))"

type_synonym query = "(string \<times> string) list"

definition parse_query :: "string \<Rightarrow> query" where
  "parse_query s = List.map_filter parse_pair (split_at CHR ''&'' s)"

definition query_values :: "query \<Rightarrow> string \<Rightarrow> string list" where
  "query_values q k = map snd (filter (\<lambda>p. fst p = k) q)"

definition query_get :: "query \<Rightarrow> string \<Rightarrow> string" where
  "query_get q k = (case query_values q k of [] \<Rightarrow> [] | v # _ \<Rightarrow> v)"

text \<open>\<open>Values.Encode\<close>, given the pairs in the order of their keys.\<close>

fun encode_query :: "query \<Rightarrow> string" where
  "encode_query [] = []"
| "encode_query [(k, v)] = query_escape k @ CHR ''='' # query_escape v"
| "encode_query ((k, v) # p # ps) =
     query_escape k @ CHR ''='' # query_escape v @ CHR ''&'' # encode_query (p # ps)"

lemma hex_value_upper: "d < 16 \<Longrightarrow> hex_value (upper_hex d) = Some d"
  by (auto simp: hex_value_def upper_hex_def Let_def)

lemma unescape_escape_char:
  "query_unescape (escape_char c @ s) = map_option (Cons c) (query_unescape s)"
proof -
  have "ord c div 16 < 16" using ord_less_256 [of c] by arith
  moreover have "16 * (ord c div 16) + ord c mod 16 = ord c" by simp
  moreover have "unreserved c \<Longrightarrow> c \<noteq> CHR ''%'' \<and> c \<noteq> CHR ''+''" by (auto simp: unreserved_def Let_def)
  ultimately show ?thesis by (simp add: escape_char_def hex_value_upper)
qed

lemma unescape_escape [simp]: "query_unescape (query_escape s) = Some s"
proof (induction s)
  case Nil
  then show ?case by (simp add: query_escape_def)
next
  case (Cons c s)
  have "query_escape (c # s) = escape_char c @ query_escape s" by (simp add: query_escape_def)
  with Cons show ?case by (simp add: unescape_escape_char del: query_unescape.simps)
qed

definition safe_char :: "char \<Rightarrow> bool" where
  "safe_char c \<longleftrightarrow> c \<noteq> CHR ''&'' \<and> c \<noteq> CHR ''='' \<and> c \<noteq> CHR '';''"

lemma safe_upper_hex: "d < 16 \<Longrightarrow> safe_char (upper_hex d)"
  using hex_value_upper [of d] by (auto simp: safe_char_def hex_value_def)

lemma safe_escape: "c \<in> set (query_escape s) \<Longrightarrow> safe_char c"
proof -
  assume "c \<in> set (query_escape s)"
  then obtain x where x: "c \<in> set (escape_char x)" by (auto simp: query_escape_def)
  have "ord x div 16 < 16" using ord_less_256 [of x] by arith
  moreover have "unreserved x \<Longrightarrow> safe_char x" by (auto simp: safe_char_def unreserved_def Let_def)
  ultimately show ?thesis using x
    by (auto simp: escape_char_def safe_upper_hex split: if_splits) (auto simp: safe_char_def)
qed

lemma escape_free:
  "CHR ''&'' \<notin> set (query_escape s)" "CHR ''='' \<notin> set (query_escape s)" "CHR '';'' \<notin> set (query_escape s)"
  using safe_escape [of _ s] by (auto simp: safe_char_def)

lemma parse_pair_encoded: "parse_pair (query_escape k @ CHR ''='' # query_escape v) = Some (k, v)"
  by (simp add: parse_pair_def escape_free cut_found)

lemma parse_encode_query: "parse_query (encode_query q) = q"
proof (induction q rule: encode_query.induct)
  case 1
  then show ?case by (simp add: parse_query_def parse_pair_def List.map_filter_simps)
next
  case (2 k v)
  have "CHR ''&'' \<notin> set (query_escape k @ CHR ''='' # query_escape v)" by (simp add: escape_free)
  then show ?case
    by (simp add: parse_query_def split_at_plain parse_pair_encoded List.map_filter_simps)
next
  case (3 k v p ps)
  let ?a = "query_escape k @ CHR ''='' # query_escape v"
  have "split_at CHR ''&'' (?a @ CHR ''&'' # encode_query (p # ps)) =
      ?a # split_at CHR ''&'' (encode_query (p # ps))"
    by (rule split_at_append) (simp add: escape_free)
  then have "parse_query (encode_query ((k, v) # p # ps)) = (k, v) # parse_query (encode_query (p # ps))"
    by (simp add: parse_query_def parse_pair_encoded List.map_filter_simps)
  with 3 show ?case by simp
qed

subsection \<open>Header fields (net/http)\<close>

text \<open>A header maps a canonical name to its values, the first of which \<open>Get\<close> returns.\<close>

type_synonym header = "string \<Rightarrow> string list"

definition header_get :: "header \<Rightarrow> string \<Rightarrow> string" where
  "header_get h k = (case h k of [] \<Rightarrow> [] | v # _ \<Rightarrow> v)"

definition header_set :: "string \<Rightarrow> string \<Rightarrow> header \<Rightarrow> header" where
  "header_set k v h = h(k := [v])"

definition header_del :: "string \<Rightarrow> header \<Rightarrow> header" where
  "header_del k h = h(k := [])"

lemma header_simps [go_simps]:
  "header_get (header_set k v h) k = v"
  "j \<noteq> k \<Longrightarrow> header_get (header_set k v h) j = header_get h j"
  "header_get (header_del k h) k = []"
  "j \<noteq> k \<Longrightarrow> header_get (header_del k h) j = header_get h j"
  "header_set k v h k = [v]"
  "j \<noteq> k \<Longrightarrow> header_set k v h j = h j"
  "header_del k h k = []"
  "j \<noteq> k \<Longrightarrow> header_del k h j = h j"
  by (auto simp: header_get_def header_set_def header_del_def)

end
