(* ===== verification/Language.thy ===== *)
theory Language
  imports Go_Http Complex_Main
begin

text \<open>
  \<open>internal/i18n\<close>: which language a page is rendered in, and the catalogs.

  The weights of an \<open>Accept-Language\<close> header are numbers that \<open>strconv.ParseFloat\<close> reads; the
  parser is a parameter (\<open>None\<close> is its error), and a weight is a rational number, so the one value
  that is no number (\<open>q=NaN\<close>) is outside the model.  \<open>sort.SliceStable\<close> is the library's stable
  \<open>sort_key\<close>.  The
  catalogs' lookup and the two checks of a catalog are here, rendering a page is \<open>Page_Render\<close>.
\<close>

type_synonym language = string

definition english :: language where "english = ''en''"
definition dutch :: language where "dutch = ''nl''"
definition auto_option :: string where "auto_option = ''auto''"

definition supported_languages :: "language list" where
  "supported_languages = [english, dutch]"

definition language_options :: "string list" where
  "language_options = auto_option # supported_languages"

text \<open>The empty language follows the browser; \<open>None\<close> is a value that is none of the options.\<close>

definition parse_option :: "string \<Rightarrow> language option" where
  "parse_option value =
     (let v = to_lower (trim_space value)
      in if v = [] \<or> v = auto_option then Some []
         else if v \<in> set supported_languages then Some v else None)"

definition supported_tag :: "string \<Rightarrow> language option" where
  "supported_tag tag = (if tag \<in> set supported_languages then Some tag else None)"

fun quality_loop :: "(string \<Rightarrow> rat option) \<Rightarrow> string list \<Rightarrow> rat" where
  "quality_loop parse [] = 1"
| "quality_loop parse (p # ps) =
     (case cut CHR ''='' p of (name, value, found) \<Rightarrow>
        if \<not> found \<or> to_lower (trim_space name) \<noteq> ''q'' then quality_loop parse ps
        else (case parse (trim_space value) of
            None \<Rightarrow> 1
          | Some w \<Rightarrow> if w < 0 \<or> w > 1 then 1 else w))"

definition quality :: "(string \<Rightarrow> rat option) \<Rightarrow> string \<Rightarrow> rat" where
  "quality parse parameters = quality_loop parse (split_at CHR '';'' parameters)"

definition candidate_of :: "(string \<Rightarrow> rat option) \<Rightarrow> string \<Rightarrow> (language \<times> rat) option" where
  "candidate_of parse part =
     (case cut CHR '';'' (trim_space part) of (t, parameters, _) \<Rightarrow>
        (let tag = to_lower (trim_space t)
         in if tag = [] then None
            else (case supported_tag (fst (cut CHR ''-'' tag)) of
                None \<Rightarrow> None
              | Some l \<Rightarrow> Some (l, quality parse parameters))))"

definition candidates :: "(string \<Rightarrow> rat option) \<Rightarrow> string \<Rightarrow> (language \<times> rat) list" where
  "candidates parse header = List.map_filter (candidate_of parse) (split_at CHR '','' header)"

definition match_language :: "(string \<Rightarrow> rat option) \<Rightarrow> string \<Rightarrow> language" where
  "match_language parse header =
     (case filter (\<lambda>c. snd c > 0) (sort_key (\<lambda>c. - snd c) (candidates parse header)) of
        [] \<Rightarrow> english
      | c # _ \<Rightarrow> fst c)"

subsection \<open>Catalogs\<close>

type_synonym catalog = "(string \<times> string) list"

definition catalog_text :: "(language \<times> catalog) list \<Rightarrow> language \<Rightarrow> string \<Rightarrow> string" where
  "catalog_text cs l key =
     (case Option.bind (map_of cs l) (\<lambda>c. map_of c key) of
        Some v \<Rightarrow> v
      | None \<Rightarrow>
          (case Option.bind (map_of cs english) (\<lambda>c. map_of c key) of Some v \<Rightarrow> v | None \<Rightarrow> key))"

datatype catalog_error = EmptyTranslation string | BadCharacter string char | MissingKeys "string list" | UnknownKeys "string list"

definition markup_chars :: string where
  "markup_chars = ''<>&'' @ [CHR 0x22, CHR 0x5C]"

definition substitutable :: "string \<Rightarrow> string \<Rightarrow> catalog_error option" where
  "substitutable key v =
     (if v = [] then Some (EmptyTranslation key)
      else (case filter (\<lambda>c. c \<in> set markup_chars) v of [] \<Rightarrow> None | c # _ \<Rightarrow> Some (BadCharacter key c)))"

definition same_keys :: "catalog \<Rightarrow> catalog \<Rightarrow> catalog_error option" where
  "same_keys reference c =
     (let missing = sort (filter (\<lambda>k. k \<notin> set (map fst c)) (map fst reference));
          unknown = sort (filter (\<lambda>k. k \<notin> set (map fst reference)) (map fst c))
      in if missing \<noteq> [] then Some (MissingKeys missing)
         else if unknown \<noteq> [] then Some (UnknownKeys unknown) else None)"

subsection \<open>The negotiated language\<close>

lemma quality_range: "0 \<le> quality parse p \<and> quality parse p \<le> 1"
proof -
  have "0 \<le> quality_loop parse ps \<and> quality_loop parse ps \<le> 1" for ps
    by (induction ps) (auto split: prod.splits option.splits)
  then show ?thesis by (simp add: quality_def)
qed

lemma candidate_of_supported:
  "candidate_of parse p = Some (l, w) \<Longrightarrow> l \<in> set supported_languages \<and> 0 \<le> w \<and> w \<le> 1"
  using quality_range [of parse]
  by (auto simp: candidate_of_def supported_tag_def Let_def split: prod.splits if_splits)

lemma candidate_supported: "(l, w) \<in> set (candidates parse header) \<Longrightarrow> l \<in> set supported_languages \<and> 0 \<le> w \<and> w \<le> 1"
proof -
  assume "(l, w) \<in> set (candidates parse header)"
  then obtain p where "candidate_of parse p = Some (l, w)"
    by (auto simp: candidates_def List.map_filter_def)
  then show ?thesis by (rule candidate_of_supported)
qed

text \<open>Stability: among the best, the first of the list comes out first.\<close>

lemma hd_sort_key:
  fixes f :: "'a \<Rightarrow> 'b :: linorder"
  assumes "xs \<noteq> []"
  shows "\<exists>a b. xs = a @ hd (sort_key f xs) # b \<and> (\<forall>x \<in> set xs. f (hd (sort_key f xs)) \<le> f x)
     \<and> (\<forall>x \<in> set a. f (hd (sort_key f xs)) < f x)"
proof -
  define s where "s = sort_key f xs"
  define m where "m = hd s"
  have ne: "s \<noteq> []" using assms unfolding s_def by (metis length_0_conv length_sort)
  have least: "f m \<le> f x" if "x \<in> set xs" for x
  proof -
    have "sorted (map f s)" by (simp add: s_def)
    moreover have "x \<in> set s" using that by (simp add: s_def)
    ultimately show ?thesis using ne unfolding m_def by (cases s) auto
  qed
  have "filter (\<lambda>x. f x = f m) s = filter (\<lambda>x. f x = f m) xs" unfolding s_def by (rule sort_key_stable)
  moreover have "filter (\<lambda>x. f x = f m) s = m # filter (\<lambda>x. f x = f m) (tl s)"
    using ne unfolding m_def by (cases s) auto
  ultimately have "filter (\<lambda>x. f x = f m) xs = m # filter (\<lambda>x. f x = f m) (tl s)" by metis
  then obtain a b where ab: "xs = a @ m # b" "\<forall>x \<in> set a. f x \<noteq> f m"
    unfolding filter_eq_Cons_iff by blast
  have "f m < f x" if "x \<in> set a" for x
    using ab that least [of x] by force
  then show ?thesis using ab(1) least unfolding m_def s_def by blast
qed

text \<open>The page is rendered in a language the add-on is written in, and the right one: the
  language of the header's heaviest entry it is written in, the earliest of equals, whatever
  subtags and spellings the entries have; and in English when no such entry has a positive
  weight, so an unreadable header is never an error.\<close>

theorem match_language_best:
  "(match_language parse header = english
      \<and> (\<forall>c \<in> set (candidates parse header). snd c = 0))
   \<or> (\<exists>a l w b. candidates parse header = a @ (l, w) # b \<and> match_language parse header = l
        \<and> l \<in> set supported_languages \<and> 0 < w
        \<and> (\<forall>c \<in> set a. snd c < w) \<and> (\<forall>c \<in> set b. snd c \<le> w))"
proof (cases "\<forall>c \<in> set (candidates parse header). snd c = 0")
  case True
  then have "filter (\<lambda>c. snd c > 0) (sort_key (\<lambda>c. - snd c) (candidates parse header)) = []"
    by (auto simp: filter_empty_conv)
  then show ?thesis using True by (simp add: match_language_def)
next
  case False
  let ?cs = "candidates parse header"
  let ?s = "sort_key (\<lambda>c. - snd c) ?cs"
  obtain c where c: "c \<in> set ?cs" "snd c > 0"
    using False candidate_supported by (metis order_le_less prod.collapse)
  then have ne: "?cs \<noteq> []" by auto
  obtain a b where ab: "?cs = a @ hd ?s # b" "\<forall>x \<in> set ?cs. - snd (hd ?s) \<le> - snd x"
    "\<forall>x \<in> set a. - snd (hd ?s) < - snd x"
    using hd_sort_key [OF ne, of "\<lambda>c. - snd c"] by blast
  obtain l w where lw: "hd ?s = (l, w)" by (cases "hd ?s")
  have pos: "0 < w" using ab(2) c lw by fastforce
  have "?s \<noteq> []" using ne by (metis length_0_conv length_sort)
  then obtain r where "?s = (l, w) # r" using lw by (cases ?s) auto
  then have m: "match_language parse header = l" using pos by (simp add: match_language_def)
  have sets: "set ?cs = set a \<union> insert (l, w) (set b)" using arg_cong [OF ab(1), of set] lw by simp
  then have "l \<in> set supported_languages" using candidate_supported [of l w] by blast
  moreover have "\<forall>c \<in> set a. snd c < w" using ab(3) lw by auto
  moreover have "\<forall>c \<in> set b. snd c \<le> w" using ab(2) lw sets by auto
  ultimately show ?thesis using m pos ab(1) lw by metis
qed

lemma match_language_supported: "match_language parse header \<in> set supported_languages"
  using match_language_best [of parse header] by (auto simp: supported_languages_def)

end
