(* ===== verification/Page_Render.thy ===== *)
theory Page_Render
  imports Language "HOL-Library.AList"
begin

text \<open>
  \<open>internal/i18n/page.go\<close>, the rendering of a page at start-up: every language's catalog is
  substituted into one authored text.

  \<open>replace_all\<close> is \<open>strings.Replacer\<close> as the library documents it: it scans the text once from the
  left, compares the old strings in the order of its arguments, and does not scan what it put in.
  Go passes the entries of a map, in an arbitrary order; the model takes them in the order of the
  catalog's list, and no property depends on it.  The JSON text of a catalog is a parameter.
\<close>

definition token_mark :: string where
  "token_mark = ''%%''"

definition dictionary_token :: string where
  "dictionary_token = ''%%strings%%''"

definition token :: "string \<Rightarrow> string" where
  "token key = token_mark @ key @ token_mark"

definition first_match :: "(string \<times> string) list \<Rightarrow> string \<Rightarrow> (string \<times> string) option" where
  "first_match pairs s = find (\<lambda>(old, new). old \<noteq> [] \<and> take (length old) s = old) pairs"

function replace_all :: "(string \<times> string) list \<Rightarrow> string \<Rightarrow> string" where
  "replace_all pairs s =
     (if s = [] then []
      else case first_match pairs s of
        None \<Rightarrow> hd s # replace_all pairs (tl s)
      | Some (old, new) \<Rightarrow> new @ replace_all pairs (drop (length old) s))"
  by pat_completeness auto
termination
  by (relation "measure (length \<circ> snd)") (auto simp: first_match_def find_Some_iff)

declare replace_all.simps [simp del]

fun find_mark :: "string \<Rightarrow> nat option" where
  "find_mark (a # b # s) =
     (if a = CHR ''%'' \<and> b = CHR ''%'' then Some 0 else map_option Suc (find_mark (b # s)))"
| "find_mark _ = None"

datatype render_error =
    NoDefaultCatalog
  | NoCatalog language
  | CatalogFault catalog_error
  | DictionaryFault string
  | Unreplaced string
  | RenderFault language render_error

fun first_catalog_fault :: "catalog \<Rightarrow> catalog_error option" where
  "first_catalog_fault [] = None"
| "first_catalog_fault ((k, v) # rest) = (case substitutable k v of Some e \<Rightarrow> Some e | None \<Rightarrow> first_catalog_fault rest)"

definition replacements :: "catalog \<Rightarrow> string \<Rightarrow> (string \<times> string) list" where
  "replacements c dictionary = map (\<lambda>(k, v). (token k, v)) c @ [(dictionary_token, dictionary)]"

definition render_page :: "(catalog \<Rightarrow> string + string) \<Rightarrow> string \<Rightarrow> catalog \<Rightarrow> render_error + string" where
  "render_page json raw c =
     (case first_catalog_fault c of
        Some e \<Rightarrow> Inl (CatalogFault e)
      | None \<Rightarrow>
     (case json c of
        Inl e \<Rightarrow> Inl (DictionaryFault e)
      | Inr dictionary \<Rightarrow>
          (let page = replace_all (replacements c dictionary) raw
           in case find_mark page of
                Some i \<Rightarrow> Inl (Unreplaced (take 40 (drop i page)))
              | None \<Rightarrow> Inr page)))"

fun render_languages ::
    "(catalog \<Rightarrow> string + string) \<Rightarrow> string \<Rightarrow> (language \<times> catalog) list \<Rightarrow> catalog \<Rightarrow> language list
      \<Rightarrow> (language \<times> string) list \<Rightarrow> render_error + (language \<times> string) list" where
  "render_languages json raw catalogs reference [] rendered = Inr rendered"
| "render_languages json raw catalogs reference (l # ls) rendered =
     (case map_of catalogs l of
        None \<Rightarrow> Inl (NoCatalog l)
      | Some c \<Rightarrow>
     (case same_keys reference c of
        Some e \<Rightarrow> Inl (CatalogFault e)
      | None \<Rightarrow>
     (case render_page json raw c of
        Inl e \<Rightarrow> Inl (RenderFault l e)
      | Inr page \<Rightarrow> render_languages json raw catalogs reference ls (AList.update l page rendered))))"

definition render_pages ::
    "(catalog \<Rightarrow> string + string) \<Rightarrow> string \<Rightarrow> (language \<times> catalog) list \<Rightarrow> render_error + (language \<times> string) list" where
  "render_pages json raw catalogs =
     (case map_of catalogs english of
        None \<Rightarrow> Inl NoDefaultCatalog
      | Some reference \<Rightarrow> render_languages json raw catalogs reference supported_languages [])"

text \<open>\<open>MustRenderPages\<close>: \<open>None\<close> is the panic.\<close>

definition must_render_pages ::
    "(catalog \<Rightarrow> string + string) \<Rightarrow> string \<Rightarrow> (language \<times> catalog) list \<Rightarrow> (language \<times> string) list option" where
  "must_render_pages json raw catalogs =
     (case render_pages json raw catalogs of Inl e \<Rightarrow> None | Inr rendered \<Rightarrow> Some rendered)"

subsection \<open>A translation stays text\<close>

definition markup :: "string \<Rightarrow> string" where
  "markup s = filter (\<lambda>c. c \<in> set markup_chars) s"

lemma markup_append [simp]: "markup (s @ t) = markup s @ markup t"
  by (simp add: markup_def)

lemma markup_Cons: "markup (c # s) = (if c \<in> set markup_chars then c # markup s else markup s)"
  by (simp add: markup_def)

lemma substitutable_None: "substitutable k v = None \<longleftrightarrow> v \<noteq> [] \<and> markup v = []"
  by (auto simp: substitutable_def markup_def split: list.splits)

lemma first_catalog_fault_None: "first_catalog_fault c = None \<longleftrightarrow> (\<forall>(k, v) \<in> set c. v \<noteq> [] \<and> markup v = [])"
  by (induction c) (auto simp: substitutable_None split: option.splits)

text \<open>What is put in matters to the markup only through its own.\<close>

lemma replace_all_markup:
  assumes "map fst pairs = map fst pairs'" and "map (markup \<circ> snd) pairs = map (markup \<circ> snd) pairs'"
  shows "markup (replace_all pairs s) = markup (replace_all pairs' s)"
proof (induction s rule: length_induct)
  case (1 s)
  have len: "length pairs = length pairs'" using arg_cong [OF assms(1), of length] by simp
  have find: "case first_match pairs s of
        None \<Rightarrow> first_match pairs' s = None
      | Some (old, new) \<Rightarrow> old \<noteq> [] \<and> (\<exists>new'. first_match pairs' s = Some (old, new') \<and> markup new = markup new')"
    using len assms unfolding first_match_def
    by (induction pairs pairs' rule: list_induct2) (auto split: option.splits)
  show ?case
  proof (cases "s = []")
    case False
    show ?thesis
    proof (cases "first_match pairs s")
      case None
      then have "first_match pairs' s = None" using find by simp
      with None False 1 show ?thesis
        by (simp add: replace_all.simps [of pairs s] replace_all.simps [of pairs' s] markup_Cons)
    next
      case (Some p)
      then obtain old new new' where p: "p = (old, new)" "old \<noteq> []" "first_match pairs' s = Some (old, new')"
        "markup new = markup new'" using find by (cases p) auto
      have "length (drop (length old) s) < length s" using False p(2) by (simp add: le_Suc_eq)
      with 1 have "markup (replace_all pairs (drop (length old) s)) = markup (replace_all pairs' (drop (length old) s))"
        by blast
      with Some p False show ?thesis
        by (simp add: replace_all.simps [of pairs s] replace_all.simps [of pairs' s])
    qed
  qed (simp add: replace_all.simps)
qed

text \<open>The markup a page has when every translation is empty.\<close>

definition skeleton :: "string list \<Rightarrow> string \<Rightarrow> string \<Rightarrow> string" where
  "skeleton keys dictionary raw =
     markup (replace_all (map (\<lambda>k. (token k, [])) keys @ [(dictionary_token, dictionary)]) raw)"

lemma render_page_ok:
  assumes "render_page json raw c = Inr page"
  obtains dictionary where "json c = Inr dictionary" "find_mark page = None"
    "markup page = skeleton (map fst c) dictionary raw"
    "\<forall>(k, v) \<in> set c. v \<noteq> [] \<and> markup v = []"
proof -
  from assms obtain dictionary where d: "first_catalog_fault c = None" "json c = Inr dictionary" "find_mark page = None"
    "page = replace_all (replacements c dictionary) raw"
    by (auto simp: render_page_def Let_def split: option.splits sum.splits)
  have plain: "\<forall>(k, v) \<in> set c. v \<noteq> [] \<and> markup v = []" using d(1) by (simp add: first_catalog_fault_None)
  let ?empty = "map (\<lambda>k. (token k, [])) (map fst c) @ [(dictionary_token, dictionary)]"
  have "map fst (replacements c dictionary) = map fst ?empty" by (auto simp: replacements_def)
  moreover have "map (markup \<circ> snd) (replacements c dictionary) = map (markup \<circ> snd) ?empty"
    using plain by (auto simp: replacements_def markup_def)
  ultimately have "markup page = skeleton (map fst c) dictionary raw"
    unfolding d(4) skeleton_def by (rule replace_all_markup)
  then show thesis using that [OF d(2,3) _ plain] by simp
qed

lemma same_keys_None: "same_keys r c = None \<longleftrightarrow> set (map fst c) = set (map fst r)"
proof -
  have empty: "sort xs = [] \<longleftrightarrow> xs = []" for xs :: "string list" by (metis set_empty set_sort)
  show ?thesis by (auto simp: same_keys_def Let_def empty filter_empty_conv)
qed

lemma render_languages_ok:
  "render_languages json raw catalogs reference ls al = Inr pages \<Longrightarrow> distinct ls \<Longrightarrow>
     fst ` set pages = fst ` set al \<union> set ls
     \<and> (\<forall>l \<in> set ls. \<exists>c page. map_of catalogs l = Some c \<and> set (map fst c) = set (map fst reference)
          \<and> render_page json raw c = Inr page \<and> map_of pages l = Some page)
     \<and> (\<forall>l. l \<notin> set ls \<longrightarrow> map_of pages l = map_of al l)"
proof (induction ls arbitrary: al)
  case (Cons l ls)
  from Cons.prems(1) obtain c page where c: "map_of catalogs l = Some c" "same_keys reference c = None"
    "render_page json raw c = Inr page"
    and rest: "render_languages json raw catalogs reference ls (AList.update l page al) = Inr pages"
    by (auto split: option.splits sum.splits)
  note ih = Cons.IH [OF rest]
  have "map_of pages l = Some page" using ih Cons.prems(2) by (simp add: AList.update_conv')
  moreover have "fst ` set pages = fst ` set al \<union> set (l # ls)"
    using ih Cons.prems(2) by (auto simp: AList.dom_update [unfolded dom_map_of_conv_image_fst])
  moreover have "map_of pages m = map_of al m" if "m \<notin> set (l # ls)" for m
    using ih Cons.prems(2) that by (simp add: AList.update_conv')
  ultimately show ?case using ih Cons.prems(2) c same_keys_None by auto
qed simp

text \<open>Rendered pages are complete and no translation breaks out.  When rendering succeeds there is a
  page for exactly the supported languages; every catalog has exactly the default catalog's keys;
  no page carries an unreplaced token; and the markup characters of a page are those it has with
  every translation empty, so a translation can neither open nor close an element, an attribute or
  an entity, whatever it says.\<close>

theorem rendered_pages_sound:
  assumes "render_pages json raw catalogs = Inr pages"
  shows "fst ` set pages = set supported_languages
    \<and> (\<forall>l \<in> set supported_languages. \<exists>c dictionary page. map_of catalogs l = Some c \<and> json c = Inr dictionary
        \<and> map_of pages l = Some page \<and> find_mark page = None \<and> markup page = skeleton (map fst c) dictionary raw
        \<and> set (map fst c) = set (map fst (the (map_of catalogs english))))"
proof -
  from assms obtain r where r: "map_of catalogs english = Some r"
    "render_languages json raw catalogs r supported_languages [] = Inr pages"
    by (auto simp: render_pages_def split: option.splits)
  have d: "distinct supported_languages" by (simp add: supported_languages_def english_def dutch_def)
  note all = render_languages_ok [OF r(2) d]
  have "\<exists>c dictionary page. map_of catalogs l = Some c \<and> json c = Inr dictionary
        \<and> map_of pages l = Some page \<and> find_mark page = None \<and> markup page = skeleton (map fst c) dictionary raw
        \<and> set (map fst c) = set (map fst (the (map_of catalogs english)))" if l: "l \<in> set supported_languages" for l
  proof -
    from all l obtain c page where c: "map_of catalogs l = Some c" "set (map fst c) = set (map fst r)"
      "render_page json raw c = Inr page" "map_of pages l = Some page" by blast
    from render_page_ok [OF c(3)] c r(1) show ?thesis by (metis option.sel)
  qed
  then show ?thesis using all by simp
qed

text \<open>A catalog key \<open>strings\<close> shadows the dictionary: its translation is put where the page's script
  expects the JSON text, and nothing refuses it.\<close>

lemma strings_key_shadows:
  "render_page (\<lambda>_. Inr ''{}'') ''var T = %%strings%%;'' [(''strings'', ''plain'')] = Inr ''var T = plain;''"
  by code_simp

end
