(* ===== verification/Netguard.thy ===== *)
theory Netguard
  imports Go_Http
begin

text \<open>
  \<open>internal/netguard\<close>: which peer addresses a listener answers.  The first part writes out
  \<open>net.ParseIP\<close>, \<open>net.ParseCIDR\<close> and \<open>IPNet.Contains\<close> of the standard library; the second is
  the guard.  An address is its bytes, 4 or 16 of them; an IPv4 address in IPv6 form counts as
  the 4 bytes it maps, in the address and in the network, as \<open>To4\<close> has it.  A refused request is
  the error text and the status code.
\<close>

subsection \<open>Addresses\<close>

definition quad_field :: "string \<Rightarrow> byte option" where
  "quad_field f =
     (if f \<noteq> [] \<and> list_all is_digit f \<and> (length f = 1 \<or> hd f \<noteq> CHR ''0'') \<and> dec_val 0 f \<le> 255
      then Some (word_of_nat (dec_val 0 f)) else None)"

definition parse_quad :: "string \<Rightarrow> bytes option" where
  "parse_quad s =
     (case map quad_field (split_at CHR ''.'' s) of
        [Some a, Some b, Some c, Some d] \<Rightarrow> Some [a, b, c, d]
      | _ \<Rightarrow> None)"

definition v6_finish :: "string \<Rightarrow> bytes \<Rightarrow> nat option \<Rightarrow> bytes option" where
  "v6_finish s ip ellipsis =
     (if s \<noteq> [] then None
      else (case ellipsis of
          None \<Rightarrow> if length ip < 16 then None else Some ip
        | Some e \<Rightarrow>
            if length ip < 16 then Some (take e ip @ replicate (16 - length ip) 0 @ drop e ip)
            else None))"

definition is_hex :: "char \<Rightarrow> bool" where
  "is_hex c \<longleftrightarrow> hex_value c \<noteq> None"

fun hex_number :: "nat \<Rightarrow> string \<Rightarrow> nat" where
  "hex_number a [] = a"
| "hex_number a (c # s) = hex_number (16 * a + (case hex_value c of None \<Rightarrow> 0 | Some d \<Rightarrow> d)) s"

text \<open>One round per two bytes still missing.\<close>

fun v6_groups :: "nat \<Rightarrow> string \<Rightarrow> bytes \<Rightarrow> nat option \<Rightarrow> bytes option" where
  "v6_groups 0 s ip ellipsis = v6_finish s ip ellipsis"
| "v6_groups (Suc n) s ip ellipsis =
     (let g = takeWhile is_hex s; r = dropWhile is_hex s; v = hex_number 0 g
      in if g = [] \<or> length g > 4 then None
         else if r \<noteq> [] \<and> hd r = CHR ''.'' then
           (if ellipsis = None \<and> length ip \<noteq> 12 \<or> length ip + 4 > 16 then None
            else (case parse_quad s of None \<Rightarrow> None | Some q \<Rightarrow> v6_finish [] (ip @ q) ellipsis))
         else
           (let ip' = ip @ [word_of_nat (v div 256), word_of_nat (v mod 256)]
            in if r = [] then v6_finish [] ip' ellipsis
               else if hd r \<noteq> CHR '':'' \<or> tl r = [] then None
               else if hd (tl r) = CHR '':'' then
                 (if ellipsis \<noteq> None then None
                  else if tl (tl r) = [] then v6_finish [] ip' (Some (length ip'))
                  else v6_groups n (tl (tl r)) ip' (Some (length ip')))
               else v6_groups n (tl r) ip' ellipsis))"

text \<open>A zone ends in an error everywhere the program parses an address.\<close>

definition parse_v6 :: "string \<Rightarrow> bytes option" where
  "parse_v6 s =
     (if CHR ''%'' \<in> set s then None
      else if take 2 s = ''::'' then
        (if drop 2 s = [] then Some (replicate 16 0) else v6_groups 8 (drop 2 s) [] (Some 0))
      else v6_groups 8 s [] None)"

definition parse_ip :: "string \<Rightarrow> bytes option" where
  "parse_ip s =
     (case filter (\<lambda>c. c = CHR ''.'' \<or> c = CHR '':'' \<or> c = CHR ''%'') s of
        [] \<Rightarrow> None
      | c # _ \<Rightarrow> if c = CHR ''.'' then parse_quad s else if c = CHR '':'' then parse_v6 s else None)"

definition to4 :: "bytes \<Rightarrow> bytes option" where
  "to4 ip =
     (if length ip = 4 then Some ip
      else if length ip = 16 \<and> take 12 ip = replicate 10 0 @ [255, 255] then Some (drop 12 ip)
      else None)"

definition shortest :: "bytes \<Rightarrow> bytes" where
  "shortest ip = (case to4 ip of None \<Rightarrow> ip | Some q \<Rightarrow> q)"

record ip_net =
  net_ip :: bytes
  net_mask :: bytes

definition mask_byte :: "nat \<Rightarrow> byte" where
  "mask_byte n = (if n \<ge> 8 then 255 else word_of_nat (256 - 2 ^ (8 - n)))"

fun cidr_mask :: "nat \<Rightarrow> nat \<Rightarrow> bytes" where
  "cidr_mask n 0 = []"
| "cidr_mask n (Suc k) = mask_byte n # cidr_mask (n - 8) k"

definition parse_cidr :: "string \<Rightarrow> ip_net option" where
  "parse_cidr s =
     (case cut CHR ''/'' s of (addr, bits, found) \<Rightarrow>
        if \<not> found then None
        else (case (parse_ip addr, parse_digits bits) of
            (Some ip, Some n) \<Rightarrow>
              if n \<le> 8 * length ip then
                (let m = cidr_mask n (length ip)
                 in Some \<lparr> net_ip = map2 (\<lambda>a b. a AND b) ip m, net_mask = m \<rparr>)
              else None
          | _ \<Rightarrow> None))"

definition net_contains :: "ip_net \<Rightarrow> bytes \<Rightarrow> bool" where
  "net_contains n ip =
     (let nn = shortest (net_ip n); x = shortest ip;
          m = (if length (net_mask n) = 16 \<and> length nn = 4 then drop 12 (net_mask n) else net_mask n)
      in length m = length nn \<and> length x = length nn
         \<and> list_all (\<lambda>(a, k, b). a AND k = b AND k) (zip nn (zip m x)))"

subsection \<open>The guard\<close>

definition supervisor_cidrs :: "string list" where
  "supervisor_cidrs = [''172.30.32.0/23'', ''127.0.0.0/8'', ''::1/128'']"

text \<open>The error is the value that does not parse.\<close>

fun parse_networks :: "string list \<Rightarrow> string + ip_net list" where
  "parse_networks [] = Inr []"
| "parse_networks (v # vs) =
     (let value = trim_space v
      in if value = [] then parse_networks vs
         else (case parse_cidr value of
             None \<Rightarrow> Inl value
           | Some n \<Rightarrow> bind_sum (parse_networks vs) (\<lambda>ns. Inr (n # ns))))"

type_synonym guard = "ip_net list"

definition new_guard :: "string list option \<Rightarrow> string + guard" where
  "new_guard cidrs = parse_networks (case cidrs of None \<Rightarrow> supervisor_cidrs | Some cs \<Rightarrow> cs)"

text \<open>\<open>None\<close> is the nil guard.\<close>

definition guard_allow :: "guard option \<Rightarrow> string \<Rightarrow> bool" where
  "guard_allow g remote =
     (case g of
        None \<Rightarrow> True
      | Some ns \<Rightarrow>
          if ns = [] then True
          else (let host = (case split_host_port remote of None \<Rightarrow> remote | Some (h, _) \<Rightarrow> h)
                in case parse_ip (trim ''[]'' host) of
                     None \<Rightarrow> False
                   | Some ip \<Rightarrow> list_ex (\<lambda>n. net_contains n ip) ns))"

text \<open>What a handler answers: a refusal of its own, or what the handler behind it answers.\<close>

datatype 'a answer = Http_error nat string | Next 'a

definition guard_wrap :: "guard option \<Rightarrow> string \<Rightarrow> 'a \<Rightarrow> 'a answer" where
  "guard_wrap g remote next =
     (if guard_allow g remote then Next next else Http_error 403 ''forbidden'')"

subsection \<open>Who the Supervisor network is\<close>

definition quad_text :: "byte \<Rightarrow> byte \<Rightarrow> byte \<Rightarrow> byte \<Rightarrow> string" where
  "quad_text a b c d =
     dec_digits (unat a) @ ''.'' @ dec_digits (unat b) @ ''.'' @ dec_digits (unat c) @ ''.'' @ dec_digits (unat d)"

lemma dec_digits_free: "\<not> is_digit c \<Longrightarrow> c \<notin> set (dec_digits n)"
  using dec_digits_digits [of n] by (auto simp: list_all_iff)

lemma dec_digits_head: "n \<noteq> 0 \<Longrightarrow> hd (dec_digits n) \<noteq> CHR ''0''"
proof (induction n rule: dec_digits.induct)
  case (1 n)
  have "n < 10 \<Longrightarrow> digit_char n = CHR ''0'' \<Longrightarrow> n = 0"
  proof -
    assume n: "n < 10" and "digit_char n = CHR ''0''"
    then have "ord (char_of (48 + n)) = 48" unfolding digit_char_def by simp
    with n show "n = 0" unfolding of_char_of by simp
  qed
  with 1 show ?case by (subst dec_digits.simps) auto
qed

lemma quad_field_digits: "n < 256 \<Longrightarrow> quad_field (dec_digits n) = Some (word_of_nat n)"
proof -
  assume "n < 256"
  moreover have "length (dec_digits n) = 1 \<or> hd (dec_digits n) \<noteq> CHR ''0''"
    using dec_digits_head [of n] by (cases "n = 0") (simp add: dec_digits.simps, simp)
  ultimately show ?thesis by (simp add: quad_field_def dec_digits_digits)
qed

lemma parse_quad_text: "parse_quad (quad_text a b c d) = Some [a, b, c, d]"
proof -
  have dot: "\<not> is_digit CHR ''.''" by (simp add: is_digit_def)
  have "split_at CHR ''.'' (quad_text a b c d) =
      [dec_digits (unat a), dec_digits (unat b), dec_digits (unat c), dec_digits (unat d)]"
    by (simp add: quad_text_def split_at_append split_at_plain dec_digits_free dot)
  then show ?thesis by (simp add: parse_quad_def quad_field_digits unat_byte_less)
qed

lemma parse_ip_quad_text: "parse_ip (quad_text a b c d) = Some [a, b, c, d]"
proof -
  have "\<not> is_digit CHR ''.''" by (simp add: is_digit_def)
  moreover have "filter (\<lambda>c. c = CHR ''.'' \<or> c = CHR '':'' \<or> c = CHR ''%'') (dec_digits n) = []" for n
    using dec_digits_digits [of n] by (auto simp: filter_empty_conv list_all_iff is_digit_def)
  ultimately have "filter (\<lambda>c. c = CHR ''.'' \<or> c = CHR '':'' \<or> c = CHR ''%'') (quad_text a b c d) = ''...''"
    by (simp add: quad_text_def)
  then show ?thesis by (simp add: parse_ip_def parse_quad_text)
qed

lemma quad_text_chars: "x \<in> set (quad_text a b c d) \<Longrightarrow> is_digit x \<or> x = CHR ''.''"
  using dec_digits_free by (auto simp: quad_text_def)

lemma quad_text_no_brackets: "x \<in> set (quad_text a b c d) \<Longrightarrow> x \<noteq> CHR ''['' \<and> x \<noteq> CHR '']'' \<and> x \<noteq> CHR '':''"
  using quad_text_chars [of x a b c d] by (auto simp: is_digit_def)

lemma dropWhile_free: "(\<And>x. x \<in> set s \<Longrightarrow> \<not> P x) \<Longrightarrow> dropWhile P s = s"
  by (cases s) auto

lemma trim_free: "set s \<inter> set cut_set = {} \<Longrightarrow> trim cut_set s = s"
  using dropWhile_free [of s "\<lambda>c. c \<in> set cut_set"] dropWhile_free [of "rev s" "\<lambda>c. c \<in> set cut_set"]
  by (simp add: trim_def trim_left_def trim_right_def disjoint_iff)

definition supervisor_networks :: guard where
  "supervisor_networks =
     [\<lparr> net_ip = [172, 30, 32, 0], net_mask = [255, 255, 254, 0] \<rparr>,
      \<lparr> net_ip = [127, 0, 0, 0], net_mask = [255, 0, 0, 0] \<rparr>,
      \<lparr> net_ip = replicate 15 0 @ [1], net_mask = replicate 16 255 \<rparr>]"

lemma new_guard_supervisor: "new_guard None = Inr supervisor_networks"
  by code_simp

lemma and_255 [simp]: "(255 :: byte) AND c = c" "c AND (255 :: byte) = c"
proof -
  have "(255 :: byte) = - 1" by simp
  then show "(255 :: byte) AND c = c" "c AND (255 :: byte) = c"
    by (simp_all only: and.left_neutral and.right_neutral)
qed

lemma mask_254: "(32 = c AND (254 :: byte)) \<longleftrightarrow> c = 32 \<or> c = 33"
proof
  assume a: "32 = c AND 254"
  have "(255 :: byte) = 254 OR 1" by simp
  then have "c = c AND (254 OR 1)" by (metis and_255(2))
  also have "c AND (254 OR 1) = (c AND 254) OR (c AND 1)" by (rule bit.conj_disj_distrib)
  also have "\<dots> = 32 OR (c mod 2)" by (simp only: a [symmetric] and_one_eq)
  finally have "c = 32 OR (c mod 2)" .
  moreover have "c mod 2 = 0 \<or> c mod 2 = 1" by (simp add: mod_2_eq_odd)
  then have "32 OR (c mod 2) = 32 \<or> 32 OR (c mod 2) = 33" by (elim disjE) (erule ssubst, simp)+
  ultimately show "c = 32 \<or> c = 33" by metis
qed auto

lemma all_255:
  "length x = n \<Longrightarrow> length nn = n \<Longrightarrow>
     list_all (\<lambda>(a, k, b). a AND k = b AND k) (zip nn (zip (replicate n (255 :: byte)) x)) \<longleftrightarrow> x = nn"
proof (induction n arbitrary: x nn)
  case 0
  then show ?case by simp
next
  case (Suc n)
  then obtain a as b bs where "x = a # as" "nn = b # bs" by (metis length_Suc_conv)
  with Suc show ?case by auto
qed

lemma contains_docker:
  "net_contains \<lparr> net_ip = [172, 30, 32, 0], net_mask = [255, 255, 254, 0] \<rparr> ip \<longleftrightarrow>
     (\<exists>c d. shortest ip = [172, 30, c, d] \<and> (c = 32 \<or> c = 33))"
  by (auto simp: net_contains_def shortest_def [of "[172, 30, 32, 0]"] to4_def [of "[172, 30, 32, 0]"]
      Let_def length_Suc_conv mask_254)

lemma contains_loopback:
  "net_contains \<lparr> net_ip = [127, 0, 0, 0], net_mask = [255, 0, 0, 0] \<rparr> ip \<longleftrightarrow>
     (\<exists>b c d. shortest ip = [127, b, c, d])"
  by (auto simp: net_contains_def shortest_def [of "[127, 0, 0, 0]"] to4_def [of "[127, 0, 0, 0]"]
      Let_def length_Suc_conv)

lemma contains_loopback6:
  "net_contains \<lparr> net_ip = replicate 15 0 @ [1], net_mask = replicate 16 255 \<rparr> ip \<longleftrightarrow>
     shortest ip = replicate 15 0 @ [1]"
proof -
  have s: "shortest (replicate 15 0 @ [1]) = replicate 15 0 @ [1]"
    by code_simp
  show ?thesis
    using all_255 [of "shortest ip" 16 "replicate 15 0 @ [1]"]
    by (auto simp: net_contains_def s Let_def)
qed

lemma supervisor_contains:
  "list_ex (\<lambda>n. net_contains n ip) supervisor_networks \<longleftrightarrow>
     (\<exists>c d. shortest ip = [172, 30, c, d] \<and> (c = 32 \<or> c = 33))
   \<or> (\<exists>b c d. shortest ip = [127, b, c, d]) \<or> shortest ip = replicate 15 0 @ [1]"
  unfolding supervisor_networks_def by (simp only: list_ex_iff list.set contains_docker
      contains_loopback contains_loopback6 bex_simps simp_thms)

lemma shortest_loopback6: "shortest ip = replicate 15 0 @ [1] \<longleftrightarrow> ip = replicate 15 0 @ [1]"
proof -
  have "to4 ip = Some q \<Longrightarrow> length q = 4" for q by (auto simp: to4_def split: if_splits)
  then have "shortest ip = replicate 15 0 @ [1] \<Longrightarrow> ip = replicate 15 0 @ [1]"
    by (auto simp: shortest_def split: option.splits)
  moreover have "shortest (replicate 15 0 @ [1]) = replicate 15 0 @ [1]" by code_simp
  ultimately show ?thesis by metis
qed

lemma host_of_quad:
  assumes "plain_port p"
  shows "split_host_port (quad_text a b c d @ '':'' @ p) = Some (quad_text a b c d, p)"
proof -
  have "CHR '':'' \<notin> set (quad_text a b c d)" "plain_host (quad_text a b c d)"
    by (auto simp: plain_host_def dest: quad_text_no_brackets)
  then show ?thesis
    using split_join_host_port [of "quad_text a b c d" p] assms by (simp add: join_host_port_def)
qed

lemma trim_quad_text: "trim ''[]'' (quad_text a b c d) = quad_text a b c d"
  by (intro trim_free) (auto dest: quad_text_no_brackets)

text \<open>The default guard (a nil network list) answers exactly the peers of the Supervisor's
  Docker network and of the loopback network: an IPv4 peer \<open>a.b.c.d:port\<close> is allowed exactly when
  it is in 172.30.32.0/23 or 127.0.0.0/8, whatever the port; any other remote address is allowed
  exactly when its host part parses to one of those addresses, in IPv4-mapped form included, or
  to ::1, so an address that does not parse is refused.\<close>

theorem supervisor_guard_exact:
  "\<exists>g. new_guard None = Inr g
     \<and> (\<forall>a b c d p. guard_allow (Some g) (quad_text a b c d @ '':'' @ itoa p) \<longleftrightarrow>
          a = 127 \<or> a = 172 \<and> b = 30 \<and> (c = 32 \<or> c = 33))
     \<and> (\<forall>remote. guard_allow (Some g) remote \<longleftrightarrow>
          (\<exists>ip. parse_ip (trim ''[]'' (case split_host_port remote of None \<Rightarrow> remote | Some (h, _) \<Rightarrow> h)) = Some ip
             \<and> ((\<exists>c d. shortest ip = [172, 30, c, d] \<and> (c = 32 \<or> c = 33))
                \<or> (\<exists>b c d. shortest ip = [127, b, c, d]) \<or> ip = replicate 15 0 @ [1])))"
proof (intro exI conjI allI)
  show "new_guard None = Inr supervisor_networks" by (rule new_guard_supervisor)
  have ne: "supervisor_networks \<noteq> []" by (simp add: supervisor_networks_def)
  show "guard_allow (Some supervisor_networks) (quad_text a b c d @ '':'' @ itoa p) \<longleftrightarrow>
      a = 127 \<or> a = 172 \<and> b = 30 \<and> (c = 32 \<or> c = 33)" for a b c d p
  proof -
    have "length [a, b, c] \<noteq> length (replicate 15 (0 :: byte))" by simp
    then have "[a, b, c] \<noteq> replicate 15 0" by metis
    with host_of_quad [OF plain_port_itoa [of p], of a b c d] show ?thesis
      by (auto simp: guard_allow_def ne trim_quad_text parse_ip_quad_text supervisor_contains
          shortest_def to4_def)
  qed
  show "guard_allow (Some supervisor_networks) remote \<longleftrightarrow>
      (\<exists>ip. parse_ip (trim ''[]'' (case split_host_port remote of None \<Rightarrow> remote | Some (h, _) \<Rightarrow> h)) = Some ip
         \<and> ((\<exists>c d. shortest ip = [172, 30, c, d] \<and> (c = 32 \<or> c = 33))
            \<or> (\<exists>b c d. shortest ip = [127, b, c, d]) \<or> ip = replicate 15 0 @ [1]))" for remote
    by (simp add: guard_allow_def ne supervisor_contains shortest_loopback6 Let_def split: option.split)
qed

end
