(* ===== verification/Ingress.thy ===== *)
theory Ingress
  imports Netguard
begin

text \<open>
  \<open>internal/ingress\<close>: the authenticating proxy between the Supervisor and go2rtc, and the gate
  (\<open>auth.go\<close>) the pairing pages share with it.

  A request is its method, decoded path, raw query, remote address and header.  \<open>serve\<close> is
  \<open>ServeHTTP\<close>: the answer is a refusal with its status code and text, or the request goes on to
  the reverse proxy (\<open>Next\<close>) with the response header prepared so far.  \<open>None\<close> would be a handler
  that never returns; \<open>serve_returns\<close> shows it does not happen.  \<open>url.Parse\<close> of the configured
  upstream is a parameter.  What go2rtc answers, and the copying of bodies by
  \<open>httputil.ReverseProxy\<close>, are outside the model; what the proxy makes of the request header is
  \<open>rewrite_header\<close>.
\<close>

record url =
  url_scheme :: string
  url_host :: string
  url_path :: string

record http_request =
  req_method :: string
  req_path :: string
  req_query :: string
  req_remote :: string
  req_header :: header

text \<open>An absolute http or https URL, as both the proxy and the image cache demand of go2rtc.\<close>

definition absolute_http :: "url option \<Rightarrow> bool" where
  "absolute_http u =
     (case u of None \<Rightarrow> False
      | Some u \<Rightarrow> (url_scheme u = ''http'' \<or> url_scheme u = ''https'') \<and> url_host u \<noteq> [])"

subsection \<open>The gate (auth.go)\<close>

definition user_id_header :: string where
  "user_id_header = ''X-Remote-User-Id''"

definition new_authenticator :: "string list option \<Rightarrow> string + guard" where
  "new_authenticator trusted_cidrs = new_guard trusted_cidrs"

text \<open>The refusal it writes, if any.\<close>

definition auth_refusal :: "guard \<Rightarrow> http_request \<Rightarrow> (nat \<times> string) option" where
  "auth_refusal g r =
     (if \<not> guard_allow (Some g) (req_remote r) then Some (403, ''forbidden'')
      else if header_get (req_header r) user_id_header = []
      then Some (401, ''unauthorized: open this add-on from the Home Assistant sidebar'')
      else None)"

definition set_security_headers :: "header \<Rightarrow> header" where
  "set_security_headers h =
     header_set ''X-Frame-Options'' ''SAMEORIGIN''
       (header_set ''Referrer-Policy'' ''no-referrer''
         (header_set ''X-Content-Type-Options'' ''nosniff'' h))"

definition auth_wrap :: "guard \<Rightarrow> http_request \<Rightarrow> header \<Rightarrow> header answer" where
  "auth_wrap g r h =
     (case auth_refusal g r of
        Some (code, msg) \<Rightarrow> Http_error code msg
      | None \<Rightarrow> Next (set_security_headers h))"

subsection \<open>The proxy's decisions (ingress.go)\<close>

definition blocked_paths :: "string list" where
  "blocked_paths = [''/api/config'', ''/api/exit'', ''/api/restart'', ''/api/streams'', ''/api/streams.dot'']"

record ingress_config =
  ic_upstream :: string
  ic_streams :: "string list"
  ic_trusted_cidrs :: "string list option"
  ic_require_user :: "bool option"

record handler =
  h_guard :: guard
  h_require_user :: bool
  h_streams :: "string set"

definition stream_set :: "string list \<Rightarrow> string set" where
  "stream_set names = set (filter (\<lambda>n. n \<noteq> []) names)"

definition new_handler :: "(string \<Rightarrow> url option) \<Rightarrow> ingress_config \<Rightarrow> string + handler" where
  "new_handler parse cfg =
     (if \<not> absolute_http (parse (ic_upstream cfg))
      then Inl ''ingress upstream must be an absolute http or https URL''
      else bind_sum (new_authenticator (ic_trusted_cidrs cfg)) (\<lambda>g.
        Inr \<lparr> h_guard = g,
              h_require_user = (case ic_require_user cfg of None \<Rightarrow> True | Some b \<Rightarrow> b),
              h_streams = stream_set (ic_streams cfg) \<rparr>))"

definition set_streams :: "string list \<Rightarrow> handler \<Rightarrow> handler" where
  "set_streams names h = h\<lparr> h_streams := stream_set names \<rparr>"

definition handler_allows :: "handler \<Rightarrow> string \<Rightarrow> bool" where
  "handler_allows h name \<longleftrightarrow> name \<in> h_streams h"

definition normalize_path :: "string \<Rightarrow> string option" where
  "normalize_path p =
     (if p = [] then Some ''/''
      else map_option
        (\<lambda>c. let cleaned = trim_suffix ''/'' c in if cleaned = [] then ''/'' else cleaned)
        (path_clean (if has_prefix ''/'' p then p else ''/'' @ p)))"

definition src_values :: "query \<Rightarrow> string list" where
  "src_values q = query_values q ''src'' @ query_values q ''source'' @ query_values q ''dst''"

text \<open>Why a request may not reach go2rtc; the inner \<open>None\<close> lets it pass.\<close>

definition refuse :: "handler \<Rightarrow> http_request \<Rightarrow> string option option" where
  "refuse h r =
     (case normalize_path (req_path r) of
        None \<Rightarrow> None
      | Some path \<Rightarrow> Some (
          if path \<in> set blocked_paths
          then Some ''this go2rtc endpoint is not exposed through the add-on''
          else if \<not> (req_method r = ''GET'' \<or> req_method r = ''HEAD'' \<or> req_method r = ''OPTIONS''
                     \<or> req_method r = ''POST'' \<and> (path = ''/api/webrtc'' \<or> path = ''/api/stream''))
          then Some ''the Web UI is read-only in this add-on''
          else if \<not> list_all (handler_allows h) (src_values (parse_query (req_query r)))
          then Some ''unknown stream''
          else None))"

definition gate_refusal :: "handler \<Rightarrow> http_request \<Rightarrow> (nat \<times> string) option" where
  "gate_refusal h r =
     (if h_require_user h then auth_refusal (h_guard h) r
      else if \<not> guard_allow (Some (h_guard h)) (req_remote r) then Some (403, ''forbidden'')
      else None)"

definition serve :: "handler \<Rightarrow> http_request \<Rightarrow> header \<Rightarrow> header answer option" where
  "serve h r out =
     (case gate_refusal h r of
        Some (code, msg) \<Rightarrow> Some (Http_error code msg)
      | None \<Rightarrow>
          (case refuse h r of
             None \<Rightarrow> None
           | Some (Some reason) \<Rightarrow> Some (Http_error 403 (''forbidden: '' @ reason))
           | Some None \<Rightarrow> Some (Next (set_security_headers out))))"

subsection \<open>What go2rtc sees of the request header\<close>

definition remote_user_headers :: "string list" where
  "remote_user_headers = [user_id_header, ''X-Remote-User-Name'', ''X-Remote-User-Display-Name'']"

text \<open>\<open>ProxyRequest.SetXForwarded\<close>, on an outgoing header from which \<open>ReverseProxy\<close> has already
  removed what the client sent: the client's address (\<open>None\<close> when it does not split), the host
  and the scheme it used.\<close>

definition set_x_forwarded :: "string option \<Rightarrow> string \<Rightarrow> bool \<Rightarrow> header \<Rightarrow> header" where
  "set_x_forwarded client host tls h =
     header_set ''X-Forwarded-Proto'' (if tls then ''https'' else ''http'')
       (header_set ''X-Forwarded-Host'' host
         (case client of
            None \<Rightarrow> header_del ''X-Forwarded-For'' h
          | Some ip \<Rightarrow> header_set ''X-Forwarded-For'' ip h))"

definition strip_forwarded :: "header \<Rightarrow> header" where
  "strip_forwarded h =
     header_del ''X-Forwarded-Proto'' (header_del ''X-Forwarded-Host''
       (header_del ''X-Forwarded-For'' (header_del ''Forwarded'' h)))"

definition copy_user_header :: "header \<Rightarrow> string \<Rightarrow> header \<Rightarrow> header" where
  "copy_user_header in_h name out_h =
     (if header_get in_h name \<noteq> [] then header_set name (header_get in_h name) out_h
      else header_del name out_h)"

definition rewrite_header :: "url \<Rightarrow> http_request \<Rightarrow> string \<Rightarrow> bool \<Rightarrow> header \<Rightarrow> header" where
  "rewrite_header target r host tls out_h =
     (let client = map_option fst (split_host_port (req_remote r));
          x = set_x_forwarded client host tls (strip_forwarded out_h);
          y = (if header_get (req_header r) ''Origin'' \<noteq> []
               then header_set ''Origin'' (url_scheme target @ ''://'' @ url_host target) x else x)
      in fold (copy_user_header (req_header r)) remote_user_headers y)"

definition proxy_error :: "header answer" where
  "proxy_error = Http_error 502 ''the media server is not available''"

subsection \<open>Paths\<close>

lemma path_elems_slash: "path_elems (slash # q) = path_elems q"
  by (simp add: path_elems_def)

lemma join_slash_last: "list_all plain_elem es \<Longrightarrow> es \<noteq> [] \<Longrightarrow> join_slash es \<noteq> [] \<and> last (join_slash es) \<noteq> slash"
proof (induction es)
  case Nil
  then show ?case by simp
next
  case (Cons e es)
  then have e: "e \<noteq> []" "last e \<noteq> slash" by (simp_all add: plain_elem_def) (metis last_in_set)
  with Cons show ?case by (cases "es = []") auto
qed

lemma trim_suffix_slash: "s \<noteq> [] \<Longrightarrow> last s \<noteq> slash \<Longrightarrow> trim_suffix ''/'' s = s"
  by (cases s rule: rev_cases) (auto simp: trim_suffix_def slash_def)

text \<open>C32: \<open>normalizePath\<close> returns for every path, and what it returns is the path resolved
  element by element: split at the slashes, empty and \<open>.\<close> elements dropped, each \<open>..\<close> taking the
  element before it away, and a lone slash when nothing is left.  So spellings of one endpoint
  that differ in doubled or trailing slashes, a missing leading slash or dot elements meet the
  block list under one name.\<close>

theorem normalize_path_resolves:
  "normalize_path p =
     Some (if path_elems p = [] then ''/'' else join_slash (path_elems p))"
proof -
  define q where "q = (if has_prefix ''/'' p then tl p else p)"
  have pq: "(if has_prefix ''/'' p then p else ''/'' @ p) = slash # q" if "p \<noteq> []"
    using that by (cases p) (auto simp: q_def has_prefix_def slash_def)
  have el: "path_elems q = path_elems p"
    by (cases p) (auto simp: q_def has_prefix_def path_elems_slash slash_def [symmetric])
  show ?thesis
  proof (cases "p = []")
    case True
    then show ?thesis by (simp add: normalize_path_def path_elems_def)
  next
    case False
    have "normalize_path p = Some (let cleaned = trim_suffix ''/'' (if path_elems p = [] then [slash] else join_slash (path_elems p))
        in if cleaned = [] then ''/'' else cleaned)"
      using False by (simp add: normalize_path_def pq path_clean_rooted el)
    also have "\<dots> = Some (if path_elems p = [] then ''/'' else join_slash (path_elems p))"
      using join_slash_last [OF path_elems_plain, of p] trim_suffix_slash [of "join_slash (path_elems p)"]
      by (auto simp: Let_def) (simp_all add: trim_suffix_def slash_def)
    finally show ?thesis .
  qed
qed

subsection \<open>Which requests reach go2rtc\<close>

interpretation ingress_streams: allow_list set_streams handler_allows "\<lambda>_. True"
  by unfold_locales (auto simp: set_streams_def handler_allows_def stream_set_def)

text \<open>The endpoints of the block list, and those a POST may name, as path elements.\<close>

definition blocked_elems :: "string list list" where
  "blocked_elems = map path_elems blocked_paths"

definition negotiation_elems :: "string list list" where
  "negotiation_elems = [[''api'', ''webrtc''], [''api'', ''stream'']]"

definition read_method :: "string \<Rightarrow> bool" where
  "read_method m \<longleftrightarrow> m = ''GET'' \<or> m = ''HEAD'' \<or> m = ''OPTIONS''"

definition norm_text :: "string list \<Rightarrow> string" where
  "norm_text es = (if es = [] then ''/'' else join_slash es)"

lemma norm_text_inject:
  assumes "list_all plain_elem es" and "list_all plain_elem fs" and "norm_text es = norm_text fs"
  shows "es = fs"
proof -
  have "path_elems (norm_text es) = es" if "list_all plain_elem es" for es
    using that path_elems_join [of es] by (auto simp: norm_text_def path_elems_def slash_def)
  with assms show ?thesis by metis
qed

lemma norm_text_endpoints:
  "norm_text (path_elems p) \<in> set blocked_paths \<longleftrightarrow> path_elems p \<in> set blocked_elems"
  "norm_text (path_elems p) = ''/api/webrtc'' \<longleftrightarrow> path_elems p = [''api'', ''webrtc'']"
  "norm_text (path_elems p) = ''/api/stream'' \<longleftrightarrow> path_elems p = [''api'', ''stream'']"
proof -
  have b: "blocked_paths = map norm_text blocked_elems" "list_all (list_all plain_elem) blocked_elems"
    by code_simp+
  have n: "''/api/webrtc'' = norm_text [''api'', ''webrtc'']" "''/api/stream'' = norm_text [''api'', ''stream'']"
      "list_all plain_elem [''api'', ''webrtc'']" "list_all plain_elem [''api'', ''stream'']"
    by code_simp+
  note inj = norm_text_inject [OF path_elems_plain]
  show "norm_text (path_elems p) \<in> set blocked_paths \<longleftrightarrow> path_elems p \<in> set blocked_elems"
  proof -
    have "set blocked_paths = norm_text ` set blocked_elems" by (simp only: b(1) set_map)
    moreover have "es \<in> set blocked_elems \<Longrightarrow> list_all plain_elem es" for es
      using b(2) by (simp only: list_all_iff [of _ blocked_elems])
    ultimately show ?thesis using inj by blast
  qed
  show "norm_text (path_elems p) = ''/api/webrtc'' \<longleftrightarrow> path_elems p = [''api'', ''webrtc'']"
    using n(1,3) inj by metis
  show "norm_text (path_elems p) = ''/api/stream'' \<longleftrightarrow> path_elems p = [''api'', ''stream'']"
    using n(2,4) inj by metis
qed

lemma refuse_cases:
  "refuse h r = Some (
     if path_elems (req_path r) \<in> set blocked_elems
     then Some ''this go2rtc endpoint is not exposed through the add-on''
     else if \<not> (read_method (req_method r)
                \<or> req_method r = ''POST'' \<and> path_elems (req_path r) \<in> set negotiation_elems)
     then Some ''the Web UI is read-only in this add-on''
     else if \<not> list_all (handler_allows h) (src_values (parse_query (req_query r)))
     then Some ''unknown stream'' else None)"
proof -
  have "normalize_path (req_path r) = Some (norm_text (path_elems (req_path r)))"
    by (simp add: normalize_path_resolves norm_text_def)
  then show ?thesis
    unfolding refuse_def negotiation_elems_def read_method_def
    by (simp only: option.case norm_text_endpoints list.set insert_iff empty_iff simp_thms disj_assoc)
qed

lemma security_headers_set:
  "set_security_headers out = out(''X-Content-Type-Options'' := [''nosniff''],
     ''Referrer-Policy'' := [''no-referrer''], ''X-Frame-Options'' := [''SAMEORIGIN''])"
  by (simp add: set_security_headers_def go_simps fun_eq_iff)

lemma serve_proxied:
  "(\<exists>out'. serve h r out = Some (Next out')) \<longleftrightarrow>
     guard_allow (Some (h_guard h)) (req_remote r)
   \<and> (\<not> h_require_user h \<or> header_get (req_header r) user_id_header \<noteq> [])
   \<and> path_elems (req_path r) \<notin> path_elems ` set blocked_paths
   \<and> (read_method (req_method r)
      \<or> req_method r = ''POST'' \<and> path_elems (req_path r) \<in> set negotiation_elems)
   \<and> set (src_values (parse_query (req_query r))) \<subseteq> h_streams h"
proof -
  have g: "gate_refusal h r = None \<longleftrightarrow> guard_allow (Some (h_guard h)) (req_remote r)
      \<and> (\<not> h_require_user h \<or> header_get (req_header r) user_id_header \<noteq> [])"
    by (simp add: gate_refusal_def auth_refusal_def)
  have f: "refuse h r = Some None \<longleftrightarrow>
      path_elems (req_path r) \<notin> path_elems ` set blocked_paths
    \<and> (read_method (req_method r)
       \<or> req_method r = ''POST'' \<and> path_elems (req_path r) \<in> set negotiation_elems)
    \<and> set (src_values (parse_query (req_query r))) \<subseteq> h_streams h"
    unfolding refuse_cases by (auto simp: blocked_elems_def list_all_iff handler_allows_def)
  have "(\<exists>out'. serve h r out = Some (Next out')) \<longleftrightarrow> gate_refusal h r = None \<and> refuse h r = Some None"
    by (auto simp: serve_def split: option.splits)
  then show ?thesis using g f by blast
qed


definition sample_handler :: handler where
  "sample_handler =
     \<lparr> h_guard = supervisor_networks, h_require_user = True, h_streams = {''nursery''} \<rparr>"

definition sample_request :: http_request where
  "sample_request =
     \<lparr> req_method = ''GET'', req_path = ''//api/./ws'', req_query = ''src=nurs%65ry&mode=mse'',
       req_remote = ''172.30.32.2:40000'',
       req_header = header_set user_id_header ''1'' (\<lambda>_. []) \<rparr>"


text \<open>C39: every request to the media proxy returns, and this is its answer.  An untrusted peer is
  answered 403 and learns nothing else; a trusted one without the user header, where that is
  demanded, 401 and no other status; then, always 403, a blocked endpoint however its path is
  spelled, a method that is neither a read nor a POST to one of the two negotiation endpoints,
  and a stream that is not configured, in this order and with its own message; everything else
  is proxied, with the three security headers set and every other header as it was.\<close>

theorem serve_returns:
  "serve h r out = Some (
     if \<not> guard_allow (Some (h_guard h)) (req_remote r) then Http_error 403 ''forbidden''
     else if h_require_user h \<and> header_get (req_header r) user_id_header = []
     then Http_error 401 ''unauthorized: open this add-on from the Home Assistant sidebar''
     else if path_elems (req_path r) \<in> path_elems ` set blocked_paths
     then Http_error 403 ''forbidden: this go2rtc endpoint is not exposed through the add-on''
     else if \<not> (read_method (req_method r)
                \<or> req_method r = ''POST'' \<and> path_elems (req_path r) \<in> set negotiation_elems)
     then Http_error 403 ''forbidden: the Web UI is read-only in this add-on''
     else if \<not> set (src_values (parse_query (req_query r))) \<subseteq> h_streams h
     then Http_error 403 ''forbidden: unknown stream''
     else Next (out(''X-Content-Type-Options'' := [''nosniff''],
                    ''Referrer-Policy'' := [''no-referrer''],
                    ''X-Frame-Options'' := [''SAMEORIGIN''])))"
proof -
  have streams: "list_all (handler_allows h) vs \<longleftrightarrow> set vs \<subseteq> h_streams h" for vs
    by (auto simp: list_all_iff handler_allows_def)
  have blocked: "set blocked_elems = path_elems ` set blocked_paths" by (simp add: blocked_elems_def)
  show ?thesis
    unfolding serve_def gate_refusal_def auth_refusal_def refuse_cases streams blocked
    by (simp add: security_headers_set)
qed

text \<open>After a reload hands over a new stream list, a request is proxied only if every stream it
  names is a non-empty name of that list; nothing else about the proxy changed.\<close>

theorem set_streams_takes_over:
  "(\<exists>out'. serve (set_streams ns h) r out = Some (Next out')) \<longleftrightarrow>
     (\<exists>out'. serve (h\<lparr> h_streams := UNIV \<rparr>) r out = Some (Next out'))
   \<and> (\<forall>v. v \<in> set (src_values (parse_query (req_query r))) \<longrightarrow> v \<noteq> [] \<and> v \<in> set ns)"
proof -
  have "v \<in> h_streams (set_streams ns h) \<longleftrightarrow> v \<noteq> [] \<and> v \<in> set ns" for v
    using ingress_streams.allows_set [of ns h v] by (simp add: handler_allows_def)
  then have "set (src_values q) \<subseteq> h_streams (set_streams ns h) \<longleftrightarrow>
      (\<forall>v. v \<in> set (src_values q) \<longrightarrow> v \<noteq> [] \<and> v \<in> set ns)" for q by blast
  moreover have "h_guard (set_streams ns h) = h_guard h" "h_require_user (set_streams ns h) = h_require_user h"
    by (simp_all add: set_streams_def)
  ultimately show ?thesis unfolding serve_proxied by simp
qed


theorem set_streams_takes_over_witness:
  "\<not> (\<exists>out'. serve (set_streams [''lounge'', []] sample_handler) sample_request (\<lambda>_. []) = Some (Next out'))"
proof -
  have "''nursery'' \<in> set (src_values (parse_query (req_query sample_request)))" by code_simp
  moreover have "''nursery'' \<notin> set [''lounge'', []]" by simp
  ultimately show ?thesis
    using set_streams_takes_over [of "[''lounge'', []]" sample_handler sample_request "\<lambda>_. []"] by blast
qed

subsection \<open>Whose headers go2rtc sees\<close>

text \<open>However often a client repeats a header and whatever it names as hop-by-hop, go2rtc sees
  each of the three user headers at most once, with the first value the request carried, and
  none of them when that is empty; the forwarding headers name the peer itself, and an Origin is
  replaced by the upstream's own.\<close>

theorem rewrite_header_exact:
  "let h = rewrite_header target r host tls out_h; i = req_header r;
       once = (\<lambda>n. if header_get i n = [] then [] else [header_get i n])
   in h ''X-Remote-User-Id'' = once ''X-Remote-User-Id''
    \<and> h ''X-Remote-User-Name'' = once ''X-Remote-User-Name''
    \<and> h ''X-Remote-User-Display-Name'' = once ''X-Remote-User-Display-Name''
    \<and> h ''X-Forwarded-For'' = (case split_host_port (req_remote r) of None \<Rightarrow> [] | Some (ip, _) \<Rightarrow> [ip])
    \<and> h ''Forwarded'' = []
    \<and> h ''Origin'' = (if header_get i ''Origin'' = [] then out_h ''Origin''
                      else [url_scheme target @ ''://'' @ url_host target])"
proof -
  have c: "copy_user_header i n h m =
      (if m = n then if header_get i n = [] then [] else [header_get i n] else h m)" for i n h m
    by (simp add: copy_user_header_def header_set_def header_del_def)
  show ?thesis
    unfolding rewrite_header_def Let_def remote_user_headers_def user_id_header_def
    by (simp add: c) (auto simp: set_x_forwarded_def strip_forwarded_def header_set_def header_del_def
        split: option.split)
qed

end
