(* ===== verification/Account_Protocol.thy ===== *)
theory Account_Protocol
  imports Go_Http Digest
begin

text \<open>
  \<open>internal/fivegencare/protocol.go\<close>: the lines of the account service, printed and parsed.

  A command is \<open>None\<close> when a value cannot stand in it.  The device list keeps the 64-bit
  arithmetic of its length check and the allocation that follows it, because the count it uses is
  the server's: \<open>DlPanic\<close> is the run-time panic of \<open>make\<close>.
\<close>

definition account_default_host :: string where
  "account_default_host = ''primary.moto.5gencare.com''"

definition account_default_port :: int where "account_default_port = 3388"
definition account_target_port :: int where "account_target_port = 6667"
definition device_api_port :: int where "device_api_port = 2288"

record session =
  se_user :: int
  se_token :: string
  se_master :: string
  se_id :: string
  se_domain :: string

record device =
  dv_id :: "32 word"
  dv_udid :: string
  dv_model :: string
  dv_name :: string
  dv_token :: string
  dv_sid :: string
  dv_country :: string

subsection \<open>Commands\<close>

definition field_breakers :: string where
  "field_breakers = '' '' @ [CHR 0x0D, CHR 0x0A, CHR 0x09]"

definition single_field :: "string \<Rightarrow> bool" where
  "single_field v \<longleftrightarrow> v \<noteq> [] \<and> list_all (\<lambda>c. c \<notin> set field_breakers) v"

definition account_command :: "string \<Rightarrow> string list \<Rightarrow> string option" where
  "account_command name vs =
     (if \<not> single_field name then None
      else if \<not> list_all single_field vs then None
      else Some (name @ '' '' @ join_sp vs @ [CHR 0x0A]))"

definition otp_command :: "string \<Rightarrow> string \<Rightarrow> string option" where
  "otp_command uuid email = account_command ''v3_otp'' [uuid, ''email'', email, ''6'']"

definition login_set_command :: "int \<Rightarrow> string \<Rightarrow> string \<Rightarrow> string \<Rightarrow> string option" where
  "login_set_command user uuid email pin =
     account_command ''v3_loginset'' [itoa user, uuid, ''email'', email, pin]"

definition session_command :: "session \<Rightarrow> string option" where
  "session_command s = account_command ''v3_session'' [itoa (se_user s), se_token s, se_id s]"

definition secret_command :: "string \<Rightarrow> string option" where
  "secret_command k = account_command ''secret'' [k]"

subsection \<open>Answers\<close>

datatype login_error = UnexpectedLogin | LoginFailed string

definition parse_login :: "string \<Rightarrow> login_error + session" where
  "parse_login line =
     (let f = str_fields line
      in if length f < 6 \<or> f ! 0 \<notin> {''v3_login'', ''v3_loginset'', ''v3_session''} then Inl UnexpectedLogin
         else (case atoi (f ! 1) of
             None \<Rightarrow> Inl (LoginFailed (f ! 1))
           | Some uid \<Rightarrow>
               if uid \<le> 0 then Inl (LoginFailed (f ! 1))
               else Inr \<lparr> se_user = uid, se_token = f ! 2, se_master = f ! 3, se_id = f ! 4, se_domain = f ! 5 \<rparr>))"

definition parse_redirect :: "string \<Rightarrow> string \<Rightarrow> string option" where
  "parse_redirect line name =
     (let f = str_fields line
      in if length f \<ge> 3 \<and> f ! 0 = name \<and> f ! 1 = ''-6'' then Some (f ! 2) else None)"

definition parse_secret :: "string \<Rightarrow> string option" where
  "parse_secret line =
     (let f = str_fields line
      in if length f < 3 \<or> f ! 0 \<noteq> ''secret'' \<or> f ! 1 \<noteq> ''1'' then None else Some (f ! 2))"

text \<open>\<open>make\<close> panics when the capacity in bytes is past what the run-time can address (2^48 on
  64-bit Linux); a \<open>Device\<close> takes 104 bytes.\<close>

definition max_devices :: int where
  "max_devices = 2 ^ 48 div 104"

datatype device_list_result =
    DlDevices "device list"
  | DlUnexpected
  | DlBadCount string
  | DlFields int int
  | DlBadId nat
  | DlBadName nat
  | DlPanic

definition parse_device :: "nat \<Rightarrow> string list \<Rightarrow> device_list_result + device" where
  "parse_device i p =
     (case parse_uint 32 (p ! 0) of
        None \<Rightarrow> Inl (DlBadId i)
      | Some n \<Rightarrow>
          (case query_unescape (p ! 3) of
             None \<Rightarrow> Inl (DlBadName i)
           | Some name \<Rightarrow> Inr \<lparr> dv_id = word_of_nat n, dv_udid = p ! 1, dv_model = p ! 2, dv_name = name,
               dv_token = p ! 4, dv_sid = p ! 5, dv_country = p ! 6 \<rparr>))"

fun device_loop :: "nat \<Rightarrow> nat \<Rightarrow> string list \<Rightarrow> device list \<Rightarrow> device_list_result" where
  "device_loop i 0 f ds = DlDevices ds"
| "device_loop i (Suc left) f ds =
     (case parse_device i (take 7 (drop (2 + i * 7) f)) of
        Inl e \<Rightarrow> e
      | Inr d \<Rightarrow> device_loop (Suc i) left f (ds @ [d]))"

definition parse_device_list :: "string \<Rightarrow> device_list_result" where
  "parse_device_list line =
     (let f = str_fields line
      in if length f < 2 \<or> f ! 0 \<noteq> ''v3_dlist'' then DlUnexpected
         else (case atoi (f ! 1) of
             None \<Rightarrow> DlBadCount (f ! 1)
           | Some count \<Rightarrow>
               if count < 0 then DlBadCount (f ! 1)
               else (let want = wrap64 (2 + wrap64 (count * 7))
                     in if int (length f) \<noteq> want then DlFields (int (length f)) want
                        else if count > max_devices then DlPanic
                        else device_loop 0 (nat count) f [])))"

definition owner_access_token :: "string \<Rightarrow> string" where
  "owner_access_token token = hex_encode (sha1 (map of_char (token @ ''5GenCare.com'')))"

subsection \<open>A command is one line of the fields it was given\<close>

lemma split_at_join_sp:
  "vs \<noteq> [] \<Longrightarrow> list_all single_field vs \<Longrightarrow> split_at CHR '' '' (join_sp vs) = vs"
  by (rule split_at_join) (auto simp: list_all_iff single_field_def field_breakers_def)

lemma single_field_free:
  "single_field v \<Longrightarrow> c \<in> set v \<Longrightarrow> c \<noteq> CHR '' '' \<and> c \<noteq> CHR 0x0D \<and> c \<noteq> CHR 0x0A \<and> c \<noteq> CHR 0x09"
  by (auto simp: single_field_def field_breakers_def list_all_iff)

lemma join_sp_free:
  "list_all single_field vs \<Longrightarrow> c \<in> set (join_sp vs) \<Longrightarrow> c \<noteq> CHR 0x0D \<and> c \<noteq> CHR 0x0A \<and> c \<noteq> CHR 0x09"
  by (induction vs rule: join_sp.induct) (auto dest: single_field_free)

text \<open>Whatever a user types as an email address or a code, and whatever a server or the stored
  state put into a token, the command sent is one line: a single newline at its end, no carriage
  return or tab, and split at the blanks it is the command's name and exactly the values given.
  A value with a blank, a line break or nothing in it is refused before anything is sent.\<close>

theorem command_is_one_line:
  "case account_command name (v # vs) of
     None \<Rightarrow> \<not> (single_field name \<and> list_all single_field (v # vs))
   | Some wire \<Rightarrow> \<exists>line. wire = line @ [CHR 0x0A] \<and> split_at CHR '' '' line = name # v # vs
       \<and> set line \<inter> {CHR 0x0A, CHR 0x0D, CHR 0x09} = {}"
proof (cases "account_command name (v # vs)")
  case None
  then show ?thesis by (auto simp: account_command_def split: if_splits)
next
  case (Some wire)
  then have n: "single_field name" and v: "list_all single_field (v # vs)"
    and w: "wire = (name @ '' '' @ join_sp (v # vs)) @ [CHR 0x0A]"
    by (auto simp: account_command_def split: if_splits)
  have "CHR '' '' \<notin> set name" using n single_field_free by blast
  then have "split_at CHR '' '' (name @ '' '' @ join_sp (v # vs)) = name # v # vs"
    using split_at_append [of "CHR '' ''" name "join_sp (v # vs)"] split_at_join_sp [OF _ v] by simp
  moreover have "set (name @ '' '' @ join_sp (v # vs)) \<inter> {CHR 0x0A, CHR 0x0D, CHR 0x09} = {}"
    using single_field_free [OF n] join_sp_free [OF v] by auto
  ultimately show ?thesis using Some w by auto
qed

subsection \<open>The device list\<close>

text \<open>The line a server sends for a list of devices.\<close>

definition device_fields :: "device \<Rightarrow> string list" where
  "device_fields d = [dec_digits (unat (dv_id d)), dv_udid d, dv_model d, query_escape (dv_name d),
     dv_token d, dv_sid d, dv_country d]"

definition device_list_line :: "device list \<Rightarrow> string" where
  "device_list_line ds =
     join_sp ([''v3_dlist'', dec_digits (length ds)] @ concat (map device_fields ds)) @ [CHR 0x0A]"

definition sendable :: "device list \<Rightarrow> bool" where
  "sendable ds \<longleftrightarrow> length ds < 2 ^ 32 \<and>
     list_all (\<lambda>d. word_field (dv_udid d) \<and> word_field (dv_model d) \<and> dv_name d \<noteq> []
       \<and> word_field (dv_token d) \<and> word_field (dv_sid d) \<and> word_field (dv_country d)) ds"

lemma printable_escape: "list_all printable (query_escape s)"
proof -
  have "printable (upper_hex d)" if "d < 16" for d
    using that by (auto simp: upper_hex_def printable_def)
  moreover have "ord c div 16 < 16" for c :: char using ord_less_256 [of c] by arith
  moreover have "unreserved c \<Longrightarrow> printable c" for c
    by (auto simp: unreserved_def printable_def Let_def)
  ultimately have "list_all printable (escape_char c)" for c
    by (simp add: escape_char_def printable_def)
  then show ?thesis by (induction s) (simp_all add: query_escape_def)
qed

lemma escape_nonempty: "s \<noteq> [] \<Longrightarrow> query_escape s \<noteq> []"
  by (cases s) (auto simp: query_escape_def escape_char_def)

lemma length_device_fields [simp]: "length (device_fields d) = 7"
  by (simp add: device_fields_def)

lemma length_concat_fields: "length (concat (map device_fields ds)) = 7 * length ds"
  by (induction ds) auto

lemma sendable_fields:
  "sendable ds \<Longrightarrow> list_all word_field ([''v3_dlist'', dec_digits (length ds)] @ concat (map device_fields ds))"
proof -
  assume s: "sendable ds"
  have "list_all word_field (device_fields d)" if "d \<in> set ds" for d
    using s that dec_digits_word_field printable_escape escape_nonempty
    by (auto simp: sendable_def list_all_iff device_fields_def word_field_def)
  then have "list_all word_field (concat (map device_fields ds))" by (auto simp: list_all_iff)
  then show ?thesis using dec_digits_word_field by (simp add: word_field_def printable_def)
qed

lemma parse_device_fields: "parse_device i (device_fields d) = Inr d"
proof -
  have "unat (dv_id d) < 2 ^ 32" using unsigned_less [of "dv_id d", where 'a = nat] by simp
  then show ?thesis by (simp add: parse_device_def device_fields_def parse_uint_dec_digits)
qed

lemma fields_of_device:
  "i < length ds \<Longrightarrow> take 7 (drop (i * 7) (concat (map device_fields ds))) = device_fields (ds ! i)"
proof (induction ds arbitrary: i)
  case Nil
  then show ?case by simp
next
  case (Cons d ds)
  then show ?case by (cases i) auto
qed

lemma device_loop_fields:
  "i + left = length ds \<Longrightarrow> length h = 2 \<Longrightarrow>
     device_loop i left (h @ concat (map device_fields ds)) (take i ds) = DlDevices ds"
proof (induction left arbitrary: i)
  case 0
  then show ?case by simp
next
  case (Suc left)
  then have i: "i < length ds" by simp
  have "take 7 (drop (2 + i * 7) (h @ concat (map device_fields ds))) = device_fields (ds ! i)"
    using fields_of_device [OF i] Suc.prems(2) by simp
  moreover have "take i ds @ [ds ! i] = take (Suc i) ds" using i by (simp add: take_Suc_conv_app_nth)
  ultimately show ?case using Suc by (simp add: parse_device_fields)
qed

lemma str_fields_device_list:
  "sendable ds \<Longrightarrow> str_fields (device_list_line ds) = [''v3_dlist'', dec_digits (length ds)] @ concat (map device_fields ds)"
  unfolding device_list_line_def by (rule fields_join_nl) (rule sendable_fields)

lemma parse_device_list_line:
  assumes "sendable ds"
  shows "parse_device_list (device_list_line ds) = DlDevices ds"
proof -
  have l: "length ds < 2 ^ 32" using assms by (simp add: sendable_def)
  have "atoi (dec_digits (length ds)) = Some (int (length ds))"
    using atoi_itoa [of "int (length ds)"] l by (simp add: itoa_def)
  moreover have "wrap64 (int (length ds) * 7) = int (length ds) * 7"
    using l by (intro wrap64_id) auto
  moreover have "wrap64 (2 + int (length ds) * 7) = 2 + int (length ds) * 7"
    using l by (intro wrap64_id) auto
  moreover have "\<not> int (length ds) > max_devices" using l by (simp add: max_devices_def)
  moreover have "device_loop 0 (length ds) ([''v3_dlist'', dec_digits (length ds)] @ concat (map device_fields ds)) [] = DlDevices ds"
    using device_loop_fields [of 0 "length ds" ds "[''v3_dlist'', dec_digits (length ds)]"] by simp
  ultimately show ?thesis
    by (simp add: parse_device_list_def str_fields_device_list [OF assms] length_concat_fields)
qed

text \<open>The device list as a wire format: parsing inverts printing, so printing is injective.\<close>

interpretation device_list_wire: wire_format sendable device_list_line
  "\<lambda>line. case parse_device_list line of DlDevices ds \<Rightarrow> Inr ds | e \<Rightarrow> Inl e"
  by unfold_locales (simp add: parse_device_list_line)

text \<open>The parser reads back every device list a server can send in these fields, ids, tokens and
  percent-encoded names of any bytes included, in the order sent.\<close>

theorem device_list_roundtrip:
  assumes "sendable ds"
  shows "parse_device_list (device_list_line ds) = DlDevices ds"
  using parse_device_list_line [OF assms] .

definition sample_device :: device where
  "sample_device = \<lparr> dv_id = 7, dv_udid = ''U1'', dv_model = ''VM65'', dv_name = ''Baby room'', dv_token = ''tok'',
     dv_sid = ''sid'', dv_country = ''NL'' \<rparr>"

theorem device_list_roundtrip_witness:
  "parse_device_list (device_list_line [sample_device]) = DlDevices [sample_device]"
  by (rule device_list_roundtrip) code_simp

text \<open>A device list whose announced count times seven wraps around at 64 bits to the number of
  fields sent passes the length check, and allocating room for that many devices panics instead
  of the list being refused.\<close>

theorem device_list_overflow_panics:
  "parse_device_list (''v3_dlist 7905747460161236407 x'' @ [CHR 0x0A]) = DlPanic"
proof -
  have f: "str_fields (''v3_dlist 7905747460161236407 x'' @ [CHR 0x0A]) = [''v3_dlist'', ''7905747460161236407'', ''x'']"
    by code_simp
  have a: "atoi ''7905747460161236407'' = Some 7905747460161236407" by code_simp
  show ?thesis
    unfolding parse_device_list_def Let_def f by (simp add: a wrap64_def max_devices_def)
qed

end
