(* ===== verification/Account_Client.thy ===== *)
theory Account_Client
  imports Account_Protocol
begin

text \<open>
  \<open>internal/fivegencare/client.go\<close>: the exchanges with the account service.

  What the network does is a script: whether a connection opens, and what comes of each exchange
  on it.  Every function returns its result with the trace of what it did to the network, so that
  a leaked connection or a request too many is visible.  A failed \<open>AeList DlPanic\<close> is the panic of
  \<open>ParseDeviceList\<close>, which unwinds past the \<open>Close\<close>.
\<close>

definition default_exchange_timeout :: int where
  "default_exchange_timeout = 10 * second"

record account_client =
  cl_host :: string
  cl_port :: int
  cl_timeout :: int

record otp_challenge =
  oc_user :: int
  oc_domain :: string

datatype account_error =
    AeCommand
  | AeDial string
  | AeExchange string
  | AeUnexpected
  | AeStatus string
  | AeRejected string
  | AeRedirects
  | AeLogin login_error
  | AeSecret
  | AeRandom
  | AeList device_list_result
  | AeNoToken

datatype account_act = Dialled string | SentLine string | Hung_up

record exchange =
  ex_deadline_err :: "string option"
  ex_write_err :: "string option"
  ex_line :: "string + string"

definition client_timeout :: "account_client \<Rightarrow> int" where
  "client_timeout c = (if cl_timeout c > 0 then cl_timeout c else default_exchange_timeout)"

definition client_host :: "account_client \<Rightarrow> string" where
  "client_host c = (if cl_host c \<noteq> [] then cl_host c else account_default_host)"

definition exchange_deadline :: "account_client \<Rightarrow> int \<Rightarrow> int option \<Rightarrow> int" where
  "exchange_deadline c now ctx =
     (let deadline = now + client_timeout c
      in case ctx of None \<Rightarrow> deadline | Some d \<Rightarrow> if d < deadline then d else deadline)"

definition dial_address :: "account_client \<Rightarrow> string \<Rightarrow> string" where
  "dial_address c host =
     join_host_port host (itoa (if cl_port c = 0 then account_default_port else cl_port c))"

text \<open>The deadline is set first, so a silent server ends in a read error.\<close>

definition write_read :: "exchange \<Rightarrow> string \<Rightarrow> (string + string) \<times> account_act list" where
  "write_read s wire =
     (case ex_deadline_err s of
        Some e \<Rightarrow> (Inl e, [])
      | None \<Rightarrow>
          (case ex_write_err s of
             Some e \<Rightarrow> (Inl e, [])
           | None \<Rightarrow>
               (case ex_line s of
                  Inl e \<Rightarrow> (Inl e, [SentLine wire])
                | Inr line \<Rightarrow> (Inr (trim_right [CHR 0x0D, CHR 0x0A] line), [SentLine wire]))))"

record one_shot =
  os_dial_err :: "string option"
  os_exchange :: exchange

definition client_exchange :: "account_client \<Rightarrow> one_shot \<Rightarrow> string \<Rightarrow> string \<Rightarrow> (account_error + string) \<times> account_act list" where
  "client_exchange c s host wire =
     (case os_dial_err s of
        Some e \<Rightarrow> (Inl (AeDial e), [])
      | None \<Rightarrow>
          (case write_read (os_exchange s) wire of
             (Inl e, acts) \<Rightarrow> (Inl (AeExchange e), Dialled (dial_address c host) # acts @ [Hung_up])
           | (Inr line, acts) \<Rightarrow> (Inr line, Dialled (dial_address c host) # acts @ [Hung_up])))"

subsection \<open>Requesting a code and logging in\<close>

definition read_otp :: "string \<Rightarrow> string \<Rightarrow> account_error + otp_challenge" where
  "read_otp host line =
     (let f = str_fields line
      in if length f < 3 \<or> f ! 0 \<noteq> ''v3_otp'' then Inl AeUnexpected
         else (case atoi (f ! 1) of
             None \<Rightarrow> Inl (AeStatus (f ! 1))
           | Some uid \<Rightarrow> if uid \<le> 0 then Inl (AeStatus (f ! 1)) else Inr \<lparr> oc_user = uid, oc_domain = host \<rparr>))"

definition read_login :: "string \<Rightarrow> string \<Rightarrow> account_error + session" where
  "read_login host line =
     (case parse_login line of
        Inl e \<Rightarrow> Inl (AeLogin e)
      | Inr s \<Rightarrow> Inr (if se_domain s = [] then s\<lparr> se_domain := host \<rparr> else s))"

text \<open>The loop both share: at most \<open>left\<close> servers, each of which answers or names the next.\<close>

fun redirect_loop ::
    "nat \<Rightarrow> nat \<Rightarrow> account_client \<Rightarrow> (nat \<Rightarrow> one_shot) \<Rightarrow> string \<Rightarrow> (string \<Rightarrow> string \<Rightarrow> account_error + 'a)
      \<Rightarrow> string \<Rightarrow> string \<Rightarrow> (account_error + 'a) \<times> account_act list" where
  "redirect_loop 0 i c sc name read wire host = (Inl AeRedirects, [])"
| "redirect_loop (Suc left) i c sc name read wire host =
     (case client_exchange c (sc i) host wire of
        (Inl e, acts) \<Rightarrow> (Inl e, acts)
      | (Inr line, acts) \<Rightarrow>
          (case parse_redirect line name of
             Some hop \<Rightarrow>
               (case redirect_loop left (Suc i) c sc name read wire hop of (r, rest) \<Rightarrow> (r, acts @ rest))
           | None \<Rightarrow> (read host line, acts)))"

definition request_otp ::
    "account_client \<Rightarrow> (nat \<Rightarrow> one_shot) \<Rightarrow> string \<Rightarrow> string \<Rightarrow> (account_error + otp_challenge) \<times> account_act list" where
  "request_otp c sc uuid email =
     (case otp_command uuid email of
        None \<Rightarrow> (Inl AeCommand, [])
      | Some wire \<Rightarrow> redirect_loop 3 0 c sc ''v3_otp'' read_otp wire (client_host c))"

definition login_otp ::
    "account_client \<Rightarrow> (nat \<Rightarrow> one_shot) \<Rightarrow> otp_challenge \<Rightarrow> string \<Rightarrow> string \<Rightarrow> string
      \<Rightarrow> (account_error + session) \<times> account_act list" where
  "login_otp c sc ch uuid email pin =
     (case login_set_command (oc_user ch) uuid email pin of
        None \<Rightarrow> (Inl AeCommand, [])
      | Some wire \<Rightarrow> redirect_loop 3 0 c sc ''v3_loginset'' read_login wire
          (if oc_domain ch = [] then client_host c else oc_domain ch))"

subsection \<open>The device list\<close>

definition session_status :: "string \<Rightarrow> account_error option" where
  "session_status line =
     (let f = str_fields line
      in if length f < 2 \<or> f ! 0 \<noteq> ''v3_session'' then Some AeUnexpected
         else (case atoi (f ! 1) of
             None \<Rightarrow> Some (AeRejected (f ! 1))
           | Some status \<Rightarrow> if status \<le> 0 then Some (AeRejected (f ! 1)) else None))"

definition secret_alphabet :: string where
  "secret_alphabet = ''AaBbCcDdEeFfGgHhIiJjKkLlMmNnOoPpQqRrSsTtUuVvWwXxYyZz1234567890''"

text \<open>The random source is the bytes it delivers; running out is its error.\<close>

fun secret_loop :: "nat \<Rightarrow> nat list \<Rightarrow> string option" where
  "secret_loop 0 src = Some []"
| "secret_loop (Suc n) [] = None"
| "secret_loop (Suc n) (b # src) =
     (if b < 248 then map_option (Cons (secret_alphabet ! (b mod length secret_alphabet))) (secret_loop n src)
      else secret_loop (Suc n) src)"

definition random_secret :: "nat list \<Rightarrow> string option" where
  "random_secret src = secret_loop 6 src"

record list_script =
  ls_dial_err :: "string option"
  ls_session :: exchange
  ls_random :: "nat list"
  ls_secret :: exchange
  ls_list :: exchange

datatype attempt_end = Redirected string | Ended "account_error + device list"

text \<open>The two exchanges after the session was accepted, on the same connection.\<close>

definition list_exchange :: "list_script \<Rightarrow> (account_error + device list) \<times> account_act list" where
  "list_exchange s =
     (case write_read (ls_list s) (''v3_dlist'' @ [CHR 0x0A]) of
        (Inl e, acts) \<Rightarrow> (Inl (AeExchange e), acts @ [Hung_up])
      | (Inr line, acts) \<Rightarrow>
          (case parse_device_list line of
             DlDevices ds \<Rightarrow> (Inr ds, acts @ [Hung_up])
           | DlPanic \<Rightarrow> (Inl (AeList DlPanic), acts)
           | e \<Rightarrow> (Inl (AeList e), acts @ [Hung_up])))"

definition secret_exchange :: "list_script \<Rightarrow> (account_error + device list) \<times> account_act list" where
  "secret_exchange s =
     (case random_secret (ls_random s) of
        None \<Rightarrow> (Inl AeRandom, [Hung_up])
      | Some k \<Rightarrow>
          (case write_read (ls_secret s) (case secret_command k of None \<Rightarrow> [] | Some w \<Rightarrow> w) of
             (Inl e, acts) \<Rightarrow> (Inl (AeExchange e), acts @ [Hung_up])
           | (Inr line, acts) \<Rightarrow>
               if parse_secret line = None then (Inl AeSecret, acts @ [Hung_up])
               else (case list_exchange s of (r, rest) \<Rightarrow> (r, acts @ rest))))"

definition list_attempt :: "account_client \<Rightarrow> list_script \<Rightarrow> string \<Rightarrow> string \<Rightarrow> attempt_end \<times> account_act list" where
  "list_attempt c s wire host =
     (case ls_dial_err s of
        Some e \<Rightarrow> (Ended (Inl (AeDial e)), [])
      | None \<Rightarrow>
          (case write_read (ls_session s) wire of
             (Inl e, acts) \<Rightarrow> (Ended (Inl (AeExchange e)), Dialled (dial_address c host) # acts @ [Hung_up])
           | (Inr line, acts) \<Rightarrow>
               (case parse_redirect line ''v3_session'' of
                  Some hop \<Rightarrow> (Redirected hop, Dialled (dial_address c host) # acts @ [Hung_up])
                | None \<Rightarrow>
                    (case session_status line of
                       Some e \<Rightarrow> (Ended (Inl e), Dialled (dial_address c host) # acts @ [Hung_up])
                     | None \<Rightarrow>
                         (case secret_exchange s of
                            (r, rest) \<Rightarrow> (Ended r, Dialled (dial_address c host) # acts @ rest))))))"

fun list_loop :: "nat \<Rightarrow> nat \<Rightarrow> account_client \<Rightarrow> (nat \<Rightarrow> list_script) \<Rightarrow> string \<Rightarrow> string
    \<Rightarrow> (account_error + device list) \<times> account_act list" where
  "list_loop 0 i c sc wire host = (Inl AeRedirects, [])"
| "list_loop (Suc left) i c sc wire host =
     (case list_attempt c (sc i) wire host of
        (Redirected hop, acts) \<Rightarrow>
          (case list_loop left (Suc i) c sc wire hop of (r, rest) \<Rightarrow> (r, acts @ rest))
      | (Ended r, acts) \<Rightarrow> (r, acts))"

definition devices_with_token :: "account_client \<Rightarrow> (nat \<Rightarrow> list_script) \<Rightarrow> session \<Rightarrow> (account_error + device list) \<times> account_act list" where
  "devices_with_token c sc s =
     (case session_command s of
        None \<Rightarrow> (Inl AeCommand, [])
      | Some wire \<Rightarrow> list_loop 3 0 c sc wire (if se_domain s = [] then client_host c else se_domain s))"

definition token_candidates :: "session \<Rightarrow> string list" where
  "token_candidates s =
     (if se_token s \<noteq> [] then [se_token s] else [])
     @ (if se_master s \<noteq> [] \<and> se_master s \<noteq> se_token s then [se_master s] else [])"

fun is_rejection :: "account_error \<Rightarrow> bool" where
  "is_rejection (AeRejected _) = True"
| "is_rejection _ = False"

fun try_tokens :: "account_client \<Rightarrow> (nat \<Rightarrow> nat \<Rightarrow> list_script) \<Rightarrow> nat \<Rightarrow> session \<Rightarrow> string list \<Rightarrow> account_error
    \<Rightarrow> (account_error + device list) \<times> account_act list" where
  "try_tokens c sc k s [] last_err = (Inl last_err, [])"
| "try_tokens c sc k s (t # ts) last_err =
     (case devices_with_token c (sc k) (s\<lparr> se_token := t \<rparr>) of
        (Inr ds, acts) \<Rightarrow> (Inr ds, acts)
      | (Inl e, acts) \<Rightarrow>
          if is_rejection e then (case try_tokens c sc (Suc k) s ts e of (r, rest) \<Rightarrow> (r, acts @ rest))
          else (Inl e, acts))"

definition account_devices :: "account_client \<Rightarrow> (nat \<Rightarrow> nat \<Rightarrow> list_script) \<Rightarrow> session \<Rightarrow> (account_error + device list) \<times> account_act list" where
  "account_devices c sc s = try_tokens c sc 0 s (token_candidates s) AeNoToken"

subsection \<open>What the traces look like\<close>

text \<open>Every connection that was opened is hung up before the next one opens, and nothing is sent
  outside one.\<close>

fun balanced :: "bool \<Rightarrow> account_act list \<Rightarrow> bool" where
  "balanced up [] = (\<not> up)"
| "balanced up (Dialled h # acts) = (\<not> up \<and> balanced True acts)"
| "balanced up (SentLine w # acts) = (up \<and> balanced True acts)"
| "balanced up (Hung_up # acts) = (up \<and> balanced False acts)"

definition dials :: "account_act list \<Rightarrow> nat" where
  "dials acts = length (filter (\<lambda>a. case a of Dialled _ \<Rightarrow> True | _ \<Rightarrow> False) acts)"

lemma dials_simps [simp]:
  "dials [] = 0" "dials (Dialled h # acts) = Suc (dials acts)" "dials (SentLine w # acts) = dials acts"
  "dials (Hung_up # acts) = dials acts" "dials (a @ b) = dials a + dials b"
  by (simp_all add: dials_def)

lemma balanced_append: "balanced up a \<Longrightarrow> balanced False b \<Longrightarrow> balanced up (a @ b)"
  by (induction up a rule: balanced.induct) auto

definition panicked :: "account_error + 'a \<Rightarrow> bool" where
  "panicked r \<longleftrightarrow> r = Inl (AeList DlPanic)"

lemma write_read_trace: "snd (write_read s w) = [] \<or> snd (write_read s w) = [SentLine w]"
  by (auto simp: write_read_def split: option.split sum.split)

lemma write_read_cases:
  assumes "write_read s w = (r, acts)"
  shows "acts = [] \<or> acts = [SentLine w]"
  using write_read_trace [of s w] assms by simp

lemma list_exchange_trace:
  "list_exchange s = (r, acts) \<Longrightarrow> dials acts = 0 \<and> (panicked r \<or> balanced True acts)"
  by (auto simp: list_exchange_def panicked_def dest!: write_read_cases
      split: prod.splits sum.splits device_list_result.splits)

lemma secret_exchange_trace:
  assumes "secret_exchange s = (r, acts)"
  shows "dials acts = 0 \<and> (panicked r \<or> balanced True acts)"
proof (cases "random_secret (ls_random s)")
  case None
  then show ?thesis using assms by (auto simp: secret_exchange_def)
next
  case (Some k)
  define w where "w = (case secret_command k of None \<Rightarrow> [] | Some w \<Rightarrow> w)"
  obtain q a where q: "write_read (ls_secret s) w = (q, a)" by (cases "write_read (ls_secret s) w")
  have a: "a = [] \<or> a = [SentLine w]" using write_read_cases [OF q] .
  obtain r' rest where l: "list_exchange s = (r', rest)" by (cases "list_exchange s")
  then have "dials rest = 0 \<and> (panicked r' \<or> balanced True rest)" by (rule list_exchange_trace)
  then show ?thesis using assms a
    by (auto simp: secret_exchange_def Some q [unfolded w_def] l split: sum.splits if_splits)
qed

lemma list_attempt_trace:
  assumes "list_attempt c s wire host = (r, acts)"
  shows "dials acts \<le> 1 \<and> ((\<exists>x. r = Ended x \<and> panicked x) \<or> balanced False acts)"
proof -
  obtain q a where q: "write_read (ls_session s) wire = (q, a)" by (cases "write_read (ls_session s) wire")
  have a: "a = [] \<or> a = [SentLine wire]" using write_read_cases [OF q] .
  obtain x rest where l: "secret_exchange s = (x, rest)" by (cases "secret_exchange s")
  then have "dials rest = 0 \<and> (panicked x \<or> balanced True rest)" by (rule secret_exchange_trace)
  then show ?thesis using assms a
    by (auto simp: list_attempt_def q l split: sum.splits option.splits)
qed

lemma list_loop_trace:
  "list_loop left i c sc wire host = (r, acts) \<Longrightarrow> dials acts \<le> left \<and> (panicked r \<or> balanced False acts)"
proof (induction left arbitrary: i host r acts)
  case 0
  then show ?case by simp
next
  case (Suc left)
  obtain e a where t: "list_attempt c (sc i) wire host = (e, a)" by (cases "list_attempt c (sc i) wire host")
  note a = list_attempt_trace [OF t]
  show ?case
  proof (cases e)
    case (Ended x)
    then show ?thesis using Suc.prems a by (auto simp: t)
  next
    case (Redirected hop)
    obtain r' rest where l: "list_loop left (Suc i) c sc wire hop = (r', rest)"
      by (cases "list_loop left (Suc i) c sc wire hop")
    then show ?thesis using Suc.prems a Suc.IH [OF l] Redirected by (auto simp: t balanced_append)
  qed
qed

lemma devices_with_token_trace:
  "devices_with_token c sc s = (r, acts) \<Longrightarrow> dials acts \<le> 3 \<and> (panicked r \<or> balanced False acts)"
  by (auto simp: devices_with_token_def split: option.splits dest!: list_loop_trace)

lemma try_tokens_trace:
  "try_tokens c sc k s ts e = (r, acts) \<Longrightarrow> dials acts \<le> 3 * length ts \<and> (panicked r \<or> balanced False acts)"
proof (induction ts arbitrary: k e r acts)
  case Nil
  then show ?case by simp
next
  case (Cons t ts)
  obtain q a where d: "devices_with_token c (sc k) (s\<lparr> se_token := t \<rparr>) = (q, a)"
    by (cases "devices_with_token c (sc k) (s\<lparr> se_token := t \<rparr>)")
  note a = devices_with_token_trace [OF d]
  show ?case
  proof (cases "\<exists>err. q = Inl err \<and> is_rejection err")
    case False
    then have "r = q \<and> acts = a" using Cons.prems d by (auto split: sum.splits)
    then show ?thesis using a by simp
  next
    case True
    then obtain err where q: "q = Inl err" "is_rejection err" by blast
    then have np: "\<not> panicked q" by (auto simp: panicked_def)
    obtain r' rest where l: "try_tokens c sc (Suc k) s ts err = (r', rest)"
      by (cases "try_tokens c sc (Suc k) s ts err")
    then have "r = r' \<and> acts = a @ rest" using Cons.prems d q by simp
    then show ?thesis using a np Cons.IH [OF l] by (auto simp: balanced_append)
  qed
qed

text \<open>C37: fetching the device list opens at most three connections for each of at most two tokens,
  one at a time, and on every path, redirects, refusals and failures at any step included, each
  is hung up before the next opens and before the call returns; the one exception is a device
  list that makes the parser panic.\<close>

theorem devices_bounded:
  "case account_devices c sc s of (r, acts) \<Rightarrow>
     dials acts \<le> 6 \<and> (r = Inl (AeList DlPanic) \<or> balanced False acts)"
proof -
  obtain r acts where e: "account_devices c sc s = (r, acts)" by (cases "account_devices c sc s")
  then have "dials acts \<le> 3 * length (token_candidates s) \<and> (panicked r \<or> balanced False acts)"
    unfolding account_devices_def by (rule try_tokens_trace)
  moreover have "length (token_candidates s) \<le> 2" by (simp add: token_candidates_def)
  ultimately show ?thesis by (simp add: e panicked_def)
qed

lemma redirect_loop_trace:
  "redirect_loop left i c sc name read wire host = (r, acts) \<Longrightarrow> dials acts \<le> left \<and> balanced False acts"
proof (induction left arbitrary: i host r acts)
  case 0
  then show ?case by simp
next
  case (Suc left)
  obtain q a where t: "client_exchange c (sc i) host wire = (q, a)" by (cases "client_exchange c (sc i) host wire")
  then have a: "dials a \<le> 1 \<and> balanced False a"
    by (auto simp: client_exchange_def split: option.splits prod.splits sum.splits dest!: write_read_cases)
  show ?case
  proof (cases "\<exists>line hop. q = Inr line \<and> parse_redirect line name = Some hop")
    case False
    then have "acts = a" using Suc.prems t by (auto split: sum.splits option.splits)
    then show ?thesis using a by simp
  next
    case True
    then obtain line hop where n: "q = Inr line" "parse_redirect line name = Some hop" by blast
    obtain r' rest where l: "redirect_loop left (Suc i) c sc name read wire hop = (r', rest)"
      by (cases "redirect_loop left (Suc i) c sc name read wire hop")
    then show ?thesis using Suc.prems t n a Suc.IH [OF l] by (auto simp: balanced_append)
  qed
qed

text \<open>A secret is six characters of the alphabet, so its command is never refused.\<close>

lemma secret_loop_alphabet:
  "secret_loop n src = Some k \<Longrightarrow> length k = n \<and> set k \<subseteq> set secret_alphabet"
proof (induction n src arbitrary: k rule: secret_loop.induct)
  case (3 n b src)
  have "secret_alphabet ! (b mod length secret_alphabet) \<in> set secret_alphabet"
    by (rule nth_mem) (simp add: secret_alphabet_def)
  with 3 show ?case by (auto split: if_splits)
qed auto

lemma random_secret_sendable: "random_secret src = Some k \<Longrightarrow> secret_command k \<noteq> None"
proof -
  assume "random_secret src = Some k"
  then have k: "length k = 6" "set k \<subseteq> set secret_alphabet"
    using secret_loop_alphabet by (auto simp: random_secret_def)
  have "list_all (\<lambda>c. c \<notin> set field_breakers) secret_alphabet" by code_simp
  then have "single_field k" using k by (auto simp: single_field_def list_all_iff)
  then show ?thesis by (simp add: secret_command_def account_command_def) (simp add: single_field_def field_breakers_def)
qed

end
