(* ===== verification/Account_Store.thy ===== *)
theory Account_Store
  imports Account_Client
begin

text \<open>
  \<open>internal/fivegencare/store.go\<close>: the account state and the file it lives in.

  Writing is a list of file-system acts, so that stopping after any of them is a prefix of the
  list; \<open>run_fs\<close> is what they do to the files.  The text of the state is \<open>encoding/json\<close>'s and a
  parameter; a write that fails has put some prefix of the text into the temporary file.
\<close>

record account_state =
  as_uuid :: string
  as_challenge :: "otp_challenge option"
  as_session :: "session option"
  as_email :: string
  as_challenge_at :: "int option"

definition empty_state :: account_state where
  "empty_state = \<lparr> as_uuid = [], as_challenge = None, as_session = None, as_email = [], as_challenge_at = None \<rparr>"

datatype store_error = StoreRead string | StoreParse string

definition load_state :: "(string \<Rightarrow> string + account_state) \<Rightarrow> file_read \<Rightarrow> store_error + account_state" where
  "load_state decode file =
     (case file of
        FileMissing \<Rightarrow> Inr empty_state
      | FileError e \<Rightarrow> Inl (StoreRead e)
      | FileText raw \<Rightarrow> (case decode raw of Inl e \<Rightarrow> Inl (StoreParse e) | Inr s \<Rightarrow> Inr s))"

datatype fs_act =
    FsMkdir
  | FsCreate string
  | FsProtect string
  | FsWrite string string
  | FsSync string
  | FsClose string
  | FsRename string string
  | FsRemove string

type_synonym files = "string \<Rightarrow> string option"

fun fs_apply :: "files \<Rightarrow> fs_act \<Rightarrow> files" where
  "fs_apply fs (FsCreate p) = fs(p \<mapsto> [])"
| "fs_apply fs (FsWrite p s) = (case fs p of None \<Rightarrow> fs | Some old \<Rightarrow> fs(p \<mapsto> old @ s))"
| "fs_apply fs (FsRename p q) = (case fs p of None \<Rightarrow> fs | Some s \<Rightarrow> (fs(p := None))(q \<mapsto> s))"
| "fs_apply fs (FsRemove p) = fs(p := None)"
| "fs_apply fs _ = fs"

definition run_fs :: "fs_act list \<Rightarrow> files \<Rightarrow> files" where
  "run_fs acts fs = foldl fs_apply fs acts"

text \<open>The script of one write: the first step that fails, if any.\<close>

datatype write_fault =
    NoFault
  | MkdirFault string
  | CreateFault string
  | ProtectFault string
  | WriteFault nat string
  | SyncFault string
  | CloseFault string
  | RenameFault string

datatype write_error = EncodeError string | FileStep write_fault

definition write_private :: "string + string \<Rightarrow> write_fault \<Rightarrow> string \<Rightarrow> string \<Rightarrow> (write_error + unit) \<times> fs_act list" where
  "write_private encoded fault tmp path =
     (case fault of
        MkdirFault e \<Rightarrow> (Inl (FileStep fault), [])
      | _ \<Rightarrow>
     (case encoded of
        Inl e \<Rightarrow> (Inl (EncodeError e), [FsMkdir])
      | Inr raw \<Rightarrow>
          (let text = raw @ [CHR 0x0A]; opened = [FsMkdir, FsCreate tmp]
           in case fault of
                CreateFault e \<Rightarrow> (Inl (FileStep fault), [FsMkdir])
              | ProtectFault e \<Rightarrow> (Inl (FileStep fault), opened @ [FsClose tmp, FsRemove tmp])
              | WriteFault n e \<Rightarrow>
                  (Inl (FileStep fault), opened @ [FsProtect tmp, FsWrite tmp (take n text), FsClose tmp, FsRemove tmp])
              | SyncFault e \<Rightarrow>
                  (Inl (FileStep fault), opened @ [FsProtect tmp, FsWrite tmp text, FsClose tmp, FsRemove tmp])
              | CloseFault e \<Rightarrow>
                  (Inl (FileStep fault), opened @ [FsProtect tmp, FsWrite tmp text, FsSync tmp, FsRemove tmp])
              | RenameFault e \<Rightarrow>
                  (Inl (FileStep fault), opened @ [FsProtect tmp, FsWrite tmp text, FsSync tmp, FsClose tmp, FsRemove tmp])
              | _ \<Rightarrow>
                  (Inr (), opened @ [FsProtect tmp, FsWrite tmp text, FsSync tmp, FsClose tmp, FsRename tmp path, FsRemove tmp]))))"

subsection \<open>Saving is atomic\<close>

fun only_touches :: "string \<Rightarrow> fs_act \<Rightarrow> bool" where
  "only_touches tmp FsMkdir = True"
| "only_touches tmp (FsRename p q) = False"
| "only_touches tmp (FsCreate p) = (p = tmp)"
| "only_touches tmp (FsProtect p) = (p = tmp)"
| "only_touches tmp (FsWrite p s) = (p = tmp)"
| "only_touches tmp (FsSync p) = (p = tmp)"
| "only_touches tmp (FsClose p) = (p = tmp)"
| "only_touches tmp (FsRemove p) = (p = tmp)"

lemma run_fs_simps [simp]:
  "run_fs [] fs = fs" "run_fs (a # acts) fs = run_fs acts (fs_apply fs a)"
  "run_fs (xs @ ys) fs = run_fs ys (run_fs xs fs)"
  by (simp_all add: run_fs_def)

lemma untouched: "list_all (only_touches tmp) acts \<Longrightarrow> q \<noteq> tmp \<Longrightarrow> run_fs acts fs q = fs q"
proof (induction acts arbitrary: fs)
  case Nil
  then show ?case by simp
next
  case (Cons a acts)
  then have "fs_apply fs a q = fs q" by (cases a) (auto split: option.split)
  with Cons show ?case by simp
qed

lemma untouched_prefix:
  "list_all (only_touches tmp) acts \<Longrightarrow> q \<noteq> tmp \<Longrightarrow> run_fs (take n acts) fs q = fs q"
  by (rule untouched) (auto simp: list_all_iff dest: in_set_takeD)

text \<open>The acts of a save that did not reach the rename, and of one that did.\<close>

definition write_acts :: "string \<Rightarrow> string \<Rightarrow> fs_act list" where
  "write_acts tmp text = [FsMkdir, FsCreate tmp, FsProtect tmp, FsWrite tmp text, FsSync tmp, FsClose tmp]"

lemma write_private_cases:
  obtains (failed) e acts where "write_private encoded fault tmp path = (Inl e, acts)"
      "list_all (only_touches tmp) acts" "acts = [] \<or> acts = [FsMkdir] \<or> last acts = FsRemove tmp"
  | (saved) raw where "encoded = Inr raw" "write_private encoded fault tmp path =
      (Inr (), write_acts tmp (raw @ [CHR 0x0A]) @ [FsRename tmp path, FsRemove tmp])"
proof (cases encoded)
  case (Inl e)
  then show ?thesis by (cases fault) (auto simp: write_private_def intro: failed)
next
  case (Inr raw)
  then show ?thesis
    by (cases fault) (auto simp: write_private_def Let_def write_acts_def intro: failed saved)
qed

lemma run_removed:
  "list_all (only_touches tmp) acts \<Longrightarrow> acts = [] \<or> acts = [FsMkdir] \<or> last acts = FsRemove tmp \<Longrightarrow>
     fs tmp = None \<Longrightarrow> run_fs acts fs = fs"
proof (rule ext)
  fix q
  assume o: "list_all (only_touches tmp) acts" and l: "acts = [] \<or> acts = [FsMkdir] \<or> last acts = FsRemove tmp"
    and none: "fs tmp = None"
  show "run_fs acts fs q = fs q"
  proof (cases "q = tmp")
    case False
    then show ?thesis using untouched o by blast
  next
    case True
    show ?thesis
    proof (cases acts rule: rev_cases)
      case (snoc ys a)
      then show ?thesis using l none True by auto
    qed simp
  qed
qed

lemma run_write_acts: "tmp \<noteq> path \<Longrightarrow> run_fs (write_acts tmp text) fs = fs(tmp \<mapsto> text)"
  by (simp add: write_acts_def)

lemma take_two_more:
  "take n (xs @ [a, b]) = take n xs \<or> take n (xs @ [a, b]) = xs @ [a] \<or> take n (xs @ [a, b]) = xs @ [a, b]"
proof -
  consider "n \<le> length xs" | "n = Suc (length xs)" | "n \<ge> Suc (Suc (length xs))" by linarith
  then show ?thesis by cases auto
qed

text \<open>C30: saving is all or nothing.  Stopped after any number of file-system steps, whether by a
  failure of one of them or from outside, the state file holds either what it held before or the
  whole new text; it holds the new text when saving reported success and the old one when it
  reported an error; when it returns, the temporary file is gone and no other file has changed.\<close>

theorem save_is_atomic:
  assumes "tmp \<noteq> path" and "fs tmp = None"
  shows "case write_private encoded fault tmp path of (r, acts) \<Rightarrow>
     (run_fs (take n acts) fs path = fs path
        \<or> (\<exists>raw. encoded = Inr raw \<and> run_fs (take n acts) fs path = Some (raw @ [CHR 0x0A])))
   \<and> run_fs acts fs =
       (case (r, encoded) of (Inr _, Inr raw) \<Rightarrow> fs(path \<mapsto> raw @ [CHR 0x0A]) | _ \<Rightarrow> fs)"
proof (cases rule: write_private_cases [of encoded fault tmp path])
  case (failed e acts)
  then show ?thesis
    using untouched_prefix [OF failed(2), of path n fs] run_removed [OF failed(2,3), of fs] assms by simp
next
  case (saved raw)
  let ?text = "raw @ [CHR 0x0A]"
  let ?w = "write_acts tmp ?text"
  have all: "run_fs (?w @ [FsRename tmp path, FsRemove tmp]) fs = fs(path \<mapsto> ?text)"
    using assms by (auto simp: run_write_acts fun_eq_iff)
  have renamed: "run_fs (?w @ [FsRename tmp path]) fs path = Some ?text"
    using assms by (simp add: run_write_acts)
  have "list_all (only_touches tmp) ?w" by (simp add: write_acts_def)
  then have early: "run_fs (take n ?w) fs path = fs path" using untouched_prefix assms by metis
  have "run_fs (take n (?w @ [FsRename tmp path, FsRemove tmp])) fs path = fs path
      \<or> run_fs (take n (?w @ [FsRename tmp path, FsRemove tmp])) fs path = Some ?text"
    using take_two_more [of n ?w "FsRename tmp path" "FsRemove tmp"] early renamed all
    by (elim disjE) (simp_all only:, simp_all)
  then show ?thesis using saved all by simp
qed

theorem save_is_atomic_witness:
  "run_fs (snd (write_private (Inr ''{}'') (WriteFault 1 ''disk full'') ''.state-1.tmp'' ''state.json'')) (\<lambda>_. None) = (\<lambda>_. None)"
proof -
  have ne: "''.state-1.tmp'' \<noteq> ''state.json''" by simp
  from save_is_atomic [OF ne, where fs = "\<lambda>_. None" and encoded = "Inr ''{}''" and fault = "WriteFault 1 ''disk full''" and n = 0] show ?thesis
    by (simp add: write_private_def Let_def)
qed

end
