(* ===== verification/Account_Provider.thy ===== *)
theory Account_Provider
  imports Account_Store "HOL-Library.Multiset"
begin

text \<open>
  \<open>internal/fivegencare/provider.go\<close>: pairing with the account and fetching the cameras.

  \<open>provider\<close> is what the operations share under the mutex: the state on disk (what \<open>Store.Load\<close>
  returns; \<open>Account_Store\<close> shows that a save replaces it whole or not at all) and the last good
  cameras.  Each operation gets what the outside does as an argument, and returns its result, the
  new provider and the calls it made to the account service.
\<close>

definition challenge_ttl :: int where
  "challenge_ttl = 15 * (60 * second)"

record provider_config =
  pc_email :: string
  pc_otp_code :: string
  pc_relay_host :: string
  pc_auto_request :: bool
  pc_has_client :: bool
  pc_has_store :: bool

record camera_credentials =
  cc_device_id :: "32 word"
  cc_udid :: string
  cc_name :: string
  cc_model :: string
  cc_sid :: string
  cc_token :: string
  cc_control_host :: string
  cc_control_port :: int
  cc_target_port :: int
  cc_api_host :: string
  cc_api_port :: int
  cc_access_token :: string
  cc_rtsp_user :: string
  cc_rtsp_pass :: string

record provider =
  pv_disk :: account_state
  pv_last_good :: "camera_credentials list"

datatype provider_error =
    PeLoad store_error
  | PeSave string
  | PeUuid string
  | PeNoEmail
  | PeNoCode
  | PeNoChallenge
  | PeOtp account_error
  | PeVerify account_error
  | PePairing string
  | PeNoClient
  | PeNoStore
  | PeRestore account_error
  | PeNoCamera
  | PeRefresh string provider_error

datatype account_call =
    AskOtp string string
  | AskLogin otp_challenge string string string
  | AskDevices session

subsection \<open>Small parts\<close>

text \<open>How long the stored challenge is worth trying, if at all.\<close>

definition challenge_remaining :: "int \<Rightarrow> account_state \<Rightarrow> int option" where
  "challenge_remaining now s =
     (if as_challenge s = None then None
      else (case as_challenge_at s of
          None \<Rightarrow> Some challenge_ttl
        | Some at \<Rightarrow>
            if challenge_ttl - (now - at) \<le> 0 then None else Some (challenge_ttl - (now - at))))"

definition provider_email :: "provider_config \<Rightarrow> account_state \<Rightarrow> string" where
  "provider_email cfg s = (if pc_email cfg \<noteq> [] then pc_email cfg else as_email s)"

definition new_device_uuid :: "string + bytes \<Rightarrow> provider_error + string" where
  "new_device_uuid random =
     (case random of
        Inl e \<Rightarrow> Inl (PeUuid e)
      | Inr bs \<Rightarrow>
          (let b = bs[6 := (bs ! 6 AND 0x0f) OR 0x40, 8 := (bs ! 8 AND 0x3f) OR 0x80];
               h = hex_encode b
           in Inr (take 8 h @ ''-'' @ take 4 (drop 8 h) @ ''-'' @ take 4 (drop 12 h) @ ''-''
                   @ take 4 (drop 16 h) @ ''-'' @ take 12 (drop 20 h))))"

definition with_uuid :: "string + bytes \<Rightarrow> account_state \<Rightarrow> provider_error + account_state" where
  "with_uuid random s =
     (if as_uuid s = [] then bind_sum (new_device_uuid random) (\<lambda>u. Inr (s\<lparr> as_uuid := u \<rparr>)) else Inr s)"

definition save_state :: "string option \<Rightarrow> account_state \<Rightarrow> provider \<Rightarrow> (provider_error + unit) \<times> provider" where
  "save_state fault s p = (case fault of Some e \<Rightarrow> (Inl (PeSave e), p) | None \<Rightarrow> (Inr (), p\<lparr> pv_disk := s \<rparr>))"

record pairing_status =
  ps_paired :: bool
  ps_awaiting :: bool
  ps_email :: string
  ps_expires :: int

definition provider_status :: "provider_config \<Rightarrow> int \<Rightarrow> store_error option \<Rightarrow> provider \<Rightarrow> provider_error + pairing_status" where
  "provider_status cfg now load_fault p =
     (case load_fault of
        Some e \<Rightarrow> Inl (PeLoad e)
      | None \<Rightarrow>
          (let s = pv_disk p
           in Inr \<lparr> ps_paired = (as_session s \<noteq> None), ps_awaiting = (challenge_remaining now s \<noteq> None),
                ps_email = provider_email cfg s,
                ps_expires = (case challenge_remaining now s of None \<Rightarrow> 0 | Some d \<Rightarrow> d div second) \<rparr>))"

subsection \<open>The two actions of the pairing page\<close>

text \<open>What the outside does during one operation: \<open>now\<close> is the clock when the challenge is
  checked and \<open>later\<close> when a new one is dated.\<close>

record surroundings =
  sd_load :: "store_error option"
  sd_random :: "string + bytes"
  sd_now :: int
  sd_later :: int
  sd_otp :: "account_error + otp_challenge"
  sd_login :: "account_error + session"
  sd_save :: "string option"

type_synonym 'a outcome = "(provider_error + 'a) \<times> provider \<times> account_call list"

definition finish_save :: "string option \<Rightarrow> account_state \<Rightarrow> provider \<Rightarrow> account_call list \<Rightarrow> unit outcome" where
  "finish_save fault s p calls = (case save_state fault s p of (r, q) \<Rightarrow> (r, q, calls))"

definition request_code :: "surroundings \<Rightarrow> string \<Rightarrow> provider \<Rightarrow> unit outcome" where
  "request_code sd address p =
     (let email = trim_space address
      in if email = [] then (Inl PeNoEmail, p, [])
         else (case sd_load sd of
             Some e \<Rightarrow> (Inl (PeLoad e), p, [])
           | None \<Rightarrow>
               (case with_uuid (sd_random sd) (pv_disk p) of
                  Inl e \<Rightarrow> (Inl e, p, [])
                | Inr s \<Rightarrow>
                    (case sd_otp sd of
                       Inl e \<Rightarrow> (Inl (PeOtp e), p, [AskOtp (as_uuid s) email])
                     | Inr ch \<Rightarrow>
                         finish_save (sd_save sd)
                           (s\<lparr> as_challenge := Some ch, as_challenge_at := Some (sd_later sd), as_email := email \<rparr>)
                           p [AskOtp (as_uuid s) email]))))"

definition submit_code :: "provider_config \<Rightarrow> surroundings \<Rightarrow> string \<Rightarrow> provider \<Rightarrow> unit outcome" where
  "submit_code cfg sd typed p =
     (let pin = trim_space typed; s = pv_disk p
      in if pin = [] then (Inl PeNoCode, p, [])
         else (case sd_load sd of
             Some e \<Rightarrow> (Inl (PeLoad e), p, [])
           | None \<Rightarrow>
               (case (challenge_remaining (sd_now sd) s, as_challenge s) of
                  (Some _, Some ch) \<Rightarrow>
                    (let calls = [AskLogin ch (as_uuid s) (provider_email cfg s) pin]
                     in case sd_login sd of
                          Inl e \<Rightarrow> (Inl (PeVerify e), p, calls)
                        | Inr se \<Rightarrow>
                            finish_save (sd_save sd)
                              (s\<lparr> as_session := Some se, as_challenge := None, as_challenge_at := None \<rparr>) p calls)
                | _ \<Rightarrow> (Inl PeNoChallenge, p, []))))"

subsection \<open>Pairing during a restore\<close>

text \<open>\<open>pair\<close> changes the state its caller holds; success is the state it leaves there.\<close>

definition pair_account :: "provider_config \<Rightarrow> surroundings \<Rightarrow> account_state \<Rightarrow> provider \<Rightarrow> account_state outcome" where
  "pair_account cfg sd s p =
     (let email = provider_email cfg s;
          saved = (\<lambda>s' hint calls. case save_state (sd_save sd) s' p of
              (Inl e, q) \<Rightarrow> (Inl e, q, calls) | (Inr _, q) \<Rightarrow> (Inl (PePairing hint), q, calls))
      in if email = [] then saved s ''open the add-on Web UI, or set the email option'' []
         else (case (challenge_remaining (sd_now sd) s, as_challenge s) of
             (Some _, Some ch) \<Rightarrow>
               if pc_otp_code cfg = []
               then (Inl (PePairing ''enter the code from your email in the add-on Web UI''), p, [])
               else (let calls = [AskLogin ch (as_uuid s) email (pc_otp_code cfg)]
                     in case sd_login sd of
                          Inl e \<Rightarrow> (Inl (PeVerify e), p, calls)
                        | Inr se \<Rightarrow>
                            (let s' = s\<lparr> as_session := Some se, as_challenge := None, as_challenge_at := None,
                                         as_email := email \<rparr>
                             in case save_state (sd_save sd) s' p of
                                  (Inl e, q) \<Rightarrow> (Inl e, q, calls)
                                | (Inr _, q) \<Rightarrow> (Inr s', q, calls)))
           | _ \<Rightarrow>
               (let s0 = s\<lparr> as_challenge := None, as_challenge_at := None \<rparr>
                in if \<not> pc_auto_request cfg then saved s0 ''open the add-on Web UI to receive a code'' []
                   else (case sd_otp sd of
                       Inl e \<Rightarrow> (Inl (PeOtp e), p, [AskOtp (as_uuid s) email])
                     | Inr ch \<Rightarrow>
                         saved (s0\<lparr> as_challenge := Some ch, as_challenge_at := Some (sd_later sd), as_email := email \<rparr>)
                           ''code sent by email; enter it in the add-on Web UI'' [AskOtp (as_uuid s) email]))))"

subsection \<open>Restore and Refresh\<close>

definition usable_device :: "device \<Rightarrow> bool" where
  "usable_device d \<longleftrightarrow> dv_id d \<noteq> 0 \<and> dv_udid d \<noteq> [] \<and> dv_sid d \<noteq> [] \<and> dv_token d \<noteq> []"

definition camera_of :: "provider_config \<Rightarrow> string \<Rightarrow> device \<Rightarrow> camera_credentials" where
  "camera_of cfg api_host d =
     \<lparr> cc_device_id = dv_id d, cc_udid = dv_udid d, cc_name = dv_name d, cc_model = dv_model d,
       cc_sid = dv_sid d, cc_token = dv_token d, cc_control_host = pc_relay_host cfg, cc_control_port = 8800,
       cc_target_port = account_target_port, cc_api_host = api_host, cc_api_port = device_api_port,
       cc_access_token = owner_access_token (dv_token d), cc_rtsp_user = ''Pascal'',
       cc_rtsp_pass = ''5GenCare.com'' \<rparr>"

text \<open>Sorted by UDID; \<open>sort.Slice\<close> sorts the few cameras of an account by insertion, which keeps
  equal keys in their order, as \<open>sort_key\<close> does.\<close>

definition cameras_of :: "provider_config \<Rightarrow> string \<Rightarrow> device list \<Rightarrow> camera_credentials list" where
  "cameras_of cfg api_host ds = sort_key cc_udid (map (camera_of cfg api_host) (filter usable_device ds))"

definition forget_session :: "account_state \<Rightarrow> account_state" where
  "forget_session s = s\<lparr> as_session := None, as_challenge := None, as_challenge_at := None \<rparr>"

text \<open>With a session: the devices, or what a refused session leads to.\<close>

definition list_cameras ::
    "provider_config \<Rightarrow> surroundings \<Rightarrow> (session \<Rightarrow> account_error + device list) \<Rightarrow> session \<Rightarrow> account_state
      \<Rightarrow> provider \<Rightarrow> account_call list \<Rightarrow> camera_credentials list outcome" where
  "list_cameras cfg sd2 list_devices se s q calls =
     (case list_devices se of
        Inl e \<Rightarrow>
          if \<not> is_rejection e then (Inl (PeRestore e), q, calls @ [AskDevices se])
          else (case pair_account cfg sd2 (forget_session s) q of
              (Inl pe, q2, calls2) \<Rightarrow> (Inl pe, q2, calls @ [AskDevices se] @ calls2)
            | (Inr _, q2, calls2) \<Rightarrow> (Inl (PeRestore e), q2, calls @ [AskDevices se] @ calls2))
      | Inr ds \<Rightarrow>
          (let api_host = (if se_domain se = [] then account_default_host else se_domain se);
               cams = cameras_of cfg api_host ds
           in if cams = [] then (Inl PeNoCamera, q, calls @ [AskDevices se])
              else (Inr cams, q\<lparr> pv_last_good := cams \<rparr>, calls @ [AskDevices se])))"

text \<open>The first pairing is for a missing session, the second for one the server rejects.\<close>

definition restore_account ::
    "provider_config \<Rightarrow> surroundings \<Rightarrow> surroundings \<Rightarrow> (session \<Rightarrow> account_error + device list)
      \<Rightarrow> provider \<Rightarrow> camera_credentials list outcome" where
  "restore_account cfg sd sd2 list_devices p =
     (if \<not> pc_has_client cfg then (Inl PeNoClient, p, [])
      else if \<not> pc_has_store cfg then (Inl PeNoStore, p, [])
      else (case sd_load sd of
          Some e \<Rightarrow> (Inl (PeLoad e), p, [])
        | None \<Rightarrow>
            (case with_uuid (sd_random sd) (pv_disk p) of
               Inl e \<Rightarrow> (Inl e, p, [])
             | Inr s \<Rightarrow>
                 (case (if as_session s = None then pair_account cfg sd s p else (Inr s, p, [])) of
                    (Inl e, q, calls) \<Rightarrow> (Inl e, q, calls)
                  | (Inr s1, q, calls) \<Rightarrow>
                      list_cameras cfg sd2 list_devices (the (as_session s1)) s1 q calls))))"

text \<open>\<open>Refresh\<close> returns cameras even when it fails: the pair is its two results.\<close>

definition refresh_account ::
    "provider_config \<Rightarrow> surroundings \<Rightarrow> surroundings \<Rightarrow> (session \<Rightarrow> account_error + device list) \<Rightarrow> string
      \<Rightarrow> provider \<Rightarrow> (camera_credentials list \<times> provider_error option) \<times> provider \<times> account_call list" where
  "refresh_account cfg sd sd2 list_devices reason p =
     (case restore_account cfg sd sd2 list_devices p of
        (Inr cams, q, calls) \<Rightarrow> ((cams, None), q, calls)
      | (Inl e, q, calls) \<Rightarrow> ((pv_last_good q, Some (PeRefresh reason e)), q, calls))"

subsection \<open>What a save and a pairing can do\<close>

lemma save_state_cases:
  obtains (refused) e where "fault = Some e" "save_state fault s p = (Inl (PeSave e), p)"
  | (stored) "fault = None" "save_state fault s p = (Inr (), p\<lparr> pv_disk := s \<rparr>)"
  by (cases fault) (simp_all add: save_state_def)

lemma with_uuid_result:
  "with_uuid r s = Inr s' \<Longrightarrow> as_uuid s' \<noteq> [] \<and> s' = s\<lparr> as_uuid := as_uuid s' \<rparr> \<and> (as_uuid s \<noteq> [] \<longrightarrow> s' = s)"
  by (auto simp: with_uuid_def new_device_uuid_def Let_def bind_sum_Inr_iff split: if_splits sum.splits)

text \<open>How a pairing can end.\<close>

lemma pair_account_cases:
  assumes "pair_account cfg sd s p = (r, q, calls)"
  obtains (silent) e where "r = Inl e" "q = p" "calls = []"
  | (asked) e where "r = Inl e" "q = p" "challenge_remaining (sd_now sd) s = None"
      "calls = [AskOtp (as_uuid s) (provider_email cfg s)]"
  | (kept) hint where "r = Inl (PePairing hint)" "q = p\<lparr> pv_disk := s \<rparr>" "provider_email cfg s = []" "calls = []"
  | (dropped) hint where "r = Inl (PePairing hint)" "challenge_remaining (sd_now sd) s = None" "calls = []"
      "q = p\<lparr> pv_disk := s\<lparr> as_challenge := None, as_challenge_at := None \<rparr> \<rparr>"
  | (sent) hint ch where "r = Inl (PePairing hint)" "challenge_remaining (sd_now sd) s = None" "sd_otp sd = Inr ch"
      "provider_email cfg s \<noteq> []" "calls = [AskOtp (as_uuid s) (provider_email cfg s)]"
      "q = p\<lparr> pv_disk := s\<lparr> as_challenge := Some ch, as_challenge_at := Some (sd_later sd), as_email := provider_email cfg s \<rparr> \<rparr>"
  | (wrong) e ch where "r = Inl e" "q = p" "challenge_remaining (sd_now sd) s \<noteq> None" "as_challenge s = Some ch"
      "pc_otp_code cfg \<noteq> []"
      "calls = [AskLogin ch (as_uuid s) (provider_email cfg s) (pc_otp_code cfg)]"
  | (paired) ch se where "r = Inr (s\<lparr> as_session := Some se, as_challenge := None, as_challenge_at := None, as_email := provider_email cfg s \<rparr>)"
      "q = p\<lparr> pv_disk := s\<lparr> as_session := Some se, as_challenge := None, as_challenge_at := None, as_email := provider_email cfg s \<rparr> \<rparr>"
      "challenge_remaining (sd_now sd) s \<noteq> None" "as_challenge s = Some ch" "sd_login sd = Inr se"
      "pc_otp_code cfg \<noteq> []" "provider_email cfg s \<noteq> []"
      "calls = [AskLogin ch (as_uuid s) (provider_email cfg s) (pc_otp_code cfg)]"
proof (cases "provider_email cfg s = []")
  case True
  then show ?thesis using assms silent kept
    by (cases "sd_save sd") (auto simp: pair_account_def save_state_def Let_def)
next
  case email: False
  show ?thesis
  proof (cases "challenge_remaining (sd_now sd) s")
    case None
    show ?thesis
    proof (cases "pc_auto_request cfg")
      case False
      then show ?thesis using assms silent dropped None email
        by (cases "sd_save sd") (auto simp: pair_account_def save_state_def Let_def)
    next
      case True
      then show ?thesis using assms asked sent None email
        by (cases "sd_save sd"; cases "sd_otp sd") (auto simp: pair_account_def save_state_def Let_def)
    qed
  next
    case (Some d)
    then obtain ch where ch: "as_challenge s = Some ch" by (auto simp: challenge_remaining_def split: if_splits)
    show ?thesis
    proof (cases "pc_otp_code cfg = []")
      case True
      then show ?thesis using assms silent Some ch email by (auto simp: pair_account_def Let_def)
    next
      case False
      then show ?thesis using assms wrong paired Some ch email
        by (cases "sd_save sd"; cases "sd_login sd") (auto simp: pair_account_def save_state_def Let_def)
    qed
  qed
qed

text \<open>The state a restore asks for devices with: the stored one, or the one pairing just made.\<close>

definition session_ready :: "provider_config \<Rightarrow> surroundings \<Rightarrow> provider \<Rightarrow> account_state \<Rightarrow> session \<Rightarrow> provider \<Rightarrow> account_call list \<Rightarrow> bool" where
  "session_ready cfg sd p s1 se q calls \<longleftrightarrow>
     as_session s1 = Some se \<and> (\<exists>s. with_uuid (sd_random sd) (pv_disk p) = Inr s \<and>
       (as_session s \<noteq> None \<and> s1 = s \<and> q = p \<and> calls = []
        \<or> as_session s = None \<and> pair_account cfg sd s p = (Inr s1, q, calls)))"

lemma pair_account_session: "pair_account cfg sd s p = (Inr s1, q, calls) \<Longrightarrow> as_session s1 \<noteq> None"
  by (erule pair_account_cases) auto

lemma restore_account_cases:
  assumes "restore_account cfg sd sd2 ld p = (r, q, calls)"
  obtains (early) e where "r = Inl e" "q = p" "calls = []"
  | (unpaired) s e where "with_uuid (sd_random sd) (pv_disk p) = Inr s" "as_session s = None"
      "pair_account cfg sd s p = (Inl e, q, calls)" "r = Inl e"
  | (failed) s1 se q1 calls1 e where "session_ready cfg sd p s1 se q1 calls1" "ld se = Inl e" "\<not> is_rejection e"
      "r = Inl (PeRestore e)" "q = q1" "calls = calls1 @ [AskDevices se]"
  | (rejected) s1 se q1 calls1 e r2 calls2 where "session_ready cfg sd p s1 se q1 calls1" "ld se = Inl e" "is_rejection e"
      "pair_account cfg sd2 (forget_session s1) q1 = (r2, q, calls2)" "\<exists>x. r = Inl x"
      "calls = calls1 @ [AskDevices se] @ calls2"
  | (empty) s1 se calls1 ds where "session_ready cfg sd p s1 se q calls1" "ld se = Inr ds" "r = Inl PeNoCamera"
      "calls = calls1 @ [AskDevices se]"
  | (listed) s1 se q1 calls1 ds cams where "session_ready cfg sd p s1 se q1 calls1" "ld se = Inr ds"
      "cams = cameras_of cfg (if se_domain se = [] then account_default_host else se_domain se) ds" "cams \<noteq> []"
      "r = Inr cams" "q = q1\<lparr> pv_last_good := cams \<rparr>" "calls = calls1 @ [AskDevices se]"
proof (cases "pc_has_client cfg \<and> pc_has_store cfg \<and> sd_load sd = None")
  case False
  then show ?thesis using assms early by (auto simp: restore_account_def split: if_splits option.splits)
next
  case True
  note [simp] = restore_account_def
  show ?thesis
  proof (cases "with_uuid (sd_random sd) (pv_disk p)")
    case (Inl e)
    then show ?thesis using assms True by (intro early [of e]) auto
  next
    case (Inr s)
    obtain r1 q1 calls1 where pr: "(if as_session s = None then pair_account cfg sd s p else (Inr s, p, [])) = (r1, q1, calls1)"
      by (metis prod_cases3)
    show ?thesis
    proof (cases r1)
      case (Inl e)
      then have "as_session s = None" "pair_account cfg sd s p = (Inl e, q1, calls1)"
        using pr by (auto split: if_splits)
      moreover have "r = Inl e \<and> q = q1 \<and> calls = calls1" using assms True \<open>with_uuid _ _ = Inr s\<close> pr Inl by simp
      ultimately show ?thesis using unpaired \<open>with_uuid _ _ = Inr s\<close> by blast
    next
      case (Inr s1)
      have "as_session s1 \<noteq> None" using pr Inr pair_account_session by (auto split: if_splits)
      then obtain se where se: "as_session s1 = Some se" by blast
      have ready: "session_ready cfg sd p s1 se q1 calls1"
        unfolding session_ready_def using se pr Inr \<open>with_uuid _ _ = Inr s\<close> by (auto split: if_splits)
      have body: "(r, q, calls) = list_cameras cfg sd2 ld se s1 q1 calls1"
        using assms True \<open>with_uuid _ _ = Inr s\<close> pr Inr se by simp
      show ?thesis
      proof (cases "ld se")
        case (Inr ds)
        then show ?thesis using body listed [OF ready] ready empty
          by (auto simp: list_cameras_def Let_def split: if_splits)
      next
        case (Inl e)
        obtain r2 q2 calls2 where p2: "pair_account cfg sd2 (forget_session s1) q1 = (r2, q2, calls2)"
          by (metis prod_cases3)
        show ?thesis
        proof (cases "is_rejection e")
          case False
          then show ?thesis using body Inl failed [OF ready Inl] by (simp add: list_cameras_def)
        next
          case True
          then have "q = q2 \<and> (\<exists>x. r = Inl x) \<and> calls = calls1 @ [AskDevices se] @ calls2"
            using body Inl p2 by (auto simp: list_cameras_def split: sum.splits)
          then show ?thesis using rejected [OF ready Inl True] p2 by blast
        qed
      qed
    qed
  qed
qed

subsection \<open>The stored state\<close>

text \<open>A stored challenge is dated and comes with the identity and address it was requested for; a
  stored session comes with an identity.\<close>

definition disk_ok :: "account_state \<Rightarrow> bool" where
  "disk_ok s \<longleftrightarrow>
     (as_challenge s \<noteq> None \<longrightarrow> as_uuid s \<noteq> [] \<and> as_email s \<noteq> [])
   \<and> (as_challenge s \<noteq> None \<longleftrightarrow> as_challenge_at s \<noteq> None)
   \<and> (as_session s \<noteq> None \<longrightarrow> as_uuid s \<noteq> [])"

definition cameras_ok :: "camera_credentials list \<Rightarrow> bool" where
  "cameras_ok cs \<longleftrightarrow> sorted (map cc_udid cs) \<and>
     list_all (\<lambda>c. cc_device_id c \<noteq> 0 \<and> cc_udid c \<noteq> [] \<and> cc_sid c \<noteq> [] \<and> cc_token c \<noteq> []
       \<and> cc_access_token c = owner_access_token (cc_token c)) cs"

definition provider_ok :: "provider \<Rightarrow> bool" where
  "provider_ok p \<longleftrightarrow> disk_ok (pv_disk p) \<and> cameras_ok (pv_last_good p)"

inductive provider_step :: "provider_config \<Rightarrow> provider \<Rightarrow> account_call list \<Rightarrow> provider \<Rightarrow> bool" for cfg where
  requested: "request_code sd address p = (r, q, calls) \<Longrightarrow> provider_step cfg p calls q"
| submitted: "submit_code cfg sd typed p = (r, q, calls) \<Longrightarrow> provider_step cfg p calls q"
| restored: "restore_account cfg sd sd2 ld p = (r', q, calls) \<Longrightarrow> provider_step cfg p calls q"

inductive provider_run :: "provider_config \<Rightarrow> provider \<Rightarrow> account_call list \<Rightarrow> provider \<Rightarrow> bool" for cfg where
  start: "provider_run cfg p [] p"
| more: "provider_run cfg p calls q \<Longrightarrow> provider_step cfg q calls' q' \<Longrightarrow> provider_run cfg p (calls @ calls') q'"

lemma cameras_of_ok: "cameras_ok (cameras_of cfg h ds)"
  by (auto simp: cameras_ok_def cameras_of_def list_all_iff camera_of_def usable_device_def)

lemma with_uuid_ok:
  assumes "with_uuid r s = Inr s'" and "disk_ok s"
  shows "disk_ok s' \<and> as_uuid s' \<noteq> []"
proof -
  obtain u where "u \<noteq> []" "s' = s\<lparr> as_uuid := u \<rparr>" using with_uuid_result [OF assms(1)] by blast
  then show ?thesis using assms(2) by (simp add: disk_ok_def)
qed

lemma forget_ok: "disk_ok s \<Longrightarrow> disk_ok (forget_session s)"
  by (simp add: disk_ok_def forget_session_def)

lemma pair_account_ok:
  assumes "pair_account cfg sd s p = (r, q, calls)" and "disk_ok s" and "as_uuid s \<noteq> []" and "provider_ok p"
  shows "provider_ok q \<and> (\<forall>s'. r = Inr s' \<longrightarrow> disk_ok s' \<and> as_uuid s' \<noteq> [])"
  using assms(1) by (rule pair_account_cases) (use assms(2-4) in \<open>auto simp: provider_ok_def disk_ok_def\<close>)

lemma session_ready_ok:
  assumes "session_ready cfg sd p s1 se q calls" and "provider_ok p"
  shows "provider_ok q \<and> disk_ok s1 \<and> as_uuid s1 \<noteq> []"
proof -
  have "disk_ok (pv_disk p)" using assms(2) by (simp add: provider_ok_def)
  then show ?thesis
    using assms with_uuid_ok pair_account_ok unfolding session_ready_def by blast
qed

lemma restore_ok:
  assumes "restore_account cfg sd sd2 ld p = (r, q, calls)" and ok: "provider_ok p"
  shows "provider_ok q \<and> (\<forall>cams. r = Inr cams \<longrightarrow> cameras_ok cams \<and> pv_last_good q = cams)"
  using assms(1)
proof (cases rule: restore_account_cases)
  case early
  then show ?thesis using ok by simp
next
  case (unpaired s e)
  have "disk_ok s \<and> as_uuid s \<noteq> []" using with_uuid_ok unpaired(1) ok by (auto simp: provider_ok_def)
  then show ?thesis using pair_account_ok [OF unpaired(3)] ok unpaired(4) by simp
next
  case failed
  then show ?thesis using session_ready_ok [OF _ ok] by auto
next
  case (rejected s1 se q1 calls1 e r2 calls2)
  have "provider_ok q1 \<and> disk_ok s1 \<and> as_uuid s1 \<noteq> []" using session_ready_ok [OF rejected(1) ok] .
  moreover have "as_uuid (forget_session s1) = as_uuid s1" by (simp add: forget_session_def)
  ultimately have "provider_ok q" using pair_account_ok [OF rejected(4) forget_ok] by metis
  moreover obtain x where "r = Inl x" using rejected(5) by blast
  ultimately show ?thesis by simp
next
  case empty
  then show ?thesis using session_ready_ok [OF _ ok] by auto
next
  case (listed s1 se q1 calls1 ds cams)
  have "provider_ok q1" using session_ready_ok [OF listed(1) ok] by blast
  moreover have "cameras_ok cams" unfolding listed(3) by (rule cameras_of_ok)
  ultimately show ?thesis using listed(5,6) by (simp add: provider_ok_def)
qed

lemma request_code_ok: "request_code sd a p = (r, q, calls) \<Longrightarrow> provider_ok p \<Longrightarrow> provider_ok q"
proof (cases "with_uuid (sd_random sd) (pv_disk p)")
  case (Inr s)
  assume r: "request_code sd a p = (r, q, calls)" and ok: "provider_ok p"
  have "disk_ok s \<and> as_uuid s \<noteq> []" using with_uuid_ok [OF Inr] ok by (simp add: provider_ok_def)
  then show ?thesis using r ok
    by (auto simp: request_code_def Inr finish_save_def save_state_def provider_ok_def disk_ok_def Let_def
        split: if_splits option.splits sum.splits)
next
  case (Inl e)
  assume "request_code sd a p = (r, q, calls)" and "provider_ok p"
  with Inl show ?thesis by (auto simp: request_code_def Let_def split: if_splits option.splits)
qed

lemma submit_code_cases:
  assumes "submit_code cfg sd typed p = (r, q, calls)"
  obtains (silent) e where "r = Inl e" "q = p" "calls = []"
  | (asked) e ch where "r = Inl e" "q = p" "as_challenge (pv_disk p) = Some ch"
      "challenge_remaining (sd_now sd) (pv_disk p) \<noteq> None" "trim_space typed \<noteq> []"
      "calls = [AskLogin ch (as_uuid (pv_disk p)) (provider_email cfg (pv_disk p)) (trim_space typed)]"
  | (paired) ch se where "r = Inr ()" "as_challenge (pv_disk p) = Some ch" "sd_login sd = Inr se"
      "challenge_remaining (sd_now sd) (pv_disk p) \<noteq> None" "trim_space typed \<noteq> []"
      "calls = [AskLogin ch (as_uuid (pv_disk p)) (provider_email cfg (pv_disk p)) (trim_space typed)]"
      "q = p\<lparr> pv_disk := (pv_disk p)\<lparr> as_session := Some se, as_challenge := None, as_challenge_at := None \<rparr> \<rparr>"
proof (cases "trim_space typed = [] \<or> sd_load sd \<noteq> None \<or> challenge_remaining (sd_now sd) (pv_disk p) = None")
  case True
  have "\<exists>e. submit_code cfg sd typed p = (Inl e, p, [])"
    using True by (cases "sd_load sd") (auto simp: submit_code_def Let_def)
  then show ?thesis using assms silent by auto
next
  case False
  then obtain ch d where ch: "as_challenge (pv_disk p) = Some ch" "challenge_remaining (sd_now sd) (pv_disk p) = Some d"
    by (auto simp: challenge_remaining_def split: if_splits)
  let ?calls = "[AskLogin ch (as_uuid (pv_disk p)) (provider_email cfg (pv_disk p)) (trim_space typed)]"
  show ?thesis
  proof (cases "\<exists>se. sd_login sd = Inr se \<and> sd_save sd = None")
    case True
    then obtain se where se: "sd_login sd = Inr se" "sd_save sd = None" by blast
    have "submit_code cfg sd typed p = (Inr (),
        p\<lparr> pv_disk := (pv_disk p)\<lparr> as_session := Some se, as_challenge := None, as_challenge_at := None \<rparr> \<rparr>, ?calls)"
      using False ch se by (simp add: submit_code_def finish_save_def save_state_def Let_def)
    with assms show ?thesis using paired [OF _ ch(1) se(1)] ch False by simp
  next
    case no: False
    have "\<exists>e. submit_code cfg sd typed p = (Inl e, p, ?calls)"
      using False ch no
      by (cases "sd_login sd"; cases "sd_save sd") (simp_all add: submit_code_def finish_save_def save_state_def Let_def)
    with assms show ?thesis using asked [OF _ _ ch(1)] ch False by auto
  qed
qed

lemma submit_code_ok: "submit_code cfg sd typed p = (r, q, calls) \<Longrightarrow> provider_ok p \<Longrightarrow> provider_ok q"
  by (erule submit_code_cases) (auto simp: provider_ok_def disk_ok_def)

lemma provider_step_ok: "provider_step cfg p calls q \<Longrightarrow> provider_ok p \<Longrightarrow> provider_ok q"
  by (induction rule: provider_step.induct) (auto dest: request_code_ok submit_code_ok restore_ok)

lemma provider_run_ok: "provider_run cfg p calls q \<Longrightarrow> provider_ok p \<Longrightarrow> provider_ok q"
  by (induction rule: provider_run.induct) (auto intro: provider_step_ok)

definition fresh_provider :: provider where
  "fresh_provider = \<lparr> pv_disk = empty_state, pv_last_good = [] \<rparr>"

lemma fresh_provider_ok: "provider_ok fresh_provider"
  by (simp add: provider_ok_def fresh_provider_def empty_state_def disk_ok_def cameras_ok_def)

subsection \<open>The properties\<close>

definition sample_provider_config :: provider_config where
  "sample_provider_config = \<lparr> pc_email = [], pc_otp_code = [], pc_relay_host = ''relay'', pc_auto_request = False,
     pc_has_client = True, pc_has_store = True \<rparr>"

definition sample_session :: session where
  "sample_session = \<lparr> se_user = 5, se_token = ''tok'', se_master = ''mas'', se_id = ''sid'', se_domain = ''dom'' \<rparr>"

definition sample_challenge :: otp_challenge where
  "sample_challenge = \<lparr> oc_user = 5, oc_domain = ''dom'' \<rparr>"

definition sample_surroundings :: surroundings where
  "sample_surroundings = \<lparr> sd_load = None, sd_random = Inr (replicate 16 0), sd_now = 60 * second, sd_later = second,
     sd_otp = Inr sample_challenge, sd_login = Inr sample_session, sd_save = None \<rparr>"

definition sample_waiting :: provider where
  "sample_waiting = \<lparr> pv_disk = \<lparr> as_uuid = ''00000000-0000-4000-8000-000000000000'', as_challenge = Some sample_challenge,
     as_session = None, as_email = ''a@b.c'', as_challenge_at = Some second \<rparr>, pv_last_good = [] \<rparr>"

lemma sample_request: "request_code sample_surroundings '' a@b.c '' fresh_provider =
    (Inr (), sample_waiting, [AskOtp ''00000000-0000-4000-8000-000000000000'' ''a@b.c''])"
proof -
  have "trim_space '' a@b.c '' = ''a@b.c''" by code_simp
  moreover have "new_device_uuid (Inr (replicate 16 0)) = Inr ''00000000-0000-4000-8000-000000000000''" by code_simp
  ultimately show ?thesis
    by (simp add: request_code_def sample_surroundings_def fresh_provider_def empty_state_def with_uuid_def
        finish_save_def save_state_def sample_waiting_def Let_def)
qed

text \<open>From an empty state file, after any sequence of code requests, code submissions and
  restores, with the clock, the network, the random source and the disk doing what they like, a
  stored challenge is dated and comes with the identity and address it was requested for, a
  stored session comes with an identity, and the remembered cameras are sorted, complete and
  carry the access token of their own device token.\<close>

theorem account_state_kept:
  "provider_run cfg fresh_provider calls q \<Longrightarrow> provider_ok q"
  using provider_run_ok fresh_provider_ok by blast

theorem account_state_kept_witness: "provider_ok sample_waiting"
proof -
  have "provider_run cfg fresh_provider ([] @ [AskOtp ''00000000-0000-4000-8000-000000000000'' ''a@b.c'']) sample_waiting" for cfg
    by (rule provider_run.more [OF provider_run.start provider_step.requested [OF sample_request]])
  then show ?thesis by (rule account_state_kept)
qed

text \<open>C36: pressing a button of the pairing page changes the stored state only as a whole.  A request
  or a code that fails in any way leaves it untouched, so a mistyped code keeps the challenge it
  was for; an accepted code stores the session and uses up the challenge, and a code requested
  anew replaces the one before, keeping the session and the identity.\<close>

theorem pairing_actions_atomic:
  "(case request_code sd address p of
      (Inl e, q, calls) \<Rightarrow> q = p
    | (Inr _, q, calls) \<Rightarrow> \<exists>ch. sd_otp sd = Inr ch
        \<and> as_challenge (pv_disk q) = Some ch \<and> as_challenge_at (pv_disk q) = Some (sd_later sd)
        \<and> as_email (pv_disk q) = trim_space address \<and> as_session (pv_disk q) = as_session (pv_disk p)
        \<and> (as_uuid (pv_disk p) = [] \<or> as_uuid (pv_disk q) = as_uuid (pv_disk p)))
   \<and> (case submit_code cfg sd typed p of
      (Inl e, q, calls) \<Rightarrow> q = p
    | (Inr _, q, calls) \<Rightarrow> \<exists>se. sd_login sd = Inr se \<and> challenge_remaining (sd_now sd) (pv_disk p) \<noteq> None
        \<and> q = p\<lparr> pv_disk := (pv_disk p)\<lparr> as_session := Some se, as_challenge := None, as_challenge_at := None \<rparr> \<rparr>)"
proof
  show "case request_code sd address p of
      (Inl e, q, calls) \<Rightarrow> q = p
    | (Inr _, q, calls) \<Rightarrow> \<exists>ch. sd_otp sd = Inr ch
        \<and> as_challenge (pv_disk q) = Some ch \<and> as_challenge_at (pv_disk q) = Some (sd_later sd)
        \<and> as_email (pv_disk q) = trim_space address \<and> as_session (pv_disk q) = as_session (pv_disk p)
        \<and> (as_uuid (pv_disk p) = [] \<or> as_uuid (pv_disk q) = as_uuid (pv_disk p))"
  proof (cases "with_uuid (sd_random sd) (pv_disk p)")
    case (Inl e)
    then show ?thesis by (simp add: request_code_def Let_def split: option.split)
  next
    case (Inr s)
    then have u: "s = (pv_disk p)\<lparr> as_uuid := as_uuid s \<rparr>" "as_uuid (pv_disk p) \<noteq> [] \<longrightarrow> s = pv_disk p"
      using with_uuid_result [OF Inr] by blast+
    have "as_session s = as_session (pv_disk p)" by (subst u(1)) simp
    moreover have "as_uuid (pv_disk p) = [] \<or> as_uuid s = as_uuid (pv_disk p)" using u(2) by metis
    ultimately show ?thesis
      by (simp add: request_code_def Inr finish_save_def save_state_def Let_def split: option.split sum.split)
  qed
  obtain r q calls where s: "submit_code cfg sd typed p = (r, q, calls)" by (metis prod_cases3)
  then show "case submit_code cfg sd typed p of
      (Inl e, q, calls) \<Rightarrow> q = p
    | (Inr _, q, calls) \<Rightarrow> \<exists>se. sd_login sd = Inr se \<and> challenge_remaining (sd_now sd) (pv_disk p) \<noteq> None
        \<and> q = p\<lparr> pv_disk := (pv_disk p)\<lparr> as_session := Some se, as_challenge := None, as_challenge_at := None \<rparr> \<rparr>"
    by (cases rule: submit_code_cases) (auto simp: s)
qed

text \<open>Which login attempts a trace holds.\<close>

definition logins :: "account_call list \<Rightarrow> (otp_challenge \<times> string \<times> string) list" where
  "logins calls = List.map_filter (\<lambda>c. case c of AskLogin ch u _ pin \<Rightarrow> Some (ch, u, pin) | _ \<Rightarrow> None) calls"

lemma logins_simps [simp]:
  "logins [] = []" "logins (AskLogin ch u e pin # calls) = (ch, u, pin) # logins calls"
  "logins (AskOtp u e # calls) = logins calls" "logins (AskDevices se # calls) = logins calls"
  "logins (a @ b) = logins a @ logins b"
  by (simp_all add: logins_def List.map_filter_def)

lemma pair_account_logins:
  assumes "pair_account cfg sd s p = (r, q, calls)"
  shows "logins calls = [] \<or> (\<exists>ch. logins calls = [(ch, as_uuid s, pc_otp_code cfg)] \<and> as_challenge s = Some ch
     \<and> challenge_remaining (sd_now sd) s \<noteq> None \<and> pc_otp_code cfg \<noteq> [])"
  using assms by (rule pair_account_cases) auto

lemma with_uuid_challenge:
  assumes "with_uuid r s = Inr s'" and "disk_ok s" and "as_challenge s' = Some ch"
  shows "s' = s"
proof -
  have u: "s' = s\<lparr> as_uuid := as_uuid s' \<rparr>" "as_uuid s \<noteq> [] \<longrightarrow> s' = s"
    using with_uuid_result [OF assms(1)] by blast+
  have "as_challenge s' = as_challenge s" by (subst u(1)) simp
  then have "as_challenge s \<noteq> None" using assms(3) by (metis option.distinct(1))
  then have "as_uuid s \<noteq> []" using assms(2) by (simp add: disk_ok_def)
  with u(2) show ?thesis by blast
qed

definition login_allowed :: "provider_config \<Rightarrow> int \<Rightarrow> provider \<Rightarrow> account_call list \<Rightarrow> bool" where
  "login_allowed cfg now p calls \<longleftrightarrow>
     logins calls = []
   \<or> (\<exists>ch. logins calls = [(ch, as_uuid (pv_disk p), pc_otp_code cfg)] \<and> as_challenge (pv_disk p) = Some ch
        \<and> as_session (pv_disk p) = None \<and> challenge_remaining now (pv_disk p) \<noteq> None \<and> pc_otp_code cfg \<noteq> [])"

lemma pair_login_allowed:
  assumes w: "with_uuid (sd_random sd) (pv_disk p) = Inr s" and ok: "provider_ok p" and none: "as_session s = None"
    and pr: "pair_account cfg sd s p = (r, q, calls)"
  shows "login_allowed cfg (sd_now sd) p calls"
proof -
  have d: "disk_ok (pv_disk p)" using ok by (simp add: provider_ok_def)
  from pair_account_logins [OF pr] show ?thesis
  proof
    assume "logins calls = []"
    then show ?thesis by (simp add: login_allowed_def)
  next
    assume "\<exists>ch. logins calls = [(ch, as_uuid s, pc_otp_code cfg)] \<and> as_challenge s = Some ch
       \<and> challenge_remaining (sd_now sd) s \<noteq> None \<and> pc_otp_code cfg \<noteq> []"
    then obtain ch where c: "logins calls = [(ch, as_uuid s, pc_otp_code cfg)]" "as_challenge s = Some ch"
      "challenge_remaining (sd_now sd) s \<noteq> None" "pc_otp_code cfg \<noteq> []" by blast
    have "s = pv_disk p" using with_uuid_challenge [OF w d c(2)] .
    with c none show ?thesis by (simp add: login_allowed_def)
  qed
qed

lemma session_ready_login_allowed:
  assumes "session_ready cfg sd p s1 se q calls" and ok: "provider_ok p"
  shows "login_allowed cfg (sd_now sd) p calls"
proof -
  obtain s where w: "with_uuid (sd_random sd) (pv_disk p) = Inr s"
    and c: "calls = [] \<or> as_session s = None \<and> pair_account cfg sd s p = (Inr s1, q, calls)"
    using assms(1) unfolding session_ready_def by blast
  from c show ?thesis
  proof
    assume "calls = []"
    then show ?thesis by (simp add: login_allowed_def)
  next
    assume "as_session s = None \<and> pair_account cfg sd s p = (Inr s1, q, calls)"
    then show ?thesis using pair_login_allowed [OF w ok] by blast
  qed
qed

lemma forgotten_no_login:
  assumes "pair_account cfg sd2 (forget_session s) q = (r, q', calls)"
  shows "logins calls = []"
proof -
  have "as_challenge (forget_session s) = None" by (simp add: forget_session_def)
  then show ?thesis using pair_account_logins [OF assms] by auto
qed

lemma login_allowed_more: "login_allowed cfg now p calls \<Longrightarrow> logins calls' = [] \<Longrightarrow> login_allowed cfg now p (calls @ calls')"
  by (auto simp: login_allowed_def)

text \<open>C31: a code is sent to the account service at most once per restore, only while there is no
  session, only against the challenge on disk, under the identity that challenge was requested
  for, and only as long as that challenge is younger than its fifteen minutes; after the server
  has rejected a session no code is sent at all.\<close>

theorem dead_code_never_sent:
  assumes "restore_account cfg sd sd2 ld p = (r, q, calls)" and ok: "provider_ok p"
  shows "logins calls = []
   \<or> (\<exists>ch. logins calls = [(ch, as_uuid (pv_disk p), pc_otp_code cfg)] \<and> as_challenge (pv_disk p) = Some ch
        \<and> as_session (pv_disk p) = None \<and> pc_otp_code cfg \<noteq> []
        \<and> (\<exists>at. as_challenge_at (pv_disk p) = Some at \<and> sd_now sd - at < challenge_ttl))"
proof -
  have "login_allowed cfg (sd_now sd) p calls"
    using assms(1)
  proof (cases rule: restore_account_cases)
    case early
    then show ?thesis by (simp add: login_allowed_def)
  next
    case (unpaired s e)
    then show ?thesis using pair_login_allowed [OF _ ok] by blast
  next
    case failed
    then show ?thesis using login_allowed_more session_ready_login_allowed [OF _ ok] by simp
  next
    case (rejected s1 se q1 calls1 e r2 calls2)
    then show ?thesis
      using login_allowed_more session_ready_login_allowed [OF _ ok] forgotten_no_login [OF rejected(4)] by simp
  next
    case empty
    then show ?thesis using login_allowed_more session_ready_login_allowed [OF _ ok] by simp
  next
    case listed
    then show ?thesis using login_allowed_more session_ready_login_allowed [OF _ ok] by simp
  qed
  moreover have "\<exists>at. as_challenge_at (pv_disk p) = Some at \<and> sd_now sd - at < challenge_ttl"
    if "as_challenge (pv_disk p) \<noteq> None" "challenge_remaining (sd_now sd) (pv_disk p) \<noteq> None"
    using that ok by (auto simp: provider_ok_def disk_ok_def challenge_remaining_def split: if_splits)
  ultimately show ?thesis unfolding login_allowed_def by fastforce
qed

theorem dead_code_never_sent_witness:
  "logins (snd (snd (restore_account (sample_provider_config\<lparr> pc_otp_code := ''123456'' \<rparr>) sample_surroundings
      sample_surroundings (\<lambda>_. Inr []) sample_waiting))) \<in>
     {[], [(sample_challenge, ''00000000-0000-4000-8000-000000000000'', ''123456'')]}"
proof -
  obtain r q calls where e: "restore_account (sample_provider_config\<lparr> pc_otp_code := ''123456'' \<rparr>) sample_surroundings
      sample_surroundings (\<lambda>_. Inr []) sample_waiting = (r, q, calls)" by (metis prod_cases3)
  have "provider_ok sample_waiting" using request_code_ok [OF sample_request fresh_provider_ok] .
  from dead_code_never_sent [OF e this]
  have "logins calls = [] \<or> logins calls = [(sample_challenge, ''00000000-0000-4000-8000-000000000000'', ''123456'')]"
    by (auto simp: sample_waiting_def)
  then show ?thesis by (simp add: e)
qed

lemma pair_account_last_good: "pair_account cfg sd s p = (r, q, calls) \<Longrightarrow> pv_last_good q = pv_last_good p"
  by (erule pair_account_cases) auto

lemma session_ready_disk:
  assumes "session_ready cfg sd p s1 se q calls"
  shows "pv_last_good q = pv_last_good p \<and> as_session (pv_disk q) = Some se"
proof -
  obtain s where w: "with_uuid (sd_random sd) (pv_disk p) = Inr s" and se: "as_session s1 = Some se"
    and c: "s1 = s \<and> q = p \<or> pair_account cfg sd s p = (Inr s1, q, calls)"
    using assms unfolding session_ready_def by blast
  from c show ?thesis
  proof
    assume "s1 = s \<and> q = p"
    moreover have "as_session s = as_session (pv_disk p)"
      using with_uuid_result [OF w] by (metis account_state.ext_inject account_state.surjective account_state.update_convs(1))
    ultimately show ?thesis using se by simp
  next
    assume pr: "pair_account cfg sd s p = (Inr s1, q, calls)"
    then have "pv_disk q = s1" by (rule pair_account_cases) auto
    then show ?thesis using pair_account_last_good [OF pr] se by simp
  qed
qed

lemma restore_error_keeps:
  assumes "restore_account cfg sd sd2 ld p = (Inl e, q, calls)"
  shows "pv_last_good q = pv_last_good p"
  using assms
proof (cases rule: restore_account_cases)
  case (unpaired s e')
  then show ?thesis using pair_account_last_good by blast
next
  case failed
  then show ?thesis using session_ready_disk by blast
next
  case (rejected s1 se q1 calls1 e' r2 calls2)
  then show ?thesis using session_ready_disk [OF rejected(1)] pair_account_last_good [OF rejected(4)] by simp
next
  case empty
  then show ?thesis using session_ready_disk by blast
qed simp_all

lemma restore_success:
  assumes "restore_account cfg sd sd2 ld p = (Inr cams, q, calls)"
  shows "\<exists>se ds h. as_session (pv_disk q) = Some se \<and> ld se = Inr ds
     \<and> cams = cameras_of cfg h ds \<and> cams \<noteq> [] \<and> pv_last_good q = cams"
  using assms
proof (cases rule: restore_account_cases)
  case (listed s1 se q1 calls1 ds cams')
  then have "as_session (pv_disk q) = Some se" using session_ready_disk [OF listed(1)] by simp
  with listed show ?thesis by auto
next
  case (rejected s1 se q1 calls1 e r2 calls2)
  then show ?thesis by auto
qed simp_all

text \<open>C38: a restore that succeeds returns, sorted by UDID, exactly the devices the account service
  listed for the session now on disk that have an id, a UDID, a SID and a token, and remembers
  them.  \<open>Refresh\<close> returns those; when it fails it returns the cameras of the last success with
  the error, and forgets nothing.\<close>

theorem refresh_keeps_last_good:
  "case refresh_account cfg sd sd2 ld reason p of
     ((cams, None), q, calls) \<Rightarrow> \<exists>se ds h. as_session (pv_disk q) = Some se \<and> ld se = Inr ds
        \<and> sorted (map cc_udid cams) \<and> mset cams = mset (map (camera_of cfg h) (filter usable_device ds))
        \<and> cams \<noteq> [] \<and> pv_last_good q = cams
   | ((cams, Some e), q, calls) \<Rightarrow> cams = pv_last_good p \<and> pv_last_good q = pv_last_good p"
proof -
  obtain r q calls where e: "restore_account cfg sd sd2 ld p = (r, q, calls)" by (metis prod_cases3)
  show ?thesis
  proof (cases r)
    case (Inl err)
    then show ?thesis using restore_error_keeps [of cfg sd sd2 ld p err q calls] e
      by (simp add: refresh_account_def)
  next
    case (Inr cams)
    then obtain se ds h where c: "as_session (pv_disk q) = Some se" "ld se = Inr ds" "cams = cameras_of cfg h ds"
      "cams \<noteq> []" "pv_last_good q = cams"
      using restore_success e by blast
    have "sorted (map cc_udid cams)" "mset cams = mset (map (camera_of cfg h) (filter usable_device ds))"
      by (simp_all add: c(3) cameras_of_def)
    with c show ?thesis by (auto simp: refresh_account_def e Inr)
  qed
qed

end
