(* ===== verification/Web_Pages.thy ===== *)
theory Web_Pages
  imports Ingress Account_Provider Language
begin

text \<open>
  The two pages the add-on serves itself: the camera page (\<open>internal/webui/webui.go\<close>) and the
  pairing page (\<open>internal/pairing/pairing.go\<close>), behind the gate of \<open>Ingress\<close>.

  A handler is a function from the request to its answer and the actions it performed on the
  source behind it; the pairing page's actions are the operations of \<open>Account_Provider\<close> on the
  shared provider.  What a JSON body decodes to is a parameter (\<open>None\<close> is the decoder's error),
  as the catalogs of texts are.
\<close>

subsection \<open>Routing (http.ServeMux)\<close>

text \<open>A path that is not clean is redirected to its clean form, which keeps a trailing slash.\<close>

definition mux_clean :: "string \<Rightarrow> string option" where
  "mux_clean p =
     (if p = [] then Some ''/''
      else (let q = (if has_prefix ''/'' p then p else ''/'' @ p)
            in map_option (\<lambda>np. if last q = slash \<and> np \<noteq> ''/'' then np @ ''/'' else np) (path_clean q)))"

datatype 'a routed = Moved string | Routed 'a

definition mux_route :: "(string \<Rightarrow> 'a) \<Rightarrow> string \<Rightarrow> 'a routed option" where
  "mux_route pick p = map_option (\<lambda>c. if c \<noteq> p then Moved c else Routed (pick p)) (mux_clean p)"

text \<open>The gate every JSON action of both pages passes: the refusal, if any.\<close>

definition post_json :: "http_request \<Rightarrow> (nat \<times> string) option" where
  "post_json r =
     (if req_method r \<noteq> ''POST'' then Some (405, ''method not allowed'')
      else if trim_space (fst (cut CHR '';'' (header_get (req_header r) ''Content-Type''))) \<noteq> ''application/json''
      then Some (415, ''expected a JSON body'')
      else None)"

definition page_language :: "(string \<Rightarrow> rat option) \<Rightarrow> language \<Rightarrow> http_request \<Rightarrow> language" where
  "page_language pf configured r =
     (if configured \<noteq> [] then configured else match_language pf (header_get (req_header r) ''Accept-Language''))"

subsection \<open>The camera page\<close>

record ui_camera =
  uc_id :: string
  uc_name :: string
  uc_model :: string
  uc_stream :: string
  uc_mjpeg_stream :: string
  uc_stream_url :: string
  uc_serving :: bool
  uc_sessions :: int
  uc_temperature :: "rat option"

record overview =
  ov_cameras :: "ui_camera list"
  ov_version :: string
  ov_ready :: bool
  ov_go2rtc_ready :: bool
  ov_mqtt_connected :: bool
  ov_mqtt_enabled :: bool
  ov_reconnects :: nat
  ov_uptime :: int
  ov_stream_host :: string
  ov_can_restart_media :: bool
  ov_can_refresh :: bool

text \<open>The order of the page: by name, then by identifier.\<close>

datatype page_key = Page_key (pk_name: string) (pk_id: string)

definition page_key_less :: "page_key \<Rightarrow> page_key \<Rightarrow> bool" where
  "page_key_less a b \<longleftrightarrow> (if pk_name a \<noteq> pk_name b then pk_name a < pk_name b else pk_id a < pk_id b)"

instantiation page_key :: linorder
begin

definition less_eq_page_key :: "page_key \<Rightarrow> page_key \<Rightarrow> bool" where
  "less_eq_page_key a b \<longleftrightarrow> pk_name a < pk_name b \<or> pk_name a = pk_name b \<and> pk_id a \<le> pk_id b"

definition less_page_key :: "page_key \<Rightarrow> page_key \<Rightarrow> bool" where
  "less_page_key a b \<longleftrightarrow> page_key_less a b"

instance
  by standard (auto simp: less_eq_page_key_def less_page_key_def page_key_less_def page_key.expand split: if_splits)

end

definition page_key_of :: "ui_camera \<Rightarrow> page_key" where
  "page_key_of c = Page_key (uc_name c) (uc_id c)"

datatype source_error = Unsupported | SourceFailed string

datatype ui_action = RestartBridge string | RestartMedia | RefreshCredentials

record ui_source =
  us_overview :: overview
  us_restart :: "string \<Rightarrow> source_error option"
  us_restart_media :: "source_error option"
  us_refresh :: "source_error option"

record ui_server =
  ui_guard :: guard
  ui_has_media :: bool
  ui_has_still :: bool
  ui_language :: language

datatype 'j page_answer = Plain nat string | Page language | PageHead | Json nat 'j | ToMedia | ToStill | Redirected string

datatype ui_json = UiOverview overview | UiStatus string | UiError string

definition new_ui_server :: "bool \<Rightarrow> string list option \<Rightarrow> bool \<Rightarrow> bool \<Rightarrow> language \<Rightarrow> string + ui_server" where
  "new_ui_server has_source cidrs media still lang =
     (if \<not> has_source then Inl ''the web UI needs a camera source''
      else bind_sum (new_authenticator cidrs) (\<lambda>g.
        Inr \<lparr> ui_guard = g, ui_has_media = media, ui_has_still = still, ui_language = lang \<rparr>))"

definition serve_page :: "(string \<Rightarrow> rat option) \<Rightarrow> language \<Rightarrow> http_request \<Rightarrow> 'j page_answer" where
  "serve_page pf lang r =
     (if req_path r \<noteq> ''/'' then Plain 404 ''404 page not found''
      else if req_method r \<noteq> ''GET'' \<and> req_method r \<noteq> ''HEAD'' then Plain 405 ''method not allowed''
      else if req_method r = ''HEAD'' then PageHead
      else Page (page_language pf lang r))"

definition serve_overview :: "ui_source \<Rightarrow> http_request \<Rightarrow> ui_json page_answer" where
  "serve_overview src r =
     (if req_method r \<noteq> ''GET'' then Plain 405 ''method not allowed''
      else Json 200 (UiOverview ((us_overview src)
        \<lparr> ov_cameras := sort_key page_key_of (ov_cameras (us_overview src)) \<rparr>)))"

text \<open>What a failed repair is answered with.\<close>

definition failed_action :: "source_error \<Rightarrow> string \<Rightarrow> ui_json page_answer" where
  "failed_action e message =
     (if e = Unsupported then Json 404 (UiError ''That action is not available here.'')
      else Json 502 (UiError message))"

type_synonym body = string

definition serve_restart :: "ui_source \<Rightarrow> (body \<Rightarrow> string option) \<Rightarrow> http_request \<Rightarrow> body \<Rightarrow> ui_json page_answer \<times> ui_action list" where
  "serve_restart src decode_id r b =
     (case post_json r of
        Some (code, msg) \<Rightarrow> (Plain code msg, [])
      | None \<Rightarrow>
          (case decode_id b of
             None \<Rightarrow> (Json 400 (UiError ''The request could not be read.''), [])
           | Some cam \<Rightarrow>
               ((case us_restart src cam of
                   Some e \<Rightarrow> Json 404 (UiError ''That camera is not running here.'')
                 | None \<Rightarrow> Json 202 (UiStatus ''restarting'')),
                [RestartBridge cam])))"

definition serve_repair :: "source_error option \<Rightarrow> ui_action \<Rightarrow> string \<Rightarrow> string \<Rightarrow> (body \<Rightarrow> unit option) \<Rightarrow> http_request \<Rightarrow> body
    \<Rightarrow> ui_json page_answer \<times> ui_action list" where
  "serve_repair fault action message status decode_empty r b =
     (case post_json r of
        Some (code, msg) \<Rightarrow> (Plain code msg, [])
      | None \<Rightarrow>
          (case decode_empty b of
             None \<Rightarrow> (Json 400 (UiError ''The request could not be read.''), [])
           | Some _ \<Rightarrow>
               ((case fault of Some e \<Rightarrow> failed_action e message | None \<Rightarrow> Json 202 (UiStatus status)), [action])))"

definition media_paths :: "string list" where
  "media_paths = [''/api/webrtc'', ''/api/ws'', ''/api/frame.jpeg'', ''/api/stream.mp4'', ''/api/stream'', ''/api/stream.mjpeg'']"

definition ui_pick ::
    "(string \<Rightarrow> rat option) \<Rightarrow> (body \<Rightarrow> string option) \<Rightarrow> (body \<Rightarrow> unit option) \<Rightarrow> ui_server \<Rightarrow> ui_source
      \<Rightarrow> http_request \<Rightarrow> body \<Rightarrow> string \<Rightarrow> ui_json page_answer \<times> ui_action list" where
  "ui_pick pf decode_id decode_empty srv src r b p =
     (if p = ''/api/cameras'' then (serve_overview src r, [])
      else if p = ''/api/cameras/restart'' then serve_restart src decode_id r b
      else if p = ''/api/media/restart''
      then serve_repair (us_restart_media src) RestartMedia ''The media server could not be restarted.'' ''restarting'' decode_empty r b
      else if p = ''/api/credentials/refresh''
      then serve_repair (us_refresh src) RefreshCredentials ''The credential refresh could not be started.'' ''refreshing'' decode_empty r b
      else if p = ''/camera-still'' \<and> ui_has_still srv then (ToStill, [])
      else if p \<in> set media_paths \<and> ui_has_media srv then (ToMedia, [])
      else (serve_page pf (ui_language srv) r, []))"

definition serve_ui ::
    "(string \<Rightarrow> rat option) \<Rightarrow> (body \<Rightarrow> string option) \<Rightarrow> (body \<Rightarrow> unit option) \<Rightarrow> ui_server \<Rightarrow> ui_source
      \<Rightarrow> http_request \<Rightarrow> body \<Rightarrow> (ui_json page_answer \<times> ui_action list) option" where
  "serve_ui pf decode_id decode_empty srv src r b =
     (case auth_refusal (ui_guard srv) r of
        Some (code, msg) \<Rightarrow> Some (Plain code msg, [])
      | None \<Rightarrow>
          map_option (\<lambda>x. case x of Moved p \<Rightarrow> (Redirected p, []) | Routed y \<Rightarrow> y)
            (mux_route (ui_pick pf decode_id decode_empty srv src r b) (req_path r)))"

subsection \<open>The pairing page\<close>

definition default_request_timeout :: int where
  "default_request_timeout = 30 * second"

record pairing_server =
  pg_guard :: guard
  pg_language :: language
  pg_has_callback :: bool
  pg_request_timeout :: int

definition new_pairing_server ::
    "bool \<Rightarrow> string list option \<Rightarrow> int \<Rightarrow> language \<Rightarrow> bool \<Rightarrow> string + pairing_server" where
  "new_pairing_server has_provider cidrs timeout lang callback =
     (if \<not> has_provider then Inl ''pairing needs a provider''
      else bind_sum (new_authenticator cidrs) (\<lambda>g.
        Inr \<lparr> pg_guard = g, pg_language = lang, pg_has_callback = callback,
              pg_request_timeout = (if timeout \<le> 0 then default_request_timeout else timeout) \<rparr>))"

datatype pairing_json = PjStatus pairing_status | PjError string

text \<open>What the page works on: the provider, the server's \<open>sync.Once\<close> (whether it has been used), and
  how often \<open>onPaired\<close> was started.  A second start would close the caller's channel again, which
  panics.\<close>

record pairing_world =
  pw_provider :: provider
  pw_once :: bool
  pw_runs :: nat

text \<open>\<open>sync.Once.Do\<close>: the first call runs its function, later ones nothing.\<close>

definition once_do :: "(pairing_world \<Rightarrow> pairing_world) \<Rightarrow> pairing_world \<Rightarrow> pairing_world" where
  "once_do f w = (if pw_once w then w else f (w\<lparr> pw_once := True \<rparr>))"

definition start_on_paired :: "pairing_world \<Rightarrow> pairing_world" where
  "start_on_paired w = w\<lparr> pw_runs := pw_runs w + 1 \<rparr>"

text \<open>What the outside does in one request: the provider's surroundings for the action, and the
  fault of the load and the clock of the status that follows.\<close>

record pairing_script =
  px_action :: surroundings
  px_load :: "store_error option"
  px_now :: int

definition pairing_status_answer ::
    "provider_config \<Rightarrow> (string \<Rightarrow> string) \<Rightarrow> pairing_script \<Rightarrow> provider \<Rightarrow> pairing_json page_answer" where
  "pairing_status_answer cfg say x p =
     (case provider_status cfg (px_now x) (px_load x) p of
        Inl e \<Rightarrow> Json 500 (PjError (say ''errState''))
      | Inr st \<Rightarrow> Json 200 (PjStatus st))"

definition serve_status ::
    "provider_config \<Rightarrow> (string \<Rightarrow> string) \<Rightarrow> pairing_script \<Rightarrow> http_request \<Rightarrow> provider \<Rightarrow> pairing_json page_answer" where
  "serve_status cfg say x r p =
     (if req_method r \<noteq> ''GET'' then Plain 405 ''method not allowed'' else pairing_status_answer cfg say x p)"

text \<open>The pairing server's own request handling: its language, its messages, its page and the JSON
  body it demands.\<close>

definition pairing_language :: "(string \<Rightarrow> rat option) \<Rightarrow> pairing_server \<Rightarrow> http_request \<Rightarrow> language" where
  "pairing_language pf srv r =
     (if pg_language srv \<noteq> [] then pg_language srv
      else match_language pf (header_get (req_header r) ''Accept-Language''))"

definition pairing_say ::
    "(string \<Rightarrow> rat option) \<Rightarrow> (language \<times> catalog) list \<Rightarrow> pairing_server \<Rightarrow> http_request \<Rightarrow> string \<Rightarrow> string" where
  "pairing_say pf catalogs srv r key = catalog_text catalogs (pairing_language pf srv r) key"

definition pairing_page :: "(string \<Rightarrow> rat option) \<Rightarrow> pairing_server \<Rightarrow> http_request \<Rightarrow> pairing_json page_answer" where
  "pairing_page pf srv r =
     (if req_path r \<noteq> ''/'' then Plain 404 ''404 page not found''
      else if req_method r \<noteq> ''GET'' \<and> req_method r \<noteq> ''HEAD'' then Plain 405 ''method not allowed''
      else if req_method r = ''HEAD'' then PageHead
      else Page (pairing_language pf srv r))"

definition read_json ::
    "(string \<Rightarrow> string) \<Rightarrow> (body \<Rightarrow> string option) \<Rightarrow> http_request \<Rightarrow> body \<Rightarrow> pairing_json page_answer + string" where
  "read_json say decode r b =
     (if req_method r \<noteq> ''POST'' then Inl (Plain 405 ''method not allowed'')
      else if trim_space (fst (cut CHR '';'' (header_get (req_header r) ''Content-Type''))) \<noteq> ''application/json''
      then Inl (Plain 415 ''expected a JSON body'')
      else (case decode b of
              None \<Rightarrow> Inl (Json 400 (PjError (say ''errBadRequest'')))
            | Some v \<Rightarrow> Inr v))"

definition serve_code ::
    "provider_config \<Rightarrow> (string \<Rightarrow> string) \<Rightarrow> (body \<Rightarrow> string option) \<Rightarrow> pairing_script \<Rightarrow> http_request \<Rightarrow> body
      \<Rightarrow> pairing_world \<Rightarrow> pairing_json page_answer \<times> pairing_world \<times> account_call list" where
  "serve_code cfg say decode x r b w =
     (case read_json say decode r b of
        Inl answer \<Rightarrow> (answer, w, [])
      | Inr email \<Rightarrow>
          (case request_code (px_action x) email (pw_provider w) of
             (Inl e, p, calls) \<Rightarrow> (Json 502 (PjError (say ''errRequestCode'')), w\<lparr> pw_provider := p \<rparr>, calls)
           | (Inr _, p, calls) \<Rightarrow> (pairing_status_answer cfg say x p, w\<lparr> pw_provider := p \<rparr>, calls)))"

definition serve_verify ::
    "pairing_server \<Rightarrow> provider_config \<Rightarrow> (string \<Rightarrow> string) \<Rightarrow> (body \<Rightarrow> string option) \<Rightarrow> pairing_script \<Rightarrow> http_request
      \<Rightarrow> body \<Rightarrow> pairing_world \<Rightarrow> pairing_json page_answer \<times> pairing_world \<times> account_call list" where
  "serve_verify srv cfg say decode x r b w =
     (case read_json say decode r b of
        Inl answer \<Rightarrow> (answer, w, [])
      | Inr pin \<Rightarrow>
          (case submit_code cfg (px_action x) pin (pw_provider w) of
             (Inl e, p, calls) \<Rightarrow>
               (Json 400 (PjError (say (if e = PeNoChallenge then ''errCodeExpired'' else ''errCodeWrong''))),
                w\<lparr> pw_provider := p \<rparr>, calls)
           | (Inr _, p, calls) \<Rightarrow>
               (pairing_status_answer cfg say x p,
                if pg_has_callback srv then once_do start_on_paired (w\<lparr> pw_provider := p \<rparr>)
                else w\<lparr> pw_provider := p \<rparr>, calls)))"

definition pairing_pick ::
    "(string \<Rightarrow> rat option) \<Rightarrow> (language \<times> catalog) list \<Rightarrow> (string \<Rightarrow> body \<Rightarrow> string option) \<Rightarrow> pairing_server
      \<Rightarrow> provider_config \<Rightarrow> pairing_script \<Rightarrow> http_request \<Rightarrow> body \<Rightarrow> pairing_world \<Rightarrow> string
      \<Rightarrow> pairing_json page_answer \<times> pairing_world \<times> account_call list" where
  "pairing_pick pf catalogs decode srv cfg x r b w p =
     (let say = pairing_say pf catalogs srv r
      in if p = ''/api/pairing/status'' then
           (serve_status cfg say x r (pw_provider w), w, [])
         else if p = ''/api/pairing/code'' then serve_code cfg say (decode ''email'') x r b w
         else if p = ''/api/pairing/verify'' then serve_verify srv cfg say (decode ''code'') x r b w
         else (pairing_page pf srv r, w, []))"

definition serve_pairing ::
    "(string \<Rightarrow> rat option) \<Rightarrow> (language \<times> catalog) list \<Rightarrow> (string \<Rightarrow> body \<Rightarrow> string option) \<Rightarrow> pairing_server
      \<Rightarrow> provider_config \<Rightarrow> pairing_script \<Rightarrow> http_request \<Rightarrow> body \<Rightarrow> pairing_world
      \<Rightarrow> (pairing_json page_answer \<times> pairing_world \<times> account_call list) option" where
  "serve_pairing pf catalogs decode srv cfg x r b w =
     (case auth_refusal (pg_guard srv) r of
        Some (code, msg) \<Rightarrow> Some (Plain code msg, w, [])
      | None \<Rightarrow>
          map_option (\<lambda>y. case y of Moved p \<Rightarrow> (Redirected p, w, []) | Routed z \<Rightarrow> z)
            (mux_route (pairing_pick pf catalogs decode srv cfg x r b w) (req_path r)))"

subsection \<open>The properties\<close>

lemma mux_clean_rooted:
  "mux_clean (slash # q) =
     (let np = (if path_elems q = [] then ''/'' else join_slash (path_elems q))
      in Some (if last (slash # q) = slash \<and> np \<noteq> ''/'' then np @ ''/'' else np))"
proof -
  have h: "has_prefix [slash] (slash # q)" by (simp add: has_prefix_def)
  have s: "''/'' = [slash]" by (simp add: slash_def)
  show ?thesis
    unfolding mux_clean_def by (simp only: h if_True Let_def path_clean_rooted s option.map list.distinct if_False)
qed

lemma mux_clean_returns: "\<exists>c. mux_clean p = Some c"
proof (cases "p = [] \<or> has_prefix ''/'' p")
  case True
  then consider "p = []" | q where "p = slash # q" by (cases p) (auto simp: has_prefix_def slash_def)
  then show ?thesis by cases (simp add: mux_clean_def, simp add: mux_clean_rooted Let_def)
next
  case False
  then have "mux_clean p = mux_clean (slash # p)"
    by (simp add: mux_clean_def Let_def) (simp add: has_prefix_def slash_def)
  then show ?thesis by (simp add: mux_clean_rooted Let_def)
qed

lemma mux_clean_endpoints:
  "mux_clean ''/api/cameras/restart'' = Some ''/api/cameras/restart''"
  "mux_clean ''/api/media/restart'' = Some ''/api/media/restart''"
  "mux_clean ''/api/credentials/refresh'' = Some ''/api/credentials/refresh''"
proof -
  have "path_elems ''api/cameras/restart'' = [''api'', ''cameras'', ''restart'']"
      "path_elems ''api/media/restart'' = [''api'', ''media'', ''restart'']"
      "path_elems ''api/credentials/refresh'' = [''api'', ''credentials'', ''refresh'']"
    by code_simp+
  then show "mux_clean ''/api/cameras/restart'' = Some ''/api/cameras/restart''"
      "mux_clean ''/api/media/restart'' = Some ''/api/media/restart''"
      "mux_clean ''/api/credentials/refresh'' = Some ''/api/credentials/refresh''"
    using mux_clean_rooted [of "''api/cameras/restart''"] mux_clean_rooted [of "''api/media/restart''"]
      mux_clean_rooted [of "''api/credentials/refresh''"]
    by (simp_all add: slash_def Let_def)
qed

lemma mux_route_cases:
  obtains (moved) c where "mux_route pick p = Some (Moved c)" "c \<noteq> p" "mux_clean p = Some c"
  | (routed) "mux_route pick p = Some (Routed (pick p))" "mux_clean p = Some p"
proof -
  obtain c where "mux_clean p = Some c" using mux_clean_returns by blast
  then show ?thesis using moved routed by (cases "c = p") (simp_all add: mux_route_def)
qed

lemma serve_restart_acts:
  "snd (serve_restart src di r b) =
     (if post_json r = None then (case di b of None \<Rightarrow> [] | Some cam \<Rightarrow> [RestartBridge cam]) else [])"
  by (auto simp: serve_restart_def split: option.split)

lemma serve_repair_acts:
  "snd (serve_repair fault action message status de r b) = (if post_json r = None \<and> de b \<noteq> None then [action] else [])"
  by (auto simp: serve_repair_def split: option.split)

text \<open>What the request asks the source to do, if it may.\<close>

definition asked_actions :: "(body \<Rightarrow> string option) \<Rightarrow> (body \<Rightarrow> unit option) \<Rightarrow> string \<Rightarrow> body \<Rightarrow> ui_action list" where
  "asked_actions di de p b =
     (if p = ''/api/cameras/restart'' then (case di b of None \<Rightarrow> [] | Some cam \<Rightarrow> [RestartBridge cam])
      else if p = ''/api/media/restart'' \<and> de b \<noteq> None then [RestartMedia]
      else if p = ''/api/credentials/refresh'' \<and> de b \<noteq> None then [RefreshCredentials]
      else [])"

lemma ui_pick_acts:
  "snd (ui_pick pf di de srv src r b p) = (if post_json r = None then asked_actions di de p b else [])"
  by (simp add: ui_pick_def asked_actions_def serve_restart_acts serve_repair_acts)

text \<open>C33: the camera page answers every request, and acts on the cameras only when it was asked to by
  a request that passed the Supervisor's authentication and is a POST of a JSON body, which no
  other site can make a browser send: exactly then does it restart the named camera, the media
  server or the credential refresh, each on its own path and on no other spelling of it.\<close>

theorem ui_acts_when_asked:
  "\<exists>ans. serve_ui pf di de srv src r b = Some (ans,
     if auth_refusal (ui_guard srv) r = None \<and> post_json r = None then asked_actions di de (req_path r) b else [])"
proof (cases "auth_refusal (ui_guard srv) r")
  case (Some x)
  then show ?thesis by (cases x) (simp add: serve_ui_def)
next
  case None
  show ?thesis
  proof (cases rule: mux_route_cases [of "ui_pick pf di de srv src r b" "req_path r"])
    case (moved c)
    then have "asked_actions di de (req_path r) b = []"
      using mux_clean_endpoints by (auto simp: asked_actions_def)
    then show ?thesis using None moved by (simp add: serve_ui_def)
  next
    case routed
    obtain ans acts where pick: "ui_pick pf di de srv src r b (req_path r) = (ans, acts)"
      by (cases "ui_pick pf di de srv src r b (req_path r)")
    then have "acts = (if post_json r = None then asked_actions di de (req_path r) b else [])"
      using ui_pick_acts [of pf di de srv src r b "req_path r"] by simp
    then show ?thesis using None routed pick by (simp add: serve_ui_def)
  qed
qed

text \<open>The overview lists exactly the source's cameras, by name and, where names are equal, by
  identifier.\<close>

theorem overview_sorted:
  "serve_overview src r = Plain 405 ''method not allowed''
   \<or> (\<exists>ov. serve_overview src r = Json 200 (UiOverview ov) \<and> mset (ov_cameras ov) = mset (ov_cameras (us_overview src))
        \<and> sorted (map page_key_of (ov_cameras ov)))"
  by (simp add: serve_overview_def)

lemma read_json_Inr: "read_json say d r b = Inr v \<longleftrightarrow> post_json r = None \<and> d b = Some v"
  by (auto simp: read_json_def post_json_def Let_def split: option.splits if_splits)

text \<open>How one request moves the callback: it is left alone and so is the session, or a session has
  just been stored and its challenge used up, and then the callback starts if there is one and
  none was started before.\<close>

definition callback_step :: "pairing_server \<Rightarrow> pairing_world \<Rightarrow> pairing_world \<Rightarrow> bool" where
  "callback_step srv w w' \<longleftrightarrow>
     pw_once w' = pw_once w \<and> pw_runs w' = pw_runs w
       \<and> as_session (pv_disk (pw_provider w')) = as_session (pv_disk (pw_provider w))
   \<or> as_session (pv_disk (pw_provider w')) \<noteq> None \<and> as_challenge (pv_disk (pw_provider w')) = None
     \<and> pw_once w' = (pw_once w \<or> pg_has_callback srv)
     \<and> pw_runs w' = (if pg_has_callback srv \<and> \<not> pw_once w then pw_runs w + 1 else pw_runs w)"

lemma callback_step_same [simp]: "callback_step srv w w"
  by (simp add: callback_step_def)

lemma with_uuid_session: "with_uuid rnd s = Inr s' \<Longrightarrow> as_session s' = as_session s"
  by (auto simp: with_uuid_def Inr_iffs split: if_splits)

lemma request_code_session:
  "request_code sd a p = (r, q, calls) \<Longrightarrow> as_session (pv_disk q) = as_session (pv_disk p)"
  by (auto simp: request_code_def finish_save_def save_state_def Let_def
      split: if_splits option.splits sum.splits dest: with_uuid_session)

lemma code_trace:
  assumes "serve_code cfg say d x r b w = (ans, w', calls)"
  shows "(post_json r = None \<or> w' = w \<and> calls = []) \<and> callback_step srv w w'"
proof (cases "read_json say d r b")
  case (Inl answer)
  then show ?thesis using assms by (simp add: serve_code_def)
next
  case (Inr email)
  obtain res p cs where s: "request_code (px_action x) email (pw_provider w) = (res, p, cs)" by (metis prod_cases3)
  have "w' = w\<lparr> pw_provider := p \<rparr>" using assms Inr s by (auto simp: serve_code_def split: sum.splits)
  then show ?thesis using Inr request_code_session [OF s] by (simp add: read_json_Inr callback_step_def)
qed

lemma verify_trace:
  assumes "serve_verify srv cfg say d x r b w = (ans, w', calls)"
  shows "(post_json r = None \<or> w' = w \<and> calls = []) \<and> callback_step srv w w'"
proof (cases "read_json say d r b")
  case (Inl answer)
  then show ?thesis using assms by (simp add: serve_verify_def)
next
  case (Inr pin)
  then have post: "post_json r = None" by (simp add: read_json_Inr)
  obtain res p cs where s: "submit_code cfg (px_action x) pin (pw_provider w) = (res, p, cs)" by (metis prod_cases3)
  show ?thesis
  proof (cases res)
    case (Inl e)
    then have "w' = w\<lparr> pw_provider := p \<rparr>" using assms Inr s \<open>res = Inl e\<close>
      using \<open>read_json say d r b = Inr pin\<close> by (simp add: serve_verify_def)
    moreover have "as_session (pv_disk p) = as_session (pv_disk (pw_provider w))"
      using s by (cases rule: submit_code_cases) (use Inl in auto)
    ultimately show ?thesis using post by (simp add: callback_step_def)
  next
    case (Inr u)
    have "as_session (pv_disk p) \<noteq> None \<and> as_challenge (pv_disk p) = None"
      using s by (cases rule: submit_code_cases) (use Inr in auto)
    moreover have "w' = (if pg_has_callback srv then once_do start_on_paired (w\<lparr> pw_provider := p \<rparr>)
        else w\<lparr> pw_provider := p \<rparr>)"
      using assms s Inr \<open>read_json say d r b = Inr pin\<close> by (simp add: serve_verify_def)
    ultimately show ?thesis using post by (simp add: callback_step_def once_do_def start_on_paired_def)
  qed
qed

text \<open>What answering one request of the pairing page can do.\<close>

lemma serve_pairing_cases:
  obtains ans w' calls where "serve_pairing pf catalogs d srv cfg x r b w = Some (ans, w', calls)"
    "auth_refusal (pg_guard srv) r = None \<and> post_json r = None \<or> w' = w \<and> calls = []"
    "callback_step srv w w'"
proof (cases "auth_refusal (pg_guard srv) r")
  case (Some y)
  then show ?thesis using that by (cases y) (simp add: serve_pairing_def)
next
  case None
  let ?pick = "pairing_pick pf catalogs d srv cfg x r b w"
  show ?thesis
  proof (cases rule: mux_route_cases [of ?pick "req_path r"])
    case (moved c)
    then show ?thesis using None that by (simp add: serve_pairing_def)
  next
    case routed
    obtain ans w' calls where pick: "?pick (req_path r) = (ans, w', calls)" by (metis prod_cases3)
    then have "(post_json r = None \<or> w' = w \<and> calls = []) \<and> callback_step srv w w'"
      by (auto simp: pairing_pick_def Let_def split: if_splits dest: code_trace verify_trace)
    then show ?thesis using None routed pick that by (simp add: serve_pairing_def)
  qed
qed

text \<open>Any number of requests, answered one after the other; each comes with what the outside does
  during it.\<close>

fun pairing_run ::
    "(string \<Rightarrow> rat option) \<Rightarrow> (language \<times> catalog) list \<Rightarrow> (string \<Rightarrow> body \<Rightarrow> string option) \<Rightarrow> pairing_server
      \<Rightarrow> provider_config \<Rightarrow> (pairing_script \<times> http_request \<times> body) list \<Rightarrow> pairing_world \<Rightarrow> pairing_world option" where
  "pairing_run pf catalogs d srv cfg [] w = Some w"
| "pairing_run pf catalogs d srv cfg ((x, r, b) # rest) w =
     (case serve_pairing pf catalogs d srv cfg x r b w of
        None \<Rightarrow> None
      | Some (ans, w', calls) \<Rightarrow> pairing_run pf catalogs d srv cfg rest w')"

definition callback_ok :: "pairing_server \<Rightarrow> pairing_world \<Rightarrow> bool" where
  "callback_ok srv w \<longleftrightarrow> pw_runs w = (if pw_once w then 1 else 0)
     \<and> (pw_once w \<longrightarrow> pg_has_callback srv \<and> as_session (pv_disk (pw_provider w)) \<noteq> None)"

lemma callback_step_ok:
  assumes "callback_step srv w w'" and "callback_ok srv w"
  shows "callback_ok srv w' \<and> (pw_once w \<longrightarrow> pw_once w')
    \<and> (pg_has_callback srv \<longrightarrow> as_session (pv_disk (pw_provider w')) \<noteq> as_session (pv_disk (pw_provider w)) \<longrightarrow> pw_once w')"
  using assms by (auto simp: callback_step_def callback_ok_def split: if_splits)

lemma pairing_run_ok:
  "callback_ok srv w \<Longrightarrow>
     \<exists>w'. pairing_run pf catalogs d srv cfg es w = Some w' \<and> callback_ok srv w' \<and> (pw_once w \<longrightarrow> pw_once w')
       \<and> (pg_has_callback srv \<longrightarrow> as_session (pv_disk (pw_provider w')) \<noteq> as_session (pv_disk (pw_provider w)) \<longrightarrow> pw_once w')"
proof (induction es arbitrary: w)
  case Nil
  then show ?case by simp
next
  case (Cons e es)
  obtain x r b where e: "e = (x, r, b)" by (cases e)
  obtain ans v calls where s: "serve_pairing pf catalogs d srv cfg x r b w = Some (ans, v, calls)"
    and step: "callback_step srv w v"
    by (rule serve_pairing_cases [of pf catalogs d srv cfg x r b w]) blast
  from callback_step_ok [OF step Cons.prems] Cons.IH [of v] show ?case
    by (simp add: e s) metis
qed

text \<open>C34: the pairing page answers every request; the stored account state changes and the account
  service is called only for a request that passed the Supervisor's authentication and is a POST
  of a JSON body.  However many requests it answers, one after the other, the callback that
  starts the cameras is started at most once: never without a stored session, and always once
  a request has stored one.\<close>

theorem pairing_page_guarded:
  "(\<exists>ans w' calls. serve_pairing pf catalogs d srv cfg x r b w = Some (ans, w', calls)
     \<and> (auth_refusal (pg_guard srv) r = None \<and> post_json r = None \<or> w' = w \<and> calls = [])
     \<and> (pw_runs w' = pw_runs w
        \<or> pw_runs w' = pw_runs w + 1 \<and> \<not> pw_once w
          \<and> as_session (pv_disk (pw_provider w')) \<noteq> None \<and> as_challenge (pv_disk (pw_provider w')) = None))
   \<and> (\<exists>w'. pairing_run pf catalogs d srv cfg es \<lparr>pw_provider = p, pw_once = False, pw_runs = 0\<rparr> = Some w'
     \<and> pw_runs w' \<le> 1
     \<and> (0 < pw_runs w' \<longrightarrow> pg_has_callback srv \<and> as_session (pv_disk (pw_provider w')) \<noteq> None)
     \<and> (pg_has_callback srv \<longrightarrow> as_session (pv_disk (pw_provider w')) \<noteq> as_session (pv_disk p) \<longrightarrow> pw_runs w' = 1))"
proof (rule conjI)
  show "\<exists>ans w' calls. serve_pairing pf catalogs d srv cfg x r b w = Some (ans, w', calls)
     \<and> (auth_refusal (pg_guard srv) r = None \<and> post_json r = None \<or> w' = w \<and> calls = [])
     \<and> (pw_runs w' = pw_runs w
        \<or> pw_runs w' = pw_runs w + 1 \<and> \<not> pw_once w
          \<and> as_session (pv_disk (pw_provider w')) \<noteq> None \<and> as_challenge (pv_disk (pw_provider w')) = None)"
    by (rule serve_pairing_cases [of pf catalogs d srv cfg x r b w])
      (auto simp: callback_step_def split: if_splits)
  have "callback_ok srv \<lparr>pw_provider = p, pw_once = False, pw_runs = 0\<rparr>" by (simp add: callback_ok_def)
  from pairing_run_ok [OF this] obtain w' where
      run: "pairing_run pf catalogs d srv cfg es \<lparr>pw_provider = p, pw_once = False, pw_runs = 0\<rparr> = Some w'"
    and ok: "callback_ok srv w'"
    and ses: "pg_has_callback srv \<longrightarrow> as_session (pv_disk (pw_provider w')) \<noteq> as_session (pv_disk p) \<longrightarrow> pw_once w'"
    unfolding pairing_world.simps by blast
  have "pw_runs w' \<le> 1
     \<and> (0 < pw_runs w' \<longrightarrow> pg_has_callback srv \<and> as_session (pv_disk (pw_provider w')) \<noteq> None)
     \<and> (pg_has_callback srv \<longrightarrow> as_session (pv_disk (pw_provider w')) \<noteq> as_session (pv_disk p) \<longrightarrow> pw_runs w' = 1)"
    using ok ses by (cases "pw_once w'") (simp_all add: callback_ok_def)
  then show "\<exists>w'. pairing_run pf catalogs d srv cfg es \<lparr>pw_provider = p, pw_once = False, pw_runs = 0\<rparr> = Some w'
     \<and> pw_runs w' \<le> 1
     \<and> (0 < pw_runs w' \<longrightarrow> pg_has_callback srv \<and> as_session (pv_disk (pw_provider w')) \<noteq> None)
     \<and> (pg_has_callback srv \<longrightarrow> as_session (pv_disk (pw_provider w')) \<noteq> as_session (pv_disk p) \<longrightarrow> pw_runs w' = 1)"
    using run by (intro exI [of _ w'] conjI) simp_all
qed

definition sample_pairing_server :: pairing_server where
  "sample_pairing_server = \<lparr> pg_guard = supervisor_networks, pg_language = ''en'', pg_has_callback = True,
     pg_request_timeout = default_request_timeout \<rparr>"

text \<open>A POST of a JSON body whose decoded field is the body itself.\<close>

definition sample_ask :: "string \<Rightarrow> body \<Rightarrow> pairing_script \<times> http_request \<times> body" where
  "sample_ask path b =
     (\<lparr> px_action = sample_surroundings, px_load = None, px_now = 60 * second \<rparr>,
      \<lparr> req_method = ''POST'', req_path = path, req_query = [], req_remote = ''172.30.32.2:40000'',
        req_header = header_set ''Content-Type'' ''application/json'' (header_set user_id_header ''1'' (\<lambda>_. [])) \<rparr>, b)"

lemma sample_ask_routed:
  assumes "mux_clean path = Some path"
  shows "pairing_run pf catalogs d sample_pairing_server cfg (sample_ask path b # es) w =
    pairing_run pf catalogs d sample_pairing_server cfg es
      (fst (snd (pairing_pick pf catalogs d sample_pairing_server cfg (fst (sample_ask path b))
         (fst (snd (sample_ask path b))) b w path)))"
proof -
  obtain x r where e: "sample_ask path b = (x, r, b)" and p: "req_path r = path"
    and r: "req_remote r = ''172.30.32.2:40000''" "header_get (req_header r) user_id_header = ''1''"
    by (simp add: sample_ask_def go_simps user_id_header_def)
  have "guard_allow (Some (pg_guard sample_pairing_server)) ''172.30.32.2:40000''" by code_simp
  then have "auth_refusal (pg_guard sample_pairing_server) r = None" by (simp add: auth_refusal_def r)
  moreover let ?pick = "pairing_pick pf catalogs d sample_pairing_server cfg x r b w"
  have "mux_route ?pick (req_path r) = Some (Routed (?pick path))"
    using assms by (simp add: mux_route_def p)
  ultimately show ?thesis
    unfolding e pairing_run.simps serve_pairing_def
    by (simp del: pairing_run.simps split: prod.split)
qed

lemma mux_clean_pairing:
  "mux_clean ''/api/pairing/verify'' = Some ''/api/pairing/verify''"
  "mux_clean ''/api/pairing/code'' = Some ''/api/pairing/code''"
proof -
  have "path_elems ''api/pairing/verify'' = [''api'', ''pairing'', ''verify'']"
      "path_elems ''api/pairing/code'' = [''api'', ''pairing'', ''code'']"
    by code_simp+
  then show "mux_clean ''/api/pairing/verify'' = Some ''/api/pairing/verify''"
      "mux_clean ''/api/pairing/code'' = Some ''/api/pairing/code''"
    using mux_clean_rooted [of "''api/pairing/verify''"] mux_clean_rooted [of "''api/pairing/code''"]
    by (simp_all add: slash_def Let_def)
qed

text \<open>Pairing twice, with a second code in between: the callback is started once.\<close>

theorem pairing_page_guarded_witness:
  "case pairing_run (\<lambda>_. None) [] (\<lambda>_ b. Some b) sample_pairing_server sample_provider_config
       [sample_ask ''/api/pairing/verify'' ''123456'', sample_ask ''/api/pairing/code'' ''a@b.c'',
        sample_ask ''/api/pairing/verify'' ''654321''] \<lparr>pw_provider = sample_waiting, pw_once = False, pw_runs = 0\<rparr> of
     None \<Rightarrow> False | Some w \<Rightarrow> pw_runs w = 1 \<and> as_session (pv_disk (pw_provider w)) = Some sample_session"
proof -
  let ?es = "[sample_ask ''/api/pairing/verify'' ''123456'', sample_ask ''/api/pairing/code'' ''a@b.c'',
        sample_ask ''/api/pairing/verify'' ''654321'']"
  let ?run = "pairing_run (\<lambda>_. None) [] (\<lambda>_ b. Some b) sample_pairing_server sample_provider_config ?es
      \<lparr>pw_provider = sample_waiting, pw_once = False, pw_runs = 0\<rparr>"
  obtain w where run: "?run = Some w"
    and once: "pg_has_callback sample_pairing_server \<longrightarrow>
      as_session (pv_disk (pw_provider w)) \<noteq> as_session (pv_disk sample_waiting) \<longrightarrow> pw_runs w = 1"
    using pairing_page_guarded [THEN conjunct2, of "\<lambda>_. None" "[]" "\<lambda>_ b. Some b" sample_pairing_server
        sample_provider_config ?es sample_waiting] by blast
  have "map_option (\<lambda>w. as_session (pv_disk (pw_provider w))) ?run = Some (Some sample_session)"
    unfolding sample_ask_routed [OF mux_clean_pairing(1)] sample_ask_routed [OF mux_clean_pairing(2)]
    by code_simp
  then have s: "as_session (pv_disk (pw_provider w)) = Some sample_session" by (simp add: run)
  moreover have "pg_has_callback sample_pairing_server" "as_session (pv_disk sample_waiting) = None"
    by (simp_all add: sample_pairing_server_def sample_waiting_def)
  ultimately show ?thesis using once by (simp add: run)
qed

end
