(* ===== verification/Page_Texts.thy ===== *)
theory Page_Texts
  imports Page_Render Web_Pages
begin

text \<open>
  The translations of the two pages (\<open>internal/webui/strings.go\<close>, \<open>internal/pairing/strings.go\<close>) as
  the association lists they are, in UTF-8, and what building a page from them at start-up gives.

  The authored markup of the pages is not part of the model.  Instead a markup is any sequence of
  literal pieces and slots for translations, and rendering is shown never to panic for any markup
  whose slots name strings the catalogs have.
\<close>

section \<open>The catalogs\<close>

definition ui_english :: catalog where
  "ui_english = [
    (''htmlLang'', ''en''),
    (''title'', ''Motorola Nursery Homeassistant Bridge''),
    (''diagnostics'', ''Diagnostics''),
    (''noCameras'', ''No cameras yet.''),
    (''uptime'', ''Uptime''),
    (''bridgeRestarts'', ''Bridge restarts''),
    (''streamConnections'', ''Stream connections''),
    (''camerasServing'', ''Cameras serving''),
    (''mediaServer'', ''Media server''),
    (''mqtt'', ''MQTT''),
    (''streamHost'', ''Stream host''),
    (''restartMedia'', ''Restart media server''),
    (''refreshCredsBtn'', ''Refresh credentials''),
    (''watchLive'', ''Watch live''),
    (''stop'', ''Stop''),
    (''retry'', ''Retry''),
    (''soundOn'', ''Sound on''),
    (''soundOff'', ''Sound off''),
    (''fullscreen'', ''Fullscreen''),
    (''saveStill'', ''Save still''),
    (''copyRTSP'', ''Copy RTSP URL''),
    (''copied'', ''Copied''),
    (''restart'', ''Restart''),
    (''rtspURL'', ''RTSP URL''),
    (''paused'', ''paused''),
    (''unavailable'', ''unavailable''),
    (''connecting'', ''connecting {mode}''),
    (''connected'', ''Connected''),
    (''reconnecting'', ''Reconnecting''),
    (''sessionOne'', ''stream connection''),
    (''sessionMany'', ''stream connections''),
    (''mediaUp'', ''Media server up''),
    (''mediaDown'', ''Media server down''),
    (''mqttConnected'', ''MQTT connected''),
    (''mqttDisconnected'', ''MQTT disconnected''),
    (''valueUp'', ''up''),
    (''valueDown'', ''down''),
    (''valueConnected'', ''connected''),
    (''valueDisconnected'', ''disconnected''),
    (''valueOff'', ''off''),
    (''notSet'', ''not set''),
    (''servingOf'', ''{serving} of {total}''),
    (''mediaDownNote'', ''The media server is not answering, so live video and stills are unavailable.''),
    (''unreachable'', ''Could not reach the add-on.''),
    (''restartFailed'', ''That camera could not be restarted.''),
    (''noAnswer'', ''The add-on did not answer.''),
    (''actionFailed'', ''That did not work. The add-on log has the reason.''),
    (''restarting'', ''Restarting'' @ [CHR 0xE2, CHR 0x80, CHR 0xA6]),
    (''restartStarted'', ''Restarting''),
    (''refreshing'', ''Refreshing'' @ [CHR 0xE2, CHR 0x80, CHR 0xA6]),
    (''refreshStarted'', ''Refresh started''),
    (''hostHint'',
      ''This add-on advertises {advertised} for RTSP and WebRTC, but you reached this ''
      @ ''page at {here}. If live video keeps falling back to MSE, or an RTSP URL from here does ''
      @ ''not resolve, set stream_host to an address your players can reach.''),
    (''unitDay'', ''d''),
    (''unitHour'', ''h''),
    (''unitMinute'', ''m''),
    (''noPicture'', ''no picture''),
    (''timedOut'', ''timed out after {seconds}s''),
    (''notSupported'', ''not supported by this browser''),
    (''peerState'', ''peer connection {state}''),
    (''negotiationFailed'', ''negotiation failed''),
    (''signalling'', ''signalling returned {status}''),
    (''noCodec'', ''no supported codec''),
    (''websocketBlocked'', ''websocket blocked''),
    (''websocketError'', ''websocket error''),
    (''websocketClosed'', ''websocket closed''),
    (''bufferRejected'', ''buffer rejected''),
    (''codecRefused'', ''codec refused: {codec}''),
    (''refused'', ''refused''),
    (''streamRefused'', ''stream refused'')]"

definition ui_dutch :: catalog where
  "ui_dutch = [
    (''htmlLang'', ''nl''),
    (''title'', ''Motorola Nursery Homeassistant Bridge''),
    (''diagnostics'', ''Diagnose''),
    (''noCameras'', ''Nog geen camera's.''),
    (''uptime'', ''Draaitijd''),
    (''bridgeRestarts'', ''Herstarts van de bridge''),
    (''streamConnections'', ''Streamverbindingen''),
    (''camerasServing'', ''Actieve camera's''),
    (''mediaServer'', ''Mediaserver''),
    (''mqtt'', ''MQTT''),
    (''streamHost'', ''Streamhost''),
    (''restartMedia'', ''Mediaserver herstarten''),
    (''refreshCredsBtn'', ''Inloggegevens vernieuwen''),
    (''watchLive'', ''Live bekijken''),
    (''stop'', ''Stoppen''),
    (''retry'', ''Opnieuw proberen''),
    (''soundOn'', ''Geluid aan''),
    (''soundOff'', ''Geluid uit''),
    (''fullscreen'', ''Volledig scherm''),
    (''saveStill'', ''Foto opslaan''),
    (''copyRTSP'', ''RTSP-URL kopi'' @ [CHR 0xC3, CHR 0xAB] @ ''ren''),
    (''copied'', ''Gekopieerd''),
    (''restart'', ''Herstarten''),
    (''rtspURL'', ''RTSP-URL''),
    (''paused'', ''gepauzeerd''),
    (''unavailable'', ''geen beeld''),
    (''connecting'', ''verbinden via {mode}''),
    (''connected'', ''Verbonden''),
    (''reconnecting'', ''Opnieuw verbinden''),
    (''sessionOne'', ''streamverbinding''),
    (''sessionMany'', ''streamverbindingen''),
    (''mediaUp'', ''Mediaserver actief''),
    (''mediaDown'', ''Mediaserver onbereikbaar''),
    (''mqttConnected'', ''MQTT verbonden''),
    (''mqttDisconnected'', ''MQTT niet verbonden''),
    (''valueUp'', ''actief''),
    (''valueDown'', ''onbereikbaar''),
    (''valueConnected'', ''verbonden''),
    (''valueDisconnected'', ''niet verbonden''),
    (''valueOff'', ''uit''),
    (''notSet'', ''niet ingesteld''),
    (''servingOf'', ''{serving} van {total}''),
    (''mediaDownNote'', ''De mediaserver antwoordt niet, dus live beeld en foto's zijn niet beschikbaar.''),
    (''unreachable'', ''De add-on is niet bereikbaar.''),
    (''restartFailed'', ''Deze camera kon niet worden herstart.''),
    (''noAnswer'', ''De add-on gaf geen antwoord.''),
    (''actionFailed'', ''Dat is niet gelukt. De reden staat in het logboek van de add-on.''),
    (''restarting'', ''Herstarten'' @ [CHR 0xE2, CHR 0x80, CHR 0xA6]),
    (''restartStarted'', ''Herstart gestart''),
    (''refreshing'', ''Vernieuwen'' @ [CHR 0xE2, CHR 0x80, CHR 0xA6]),
    (''refreshStarted'', ''Vernieuwen gestart''),
    (''hostHint'',
      ''Deze add-on geeft {advertised} op voor RTSP en WebRTC, maar je opende deze ''
      @ ''pagina op {here}. Valt live beeld steeds terug op MSE, of komt een RTSP-URL van hier ''
      @ ''nergens uit, stel stream_host dan in op een adres dat je spelers kunnen bereiken.''),
    (''unitDay'', ''d''),
    (''unitHour'', ''u''),
    (''unitMinute'', ''m''),
    (''noPicture'', ''geen beeld''),
    (''timedOut'', ''geen beeld na {seconds}s''),
    (''notSupported'', ''niet ondersteund door deze browser''),
    (''peerState'', ''peerverbinding {state}''),
    (''negotiationFailed'', ''onderhandeling mislukt''),
    (''signalling'', ''signalering gaf {status}''),
    (''noCodec'', ''geen ondersteunde codec''),
    (''websocketBlocked'', ''websocket geblokkeerd''),
    (''websocketError'', ''websocketfout''),
    (''websocketClosed'', ''websocket gesloten''),
    (''bufferRejected'', ''buffer geweigerd''),
    (''codecRefused'', ''codec geweigerd: {codec}''),
    (''refused'', ''geweigerd''),
    (''streamRefused'', ''stream geweigerd'')]"

definition pairing_english :: catalog where
  "pairing_english = [
    (''htmlLang'', ''en''),
    (''title'', ''Pair Motorola Nursery Homeassistant Bridge''),
    (''heading'', ''Pair your Motorola Nursery account''),
    (''lede'',
      ''Motorola emails a one-time code. Nothing here is stored in the add-on ''
      @ ''configuration, and the add-on does not need a restart.''),
    (''emailLabel'', ''Account email''),
    (''emailHint'', ''The address you use in the Motorola Nursery app.''),
    (''sendCode'', ''Send code''),
    (''codeLabel'', ''Code from the email''),
    (''finishPairing'', ''Finish pairing''),
    (''resend'', ''Send a new code''),
    (''pairedTitle'', ''Paired.''),
    (''pairedBody'',
      ''The add-on is starting your cameras now. This page becomes the stream ''
      @ ''view once they are up '' @ [CHR 0xE2, CHR 0x80, CHR 0x94] @ '' give it a moment, then reload.''),
    (''stepOne'', ''Enter the email address of your Motorola Nursery account.''),
    (''stepTwo'', ''Open the email from Motorola and copy the code.''),
    (''stepThree'', ''Paste it here. Codes expire, so request a new one if it is refused.''),
    (''sentToOne'', ''Sent to {email}. Valid for about {minutes} more minute.''),
    (''sentToMany'', ''Sent to {email}. Valid for about {minutes} more minutes.''),
    (''enterCode'', ''Enter the code from the email.''),
    (''enterEmail'', ''Enter the email address of your Motorola account.''),
    (''codeSent'', ''Code sent. It can take a minute to arrive.''),
    (''newCodeSent'', ''A new code is on its way.''),
    (''somethingWrong'', ''Something went wrong.''),
    (''noAnswer'', ''The add-on did not answer. Is it still running?''),
    (''unreachable'', ''Could not reach the add-on.''),
    (''errState'', ''Could not read the pairing state.''),
    (''errRequestCode'', ''Could not request a code. Check the address and try again.''),
    (''errCodeWrong'', ''That code was not accepted. Check it and try again.''),
    (''errCodeExpired'', ''That code has expired. Request a new one.''),
    (''errBadRequest'', ''The request could not be read.'')]"

definition pairing_dutch :: catalog where
  "pairing_dutch = [
    (''htmlLang'', ''nl''),
    (''title'', ''Motorola Nursery Homeassistant Bridge koppelen''),
    (''heading'', ''Koppel je Motorola Nursery-account''),
    (''lede'',
      ''Motorola mailt je een eenmalige code. Niets hiervan wordt in de configuratie ''
      @ ''van de add-on bewaard, en de add-on hoeft niet opnieuw te starten.''),
    (''emailLabel'', ''E-mailadres van het account''),
    (''emailHint'', ''Het adres dat je in de Motorola Nursery-app gebruikt.''),
    (''sendCode'', ''Code versturen''),
    (''codeLabel'', ''Code uit de e-mail''),
    (''finishPairing'', ''Koppelen afronden''),
    (''resend'', ''Nieuwe code sturen''),
    (''pairedTitle'', ''Gekoppeld.''),
    (''pairedBody'',
      ''De add-on start nu je camera's. Deze pagina wordt het camerabeeld zodra ''
      @ ''ze draaien '' @ [CHR 0xE2, CHR 0x80, CHR 0x94] @ '' geef het even de tijd en herlaad de pagina.''),
    (''stepOne'', ''Vul het e-mailadres van je Motorola Nursery-account in.''),
    (''stepTwo'', ''Open de e-mail van Motorola en kopieer de code.''),
    (''stepThree'', ''Plak hem hier. Codes verlopen, dus vraag een nieuwe aan als hij wordt geweigerd.''),
    (''sentToOne'', ''Verstuurd naar {email}. Nog ongeveer {minutes} minuut geldig.''),
    (''sentToMany'', ''Verstuurd naar {email}. Nog ongeveer {minutes} minuten geldig.''),
    (''enterCode'', ''Vul de code uit de e-mail in.''),
    (''enterEmail'', ''Vul het e-mailadres van je Motorola-account in.''),
    (''codeSent'', ''Code verstuurd. Hij kan een minuut onderweg zijn.''),
    (''newCodeSent'', ''Er is een nieuwe code onderweg.''),
    (''somethingWrong'', ''Er ging iets mis.''),
    (''noAnswer'', ''De add-on gaf geen antwoord. Draait hij nog?''),
    (''unreachable'', ''De add-on is niet bereikbaar.''),
    (''errState'', ''De koppelstatus kon niet worden gelezen.''),
    (''errRequestCode'', ''Er kon geen code worden aangevraagd. Controleer het adres en probeer het opnieuw.''),
    (''errCodeWrong'', ''Die code is niet geaccepteerd. Controleer hem en probeer het opnieuw.''),
    (''errCodeExpired'', ''Die code is verlopen. Vraag een nieuwe aan.''),
    (''errBadRequest'', ''Het verzoek kon niet worden gelezen.'')]"

definition ui_catalogs :: "(language \<times> catalog) list" where
  "ui_catalogs = [(english, ui_english), (dutch, ui_dutch)]"

definition pairing_catalogs :: "(language \<times> catalog) list" where
  "pairing_catalogs = [(english, pairing_english), (dutch, pairing_dutch)]"

text \<open>\<open>pageFor\<close>: the default language's page for a language without one.\<close>

definition page_for :: "(language \<times> string) list \<Rightarrow> language \<Rightarrow> string" where
  "page_for pages l =
     (case map_of pages l of
        Some page \<Rightarrow> page
      | None \<Rightarrow> (case map_of pages english of Some page \<Rightarrow> page | None \<Rightarrow> []))"

section \<open>A markup with slots\<close>

datatype piece = Literal string | Slot string

fun authored :: "piece \<Rightarrow> string" where
  "authored (Literal s) = s"
| "authored (Slot k) = token k"

fun filled :: "catalog \<Rightarrow> string \<Rightarrow> piece \<Rightarrow> string" where
  "filled c dictionary (Literal s) = s"
| "filled c dictionary (Slot k) = (if k = ''strings'' then dictionary else the (map_of c k))"

text \<open>A text without a mark in it, and without half a mark at its end.\<close>

definition calm :: "string \<Rightarrow> bool" where
  "calm s \<longleftrightarrow> find_mark s = None \<and> (s = [] \<or> last s \<noteq> CHR ''%'')"

lemma calm_simps [simp]: "calm []" "calm [c] \<longleftrightarrow> c \<noteq> CHR ''%''"
  "calm (a # b # s) \<longleftrightarrow> \<not> (a = CHR ''%'' \<and> b = CHR ''%'') \<and> calm (b # s)"
  by (auto simp: calm_def)

lemma calm_Cons: "calm (c # s) \<longleftrightarrow> \<not> (c = CHR ''%'' \<and> (s = [] \<or> hd s = CHR ''%'')) \<and> calm s"
  by (cases s) auto

lemma calm_append: "calm a \<Longrightarrow> calm b \<Longrightarrow> calm (a @ b)"
proof (induction a)
  case Nil
  then show ?case by simp
next
  case (Cons c a)
  then show ?case by (cases a) (auto simp: calm_Cons simp del: calm_simps(3))
qed

lemma calm_concat: "list_all calm xs \<Longrightarrow> calm (concat xs)"
  by (induction xs) (simp_all add: calm_append)

lemma calm_no_mark: "calm s \<Longrightarrow> find_mark s = None"
  by (simp add: calm_def)

text \<open>A catalog whose keys and values can be told from marks.\<close>

definition plain_catalog :: "catalog \<Rightarrow> bool" where
  "plain_catalog c \<longleftrightarrow> list_all (\<lambda>(k, v). CHR ''%'' \<notin> set k \<and> k \<noteq> ''strings'' \<and> calm v \<and> v \<noteq> [] \<and> markup v = []) c"

lemma plain_catalog_faultless: "plain_catalog c \<Longrightarrow> first_catalog_fault c = None"
  by (auto simp: first_catalog_fault_None plain_catalog_def list_all_iff)

lemma first_match_marked:
  assumes "first_match (replacements c d) s = Some (old, v)"
  shows "take 2 s = ''%%''"
proof -
  have "(old, v) \<in> set (replacements c d)" and t: "take (length old) s = old"
    using assms unfolding first_match_def find_Some_iff by (metis nth_mem, auto)
  then obtain r where "old = ''%%'' @ r" by (auto simp: replacements_def token_def token_mark_def dictionary_token_def)
  with t show ?thesis by (cases s rule: find_mark.cases) auto
qed

lemma replace_calm:
  "calm a \<Longrightarrow> replace_all (replacements c d) (a @ s) = a @ replace_all (replacements c d) s"
proof (induction a)
  case Nil
  then show ?case by simp
next
  case (Cons x a)
  have "take 2 (x # a @ s) \<noteq> ''%%''"
    using Cons.prems by (cases a) auto
  then have "first_match (replacements c d) (x # a @ s) = None"
    using first_match_marked [of c d "x # a @ s"] by (cases "first_match (replacements c d) (x # a @ s)") auto
  moreover have "calm a" using Cons.prems by (cases a) auto
  ultimately show ?case using Cons.IH by (simp add: replace_all.simps [of _ "x # a @ s"])
qed

text \<open>A slot is replaced by its own string: no other key's token can begin where it stands.\<close>

lemma token_prefix:
  assumes "CHR ''%'' \<notin> set k" and "CHR ''%'' \<notin> set k'" and "take (length (token k')) (token k @ s) = token k'"
  shows "k' = k"
proof -
  obtain r where "token k @ s = token k' @ r" using assms(3) by (metis append_take_drop_id)
  then have eq: "k @ CHR ''%'' # CHR ''%'' # s = k' @ CHR ''%'' # CHR ''%'' # r"
    by (simp add: token_def token_mark_def)
  have "takeWhile (\<lambda>c. c \<noteq> CHR ''%'') (k @ CHR ''%'' # t) = k" if "CHR ''%'' \<notin> set k" for k t
    using that by (induction k) auto
  from this [OF assms(1), of "CHR ''%'' # s"] this [OF assms(2), of "CHR ''%'' # r"] eq show ?thesis by simp
qed

lemma first_match_slot:
  assumes "plain_catalog c" and "k \<in> insert ''strings'' (set (map fst c))"
  shows "first_match (replacements c d) (token k @ s) = Some (token k, filled c d (Slot k))"
proof -
  have k: "CHR ''%'' \<notin> set k" using assms by (auto simp: plain_catalog_def list_all_iff)
  have dict: "dictionary_token = token ''strings''" by (simp add: dictionary_token_def token_def token_mark_def)
  have only: "take (length (token k')) (token k @ s) = token k' \<longleftrightarrow> k' = k" if "CHR ''%'' \<notin> set k'" for k'
    using token_prefix [OF k that] by auto
  have nonempty: "token k' \<noteq> []" for k' by (simp add: token_def token_mark_def)
  show ?thesis
    using assms unfolding first_match_def replacements_def
  proof (induction c)
    case Nil
    then show ?case using only [of "''strings''"] by (auto simp: dict nonempty)
  next
    case (Cons kv c)
    obtain k' v where kv: "kv = (k', v)" by fastforce
    have p: "CHR ''%'' \<notin> set k'" "k' \<noteq> ''strings''" "plain_catalog c"
      using Cons.prems(1) kv by (simp_all add: plain_catalog_def)
    show ?case
    proof (cases "k' = k")
      case True
      then show ?thesis using kv p only by (auto simp: nonempty)
    next
      case False
      then show ?thesis using Cons.IH p Cons.prems(2) kv only [OF p(1)] by (auto simp: nonempty)
    qed
  qed
qed

lemma replace_slot:
  assumes "plain_catalog c" and "k \<in> insert ''strings'' (set (map fst c))"
  shows "replace_all (replacements c d) (token k @ s) = filled c d (Slot k) @ replace_all (replacements c d) s"
proof -
  have "token k \<noteq> []" by (simp add: token_def token_mark_def)
  then show ?thesis
    using first_match_slot [OF assms, of d s]
    by (simp add: replace_all.simps [of _ "token k @ s"] del: filled.simps)
qed

text \<open>The pieces a page may be made of: literals that are calm, slots that name a string.\<close>

fun piece_ok :: "catalog \<Rightarrow> piece \<Rightarrow> bool" where
  "piece_ok c (Literal s) = calm s"
| "piece_ok c (Slot k) = (k \<in> insert ''strings'' (set (map fst c)))"

lemma replace_pieces:
  assumes "plain_catalog c"
  shows "list_all (piece_ok c) ps \<Longrightarrow>
     replace_all (replacements c d) (concat (map authored ps)) = concat (map (filled c d) ps)"
proof (induction ps)
  case Nil
  then show ?case by (simp add: replace_all.simps)
next
  case (Cons p ps)
  then show ?case by (cases p) (simp_all add: replace_calm replace_slot [OF assms])
qed

lemma filled_calm:
  assumes "plain_catalog c" and "piece_ok c p" and "calm d"
  shows "calm (filled c d p)"
proof (cases p)
  case (Slot k)
  have "calm (the (map_of c k))" if "k \<noteq> ''strings''"
  proof -
    have "k \<in> fst ` set c" using that assms(2) Slot by auto
    then obtain v where "map_of c k = Some v" by (metis map_of_eq_None_iff not_None_eq)
    then show ?thesis using assms(1) map_of_SomeD by (fastforce simp: plain_catalog_def list_all_iff)
  qed
  then show ?thesis using Slot assms(3) by simp
qed (use assms in simp)

lemma render_page_pieces:
  assumes "plain_catalog c" and "list_all (piece_ok c) ps" and "json c = Inr d" and "calm d"
  shows "render_page json (concat (map authored ps)) c = Inr (concat (map (filled c d) ps))"
proof -
  have "calm (concat (map (filled c d) ps))"
    using assms(2) filled_calm [OF assms(1) _ assms(4)] by (intro calm_concat) (auto simp: list_all_iff)
  then show ?thesis
    using assms(3) plain_catalog_faultless [OF assms(1)] replace_pieces [OF assms(1,2)] calm_no_mark
    by (simp add: render_page_def Let_def)
qed

section \<open>Start-up never fails over a translation\<close>

lemma shipped_catalogs_plain:
  "plain_catalog ui_english" "plain_catalog ui_dutch" "plain_catalog pairing_english" "plain_catalog pairing_dutch"
  by code_simp+

lemma shipped_keys:
  "map fst ui_dutch = map fst ui_english" "map fst pairing_dutch = map fst pairing_english"
  by code_simp+

lemma render_two:
  assumes "plain_catalog en" and "plain_catalog nl" and "map fst nl = map fst en" and "list_all (piece_ok en) ps"
    and "json en = Inr d" and "json nl = Inr e" and "calm d" and "calm e"
  shows "must_render_pages json (concat (map authored ps)) [(english, en), (dutch, nl)]
    = Some [(english, concat (map (filled en d) ps)), (dutch, concat (map (filled nl e) ps))]"
proof -
  have "set (map fst nl) = set (map fst en)" using assms(3) by simp
  then have "list_all (piece_ok nl) ps"
    using assms(4) by (auto simp: list_all_iff elim!: piece_ok.elims)
  note page = render_page_pieces [where json = json, OF assms(1,4,5,7)]
    render_page_pieces [where json = json, OF assms(2) this assms(6,8)]
  have "same_keys en en = None" "same_keys en nl = None" using assms(3) by (simp_all add: same_keys_None)
  then show ?thesis
    by (simp add: must_render_pages_def render_pages_def supported_languages_def english_def dutch_def
        page [unfolded english_def dutch_def])
qed

text \<open>Building the pages from the shipped catalogs never panics, for every markup whose slots name
  strings of the English catalog.\<close>

lemma catalogs_render:
  assumes "list_all (\<lambda>c. json c = Inr (dict c) \<and> calm (dict c)) [ui_english, ui_dutch, pairing_english, pairing_dutch]"
    and "list_all (piece_ok ui_english) ui" and "list_all (piece_ok pairing_english) pairing"
  shows "must_render_pages json (concat (map authored ui)) ui_catalogs
      = Some [(english, concat (map (filled ui_english (dict ui_english)) ui)),
              (dutch, concat (map (filled ui_dutch (dict ui_dutch)) ui))]
    \<and> must_render_pages json (concat (map authored pairing)) pairing_catalogs
      = Some [(english, concat (map (filled pairing_english (dict pairing_english)) pairing)),
              (dutch, concat (map (filled pairing_dutch (dict pairing_dutch)) pairing))]"
  unfolding ui_catalogs_def pairing_catalogs_def
  using assms by (intro conjI render_two shipped_catalogs_plain shipped_keys) simp_all

text \<open>What the pairing page answers a refused request with is in the language of the page itself, for
  every configured language and every browser: the lookup falls back neither to English nor to
  the key.\<close>

definition refusal_keys :: "string list" where
  "refusal_keys = [''errState'', ''errRequestCode'', ''errCodeWrong'', ''errCodeExpired'', ''errBadRequest'']"

lemma refusal_keys_shipped:
  "list_all (\<lambda>k. map_of pairing_english k \<noteq> None \<and> map_of pairing_dutch k \<noteq> None) refusal_keys"
  by code_simp

theorem refusals_translated:
  assumes "pg_language srv = [] \<or> pg_language srv \<in> set supported_languages" and "key \<in> set refusal_keys"
  shows "\<exists>c. map_of pairing_catalogs (pairing_language pf srv r) = Some c
    \<and> map_of c key = Some (pairing_say pf pairing_catalogs srv r key)"
proof -
  have "pairing_language pf srv r \<in> set supported_languages"
    using assms(1) match_language_supported by (auto simp: pairing_language_def)
  then obtain c where c: "map_of pairing_catalogs (pairing_language pf srv r) = Some c" "c \<in> {pairing_english, pairing_dutch}"
    by (auto simp: supported_languages_def pairing_catalogs_def english_def dutch_def)
  moreover have "map_of c key \<noteq> None"
    using refusal_keys_shipped assms(2) c(2) by (auto simp: list_all_iff)
  ultimately show ?thesis by (auto simp: pairing_say_def catalog_text_def)
qed

end
