(* ===== verification/Page_Markup.thy ===== *)
theory Page_Markup
  imports Page_Texts
begin

text \<open>
  The authored markup of the two pages (\<open>internal/webui/page.go\<close>, \<open>internal/pairing/page.go\<close>) where it
  has slots for translations: the head of the document up to its style sheet, and the body from
  the end of the style sheet to the line of the script that receives the dictionary.  The style
  sheet and the rest of the script have no slot and are arguments.

  A grave accent stands for the double quote in what \<open>quoted\<close> is applied to.
\<close>

section \<open>The markup\<close>

definition quoted :: "string \<Rightarrow> string" where
  "quoted s = map (\<lambda>c. if c = CHR 0x60 then CHR 0x22 else c) s"

definition line :: "piece list \<Rightarrow> piece list" where
  "line ps = ps @ [Literal [CHR 0x0A]]"

definition em_dash :: piece where
  "em_dash = Literal [CHR 0xE2, CHR 0x80, CHR 0x94]"

definition ui_head :: "piece list" where
  "ui_head = concat [
    line [Literal ''<!doctype html>''],
    line [Literal (quoted ''<html lang=`''), Slot ''htmlLang'', Literal (quoted ''`>'')],
    line [Literal ''<head>''],
    line [Literal (quoted ''<meta charset=`utf-8`>'')],
    line [Literal (quoted ''<meta name=`viewport` content=`width=device-width, initial-scale=1`>'')],
    line [Literal ''<title>'', Slot ''title'', Literal ''</title>''],
    line [Literal ''<style>'']]"

definition ui_body :: "piece list" where
  "ui_body = concat [
    line [Literal ''</style>''],
    line [Literal ''</head>''],
    line [Literal ''<body>''],
    line [Literal ''<main>''],
    line [Literal ''  <header>''],
    line [Literal ''    <h1>'', Slot ''title'', Literal ''</h1>''],
    line [Literal (quoted ''    <span class=`chip` id=`version`></span>'')],
    line [Literal (quoted ''    <span class=`chip` id=`media` hidden></span>'')],
    line [Literal (quoted ''    <span class=`chip` id=`mqtt` hidden></span>'')],
    line [Literal (quoted ''    <button id=`diag-toggle`>''), Slot ''diagnostics'', Literal ''</button>''],
    line [Literal ''  </header>''],
    line [Literal (quoted ''  <div id=`message` class=`note` hidden></div>'')],
    line [Literal (quoted ''  <div class=`grid` id=`cameras`></div>'')],
    line [Literal (quoted ''  <p class=`empty` id=`empty` hidden>''), Slot ''noCameras'', Literal ''</p>''],
    line [Literal (quoted ''  <section class=`diag` id=`diag` hidden>'')],
    line [Literal ''    <dl>''],
    line [Literal ''      <div><dt>'', Slot ''uptime'', Literal (quoted ''</dt><dd id=`d-uptime`>''), em_dash, Literal ''</dd></div>''],
    line [Literal ''      <div><dt>'', Slot ''bridgeRestarts'', Literal (quoted ''</dt><dd id=`d-restarts`>''), em_dash, Literal ''</dd></div>''],
    line [Literal ''      <div><dt>'', Slot ''streamConnections'', Literal (quoted ''</dt><dd id=`d-sessions`>''), em_dash, Literal ''</dd></div>''],
    line [Literal ''      <div><dt>'', Slot ''camerasServing'', Literal (quoted ''</dt><dd id=`d-serving`>''), em_dash, Literal ''</dd></div>''],
    line [Literal ''      <div><dt>'', Slot ''mediaServer'', Literal (quoted ''</dt><dd id=`d-media`>''), em_dash, Literal ''</dd></div>''],
    line [Literal ''      <div><dt>'', Slot ''mqtt'', Literal (quoted ''</dt><dd id=`d-mqtt`>''), em_dash, Literal ''</dd></div>''],
    line [Literal ''      <div><dt>'', Slot ''streamHost'', Literal (quoted ''</dt><dd id=`d-host`>''), em_dash, Literal ''</dd></div>''],
    line [Literal ''    </dl>''],
    line [Literal (quoted ''    <p class=`hint` id=`host-hint` hidden></p>'')],
    line [Literal (quoted ''    <div class=`actions`>'')],
    line [Literal (quoted ''      <button id=`media-restart` hidden>''), Slot ''restartMedia'', Literal ''</button>''],
    line [Literal (quoted ''      <button id=`creds-refresh` hidden>''), Slot ''refreshCredsBtn'', Literal ''</button>''],
    line [Literal ''    </div>''],
    line [Literal ''  </section>''],
    line [Literal ''</main>''],
    line [Literal ''<script>''],
    line [Literal ''(function () {''],
    line [Literal ''  // Every string this script shows comes from here, rendered into the page in''],
    line [Literal ''  // the reader's language. t() fills the {placeholders} in the ones that carry''],
    line [Literal ''  // a value, so a translation can put the value where its grammar wants it.''],
    line [Literal ''  var T = '', Slot ''strings'', Literal '';'']]"

definition pairing_head :: "piece list" where
  "pairing_head = concat [
    line [Literal ''<!doctype html>''],
    line [Literal (quoted ''<html lang=`''), Slot ''htmlLang'', Literal (quoted ''`>'')],
    line [Literal ''<head>''],
    line [Literal (quoted ''<meta charset=`utf-8`>'')],
    line [Literal (quoted ''<meta name=`viewport` content=`width=device-width, initial-scale=1`>'')],
    line [Literal ''<title>'', Slot ''title'', Literal ''</title>''],
    line [Literal ''<style>'']]"

definition pairing_body :: "piece list" where
  "pairing_body = concat [
    line [Literal ''</style>''],
    line [Literal ''</head>''],
    line [Literal ''<body>''],
    line [Literal ''<main>''],
    line [Literal (quoted ''  <div class=`card`>'')],
    line [Literal ''    <h1>'', Slot ''heading'', Literal ''</h1>''],
    line [Literal (quoted ''    <p class=`lede`>''), Slot ''lede'', Literal ''</p>''],
    line [],
    line [Literal (quoted ''    <section id=`step-email`>'')],
    line [Literal (quoted ''      <label for=`email`>''), Slot ''emailLabel'', Literal ''</label>''],
    line [Literal (quoted ''      <input id=`email` type=`email` autocomplete=`email` inputmode=`email`'')],
    line [Literal (quoted ''             placeholder=`you@example.com` autofocus>'')],
    line [Literal (quoted ''      <p class=`hint`>''), Slot ''emailHint'', Literal ''</p>''],
    line [Literal (quoted ''      <button id=`send`>''), Slot ''sendCode'', Literal ''</button>''],
    line [Literal ''    </section>''],
    line [],
    line [Literal (quoted ''    <section id=`step-code` hidden>'')],
    line [Literal (quoted ''      <label for=`code`>''), Slot ''codeLabel'', Literal ''</label>''],
    line [Literal (quoted ''      <input id=`code` type=`text` inputmode=`numeric` autocomplete=`one-time-code`'')],
    line [Literal (quoted ''             placeholder=`000000`>'')],
    line [Literal (quoted ''      <p class=`hint` id=`code-hint`></p>'')],
    line [Literal (quoted ''      <div class=`row`>'')],
    line [Literal (quoted ''        <button id=`verify`>''), Slot ''finishPairing'', Literal ''</button>''],
    line [Literal (quoted ''        <button id=`resend` class=`link` type=`button`>''), Slot ''resend'', Literal ''</button>''],
    line [Literal ''      </div>''],
    line [Literal ''    </section>''],
    line [],
    line [Literal (quoted ''    <section id=`step-done` hidden>'')],
    line [Literal (quoted ''      <p class=`note good`><strong>''), Slot ''pairedTitle'', Literal ''</strong> '', Slot ''pairedBody'', Literal ''</p>''],
    line [Literal ''    </section>''],
    line [],
    line [Literal (quoted ''    <div id=`message` class=`note bad` hidden></div>'')],
    line [Literal ''  </div>''],
    line [],
    line [Literal (quoted ''  <div class=`card`>'')],
    line [Literal ''    <ol>''],
    line [Literal ''      <li>'', Slot ''stepOne'', Literal ''</li>''],
    line [Literal ''      <li>'', Slot ''stepTwo'', Literal ''</li>''],
    line [Literal ''      <li>'', Slot ''stepThree'', Literal ''</li>''],
    line [Literal ''    </ol>''],
    line [Literal ''  </div>''],
    line [Literal ''</main>''],
    line [Literal ''<script>''],
    line [Literal ''(function () {''],
    line [Literal ''  // Every string this script shows comes from here, rendered into the page in''],
    line [Literal ''  // the reader's language. t() fills the {placeholders} in the ones that carry''],
    line [Literal ''  // a value, so a translation can put the value where its grammar wants it.''],
    line [Literal ''  var T = '', Slot ''strings'', Literal '';'']]"

definition ui_page :: "string \<Rightarrow> string \<Rightarrow> piece list" where
  "ui_page style script = ui_head @ [Literal style] @ ui_body @ [Literal script]"

definition pairing_markup :: "string \<Rightarrow> string \<Rightarrow> piece list" where
  "pairing_markup style script = pairing_head @ [Literal style] @ pairing_body @ [Literal script]"

section \<open>Both pages render\<close>

lemma markup_slots_named:
  "list_all (piece_ok ui_english) ui_head" "list_all (piece_ok ui_english) ui_body"
  "list_all (piece_ok pairing_english) pairing_head" "list_all (piece_ok pairing_english) pairing_body"
  by code_simp+

text \<open>C40: No translation keeps the program from starting, and each page is what its author wrote with
  the language's own strings in the slots: building the two pages from the markup and the catalogs
  the program ships with never panics and gives one page per language, for every style sheet and
  script without a mark and every JSON text of the catalogs without one.\<close>

theorem shipped_pages_render:
  assumes "list_all (\<lambda>c. json c = Inr (dict c) \<and> calm (dict c)) [ui_english, ui_dutch, pairing_english, pairing_dutch]"
    and "calm style" and "calm script" and "calm style'" and "calm script'"
  shows "must_render_pages json (concat (map authored (ui_page style script))) ui_catalogs
      = Some [(english, concat (map (filled ui_english (dict ui_english)) (ui_page style script))),
              (dutch, concat (map (filled ui_dutch (dict ui_dutch)) (ui_page style script)))]
    \<and> must_render_pages json (concat (map authored (pairing_markup style' script'))) pairing_catalogs
      = Some [(english, concat (map (filled pairing_english (dict pairing_english)) (pairing_markup style' script'))),
              (dutch, concat (map (filled pairing_dutch (dict pairing_dutch)) (pairing_markup style' script')))]"
  using assms markup_slots_named
  by (intro catalogs_render) (simp_all add: ui_page_def pairing_markup_def)

theorem shipped_pages_render_witness:
  "\<exists>pages. must_render_pages (\<lambda>c. Inr ''{}'') (concat (map authored (ui_page ''p{width:100%}'' ''</script>''))) ui_catalogs = Some pages
     \<and> map fst pages = [''en'', ''nl'']"
  using shipped_pages_render [of "\<lambda>c. Inr ''{}''" "\<lambda>c. ''{}''" "''p{width:100%}''" "''</script>''" "[]" "[]"]
  by (simp add: english_def dutch_def)

text \<open>What a script fills in at run time is named alike in both languages: every translation has the
  placeholders of the English string, so no value is lost and no brace is left on the page.\<close>

fun placeholders :: "string \<Rightarrow> string list" where
  "placeholders [] = []"
| "placeholders (c # s) =
     (if c = CHR ''{'' then
        (case cut CHR ''}'' s of (name, _, found) \<Rightarrow> if found then name # placeholders s else placeholders s)
      else placeholders s)"

definition same_placeholders :: "catalog \<Rightarrow> catalog \<Rightarrow> bool" where
  "same_placeholders en nl \<longleftrightarrow>
     list_all2 (\<lambda>(k, v) (k', v'). k = k' \<and> set (placeholders v) = set (placeholders v')) en nl"

theorem translations_keep_placeholders:
  "same_placeholders ui_english ui_dutch \<and> same_placeholders pairing_english pairing_dutch"
  by code_simp

end
