(* ===== verification/Bridge_Config.thy ===== *)
theory Bridge_Config
  imports Tunnel Identity
begin

text \<open>
  A camera's credentials and the bridge made from them (internal/bridge/bridge.go): the
  validation, the defaults \<open>New\<close> fills in, the target port and the session names.  Durations
  are nanoseconds.
\<close>

definition default_target_port :: int where
  "default_target_port = 6667"

definition default_idle_timeout :: int where
  "default_idle_timeout = 60 * second"

definition default_keep_alive_period :: int where
  "default_keep_alive_period = 30 * second"

definition default_max_sessions :: int where
  "default_max_sessions = 16"

definition default_dial_budget :: int where
  "default_dial_budget = 25 * second"

definition default_refusal_cooldown :: int where
  "default_refusal_cooldown = 10 * second"

record credentials =
  cr_device_id :: "32 word"
  cr_sid :: string
  cr_token :: string
  cr_udid :: string
  cr_name :: string
  cr_model :: string
  cr_control_host :: string
  cr_control_port :: int
  cr_target_port :: int
  cr_api_host :: string
  cr_api_port :: int

definition validate_credentials :: "credentials \<Rightarrow> string option" where
  "validate_credentials c =
     (if cr_sid c = [] then Some ''credentials: SID is required''
      else if cr_token c = [] then Some ''credentials: device token is required''
      else if cr_control_host c = [] then Some ''credentials: control host is required''
      else None)"

record bridge_config =
  bc_listen_addr :: string
  bc_credentials :: credentials
  bc_dial_timeout :: int
  bc_dial_retries :: int
  bc_dial_backoff :: int
  bc_dial_budget :: int
  bc_idle_timeout :: int
  bc_keep_alive :: int
  bc_max_sessions :: int
  bc_refusal_cooldown :: int

text \<open>The bridge itself.  A refusal is the connection number the relay answered with and its
  response text; \<open>br_refusal\<close> is \<open>None\<close> as long as the relay has refused nothing, which is when
  the Go fields \<open>refusedAt\<close> and \<open>refusal\<close> are zero.\<close>

type_synonym refusal = "int \<times> string"

record bridge =
  br_cfg :: bridge_config
  br_magic_uuid :: string
  br_dial_timeout :: int
  br_dial_retries :: int
  br_dial_backoff :: int
  br_dial_budget :: int
  br_idle_timeout :: int
  br_keep_alive :: int
  br_max_sessions :: int
  br_refusal_cooldown :: int
  br_listener :: "string option"
  br_sessions :: int
  br_active :: int
  br_conns :: "nat set"
  br_closing :: bool
  br_refusal :: "(int \<times> refusal) option"

datatype new_bridge_error = NoListenAddress | BadCredentials string | NoMagicUuid identity_error

definition or_default :: "int \<Rightarrow> int \<Rightarrow> int" where
  "or_default v d = (if v = 0 then d else v)"

definition new_bridge :: "bridge_config \<Rightarrow> new_bridge_error + bridge" where
  "new_bridge cfg =
     (if bc_listen_addr cfg = [] then Inl NoListenAddress else
      case validate_credentials (bc_credentials cfg) of
        Some err \<Rightarrow> Inl (BadCredentials err)
      | None \<Rightarrow>
     (case generate_magic_uuid (cr_device_id (bc_credentials cfg)) (cr_sid (bc_credentials cfg))
             (cr_token (bc_credentials cfg)) of
        Inl err \<Rightarrow> Inl (NoMagicUuid err)
      | Inr uuid \<Rightarrow>
          (let retries = or_default (bc_dial_retries cfg) 2 in
           Inr \<lparr>br_cfg = cfg, br_magic_uuid = uuid,
              br_dial_timeout = or_default (bc_dial_timeout cfg) (15 * second),
              br_dial_retries = (if retries < 0 then 0 else retries),
              br_dial_backoff = or_default (bc_dial_backoff cfg) second,
              br_dial_budget = or_default (bc_dial_budget cfg) default_dial_budget,
              br_idle_timeout = or_default (bc_idle_timeout cfg) default_idle_timeout,
              br_keep_alive = or_default (bc_keep_alive cfg) default_keep_alive_period,
              br_max_sessions = or_default (bc_max_sessions cfg) default_max_sessions,
              br_refusal_cooldown = or_default (bc_refusal_cooldown cfg) default_refusal_cooldown,
              br_listener = None, br_sessions = 0, br_active = 0, br_conns = {},
              br_closing = False, br_refusal = None\<rparr>)))"

definition target_port :: "bridge \<Rightarrow> int" where
  "target_port b =
     (if cr_target_port (bc_credentials (br_cfg b)) \<noteq> 0
      then cr_target_port (bc_credentials (br_cfg b)) else default_target_port)"

text \<open>Sixteen random bytes as a version 4 UUID.\<close>

definition fresh_session_name :: "bytes \<Rightarrow> string" where
  "fresh_session_name random =
     (let b = random[6 := (random ! 6 AND 0x0f) OR 0x40];
          b = b[8 := (b ! 8 AND 0x3f) OR 0x80]
      in hex_encode (take 4 b) @ ''-'' @ hex_encode (take 2 (drop 4 b)) @ ''-''
         @ hex_encode (take 2 (drop 6 b)) @ ''-'' @ hex_encode (take 2 (drop 8 b)) @ ''-''
         @ hex_encode (take 6 (drop 10 b)))"

lemma fresh_session_name_ok:
  assumes "length random = 16"
  shows "length (fresh_session_name random) = 36 \<and> ident_ok 9999 (fresh_session_name random)"
proof -
  have p: "list_all printable (hex_encode bs)" for bs by (simp add: hex_printable hex_encode_chars)
  have l: "length (fresh_session_name random) = 36"
    using assms by (simp add: fresh_session_name_def Let_def length_hex_encode)
  have "list_all printable (fresh_session_name random)"
    by (simp add: fresh_session_name_def Let_def p printable_def)
  with l show ?thesis by (auto simp: ident_ok_def)
qed

lemma or_default_nonzero [simp]: "d \<noteq> 0 \<Longrightarrow> or_default v d \<noteq> 0"
  by (simp add: or_default_def)

lemmas default_consts = second_def default_dial_budget_def default_idle_timeout_def
  default_keep_alive_period_def default_max_sessions_def default_refusal_cooldown_def

text \<open>A bridge that was made has a relay identifier every request accepts, a retry count that is
  not negative, and no zero duration.\<close>

lemma new_bridge_ok:
  assumes "new_bridge cfg = Inr b"
  shows "ident_ok 999 (br_magic_uuid b) \<and> 0 \<le> br_dial_retries b \<and> br_dial_timeout b \<noteq> 0
    \<and> br_dial_backoff b \<noteq> 0 \<and> br_dial_budget b \<noteq> 0 \<and> br_idle_timeout b \<noteq> 0
    \<and> br_keep_alive b \<noteq> 0 \<and> br_max_sessions b \<noteq> 0 \<and> br_refusal_cooldown b \<noteq> 0
    \<and> br_active b = 0 \<and> br_conns b = {} \<and> br_refusal b = None \<and> br_cfg b = cfg"
proof -
  have "case new_bridge cfg of Inl _ \<Rightarrow> True
     | Inr b \<Rightarrow> (\<exists>u. generate_magic_uuid (cr_device_id (bc_credentials cfg))
          (cr_sid (bc_credentials cfg)) (cr_token (bc_credentials cfg)) = Inr u \<and> br_magic_uuid b = u)
       \<and> 0 \<le> br_dial_retries b \<and> br_dial_timeout b \<noteq> 0
       \<and> br_dial_backoff b \<noteq> 0 \<and> br_dial_budget b \<noteq> 0 \<and> br_idle_timeout b \<noteq> 0
       \<and> br_keep_alive b \<noteq> 0 \<and> br_max_sessions b \<noteq> 0 \<and> br_refusal_cooldown b \<noteq> 0
       \<and> br_active b = 0 \<and> br_conns b = {} \<and> br_refusal b = None \<and> br_cfg b = cfg"
    unfolding new_bridge_def Let_def
    by (simp add: default_consts split: option.split sum.split)
  with assms show ?thesis by (auto dest: generate_magic_uuid_ok)
qed

text \<open>Credentials the witnesses use.\<close>

definition sample_credentials :: credentials where
  "sample_credentials = \<lparr>cr_device_id = 7, cr_sid = ''SID-1'', cr_token = ''ab'', cr_udid = ''U1'',
     cr_name = ''Nursery'', cr_model = ''VM65'', cr_control_host = ''c.example'', cr_control_port = 0,
     cr_target_port = 0, cr_api_host = [], cr_api_port = 0\<rparr>"

end
