(* ===== verification/Bridge_Dial.thy ===== *)
theory Bridge_Dial
  imports Bridge_Config
begin

text \<open>
  Opening a relay session for one client (internal/bridge/bridge.go): the retry loop with its
  exponential backoff, the cooldown after a refusal, and the gate that lets one of the
  sessions that waited out a cooldown ask the relay while the others take its answer.

  One session's dial is a function of a script (what the network and the context do); the
  concurrent gate is a step relation over all sessions.
\<close>

subsection \<open>The retry loop\<close>

text \<open>What attempt \<open>i\<close> meets: whether the context ended during the wait before it, the network of
  the attempt, whether the context had ended after it, and the time then.\<close>

record attempt =
  at_wait_err :: "string option"
  at_random :: bytes
  at_deadline :: "int option"
  at_start :: int
  at_net :: dial_script
  at_ctx_err :: "string option"
  at_now :: int

datatype dial_outcome =
    DialOpened tunnel
  | ContextEnded string
  | DialFault dial_error
  | SharedRefusal refusal int
  | NothingTried

datatype retry_event = Waited int | Tried "dial_error option"

text \<open>\<open>errors.As(err, &refused)\<close>: the only error of \<open>Dial\<close> that wraps a refusal.\<close>

definition refusal_of :: "dial_error \<Rightarrow> refusal option" where
  "refusal_of e = (case e of
       StepFailed _ (AnswerFault (RelayRefused n response)) \<Rightarrow> Some (n, response)
     | _ \<Rightarrow> None)"

definition note_refusal :: "bridge \<Rightarrow> int \<Rightarrow> refusal \<Rightarrow> bridge" where
  "note_refusal b now r = b\<lparr>br_refusal := Some (now, r)\<rparr>"

definition tunnel_config_of :: "bridge \<Rightarrow> bytes \<Rightarrow> tunnel_config" where
  "tunnel_config_of b random =
     (let c = bc_credentials (br_cfg b) in
      \<lparr>tc_control_host = cr_control_host c, tc_control_port = cr_control_port c,
       tc_magic = br_magic_uuid b, tc_target = target_port b,
       tc_session = fresh_session_name random, tc_token = cr_token c, tc_handshake_timeout = 0\<rparr>)"

definition try_dial :: "bridge \<Rightarrow> attempt \<Rightarrow> dial_error + tunnel" where
  "try_dial b a =
     fst (dial_tunnel (tunnel_config_of b (at_random a))
            (Some (case at_deadline a of
                     Some d \<Rightarrow> min d (at_start a + br_dial_timeout b)
                   | None \<Rightarrow> at_start a + br_dial_timeout b))
            (at_start a) (at_net a))"

text \<open>\<open>left\<close> attempts remain, \<open>n\<close> were made; the loop's error so far is \<open>prev\<close>.\<close>

fun retry_loop ::
  "bridge \<Rightarrow> nat \<Rightarrow> nat \<Rightarrow> int \<Rightarrow> dial_outcome \<Rightarrow> (nat \<Rightarrow> attempt)
     \<Rightarrow> bridge \<times> dial_outcome \<times> retry_event list" where
  "retry_loop b 0 n backoff prev script = (b, prev, [])"
| "retry_loop b (Suc left) n backoff prev script =
     (case (if 0 < n then at_wait_err (script n) else None) of
        Some err \<Rightarrow> (b, ContextEnded err, [])
      | None \<Rightarrow>
          (let waited = (if 0 < n then [Waited backoff] else []);
               backoff' = (if 0 < n then wrap64 (backoff * 2) else backoff)
           in case try_dial b (script n) of
                Inr tun \<Rightarrow> (b, DialOpened tun, waited @ [Tried None])
              | Inl err \<Rightarrow>
                  (case at_ctx_err (script n) of
                     Some e \<Rightarrow> (b, ContextEnded e, waited @ [Tried (Some err)])
                   | None \<Rightarrow>
                       (case refusal_of err of
                          Some r \<Rightarrow> (note_refusal b (at_now (script n)) r, DialFault err,
                                     waited @ [Tried (Some err)])
                        | None \<Rightarrow>
                            (let (b', out, evs) = retry_loop b left (Suc n) backoff' (DialFault err) script
                             in (b', out, waited @ Tried (Some err) # evs))))))"

definition dial_with_retry ::
  "bridge \<Rightarrow> (nat \<Rightarrow> attempt) \<Rightarrow> bridge \<times> dial_outcome \<times> retry_event list" where
  "dial_with_retry b script =
     retry_loop b (nat (br_dial_retries b + 1)) 0 (br_dial_backoff b) NothingTried script"

subsection \<open>The cooldown of one session\<close>

text \<open>The time to wait and the refusal it is measured from.\<close>

definition refusal_wait :: "bridge \<Rightarrow> int \<Rightarrow> int \<times> int option" where
  "refusal_wait b now =
     (if br_refusal_cooldown b \<le> 0 then (0, None)
      else case br_refusal b of
        None \<Rightarrow> (0, None)
      | Some (at, r) \<Rightarrow> (br_refusal_cooldown b - (now - at), Some at))"

definition refusal_since :: "bridge \<Rightarrow> int option \<Rightarrow> int \<Rightarrow> dial_outcome option" where
  "refusal_since b seen now =
     (case br_refusal b of
        None \<Rightarrow> None
      | Some (at, r) \<Rightarrow>
          (if (case seen of None \<Rightarrow> True | Some s \<Rightarrow> s < at)
           then Some (SharedRefusal r (now - at)) else None))"

text \<open>What a session meets while it waits: the context ending in the wait or at the gate, the
  refusal another session noted meanwhile, and the time it is let in.\<close>

record gate_script =
  ga_now :: int
  ga_wait_err :: "string option"
  ga_probe_err :: "string option"
  ga_noted :: "(int \<times> refusal) option"
  ga_later :: int
  ga_attempts :: "nat \<Rightarrow> attempt"

definition dial_session :: "bridge \<Rightarrow> gate_script \<Rightarrow> bridge \<times> dial_outcome \<times> retry_event list" where
  "dial_session b g =
     (let (wait, seen) = refusal_wait b (ga_now g) in
      if wait \<le> 0 then dial_with_retry b (ga_attempts g)
      else case ga_wait_err g of
        Some e \<Rightarrow> (b, ContextEnded e, [])
      | None \<Rightarrow>
     (case ga_probe_err g of
        Some e \<Rightarrow> (b, ContextEnded e, [Waited wait])
      | None \<Rightarrow>
     (let b = (case ga_noted g of None \<Rightarrow> b | Some (t, r) \<Rightarrow> note_refusal b t r) in
      case refusal_since b seen (ga_later g) of
        Some refused \<Rightarrow> (b, refused, [Waited wait])
      | None \<Rightarrow>
          (let (b', out, evs) = dial_with_retry b (ga_attempts g) in (b', out, Waited wait # evs)))))"

subsection \<open>What the retry loop did\<close>

definition tries :: "retry_event list \<Rightarrow> dial_error option list" where
  "tries evs = concat (map (\<lambda>e. case e of Tried r \<Rightarrow> [r] | Waited _ \<Rightarrow> []) evs)"

definition waits :: "retry_event list \<Rightarrow> int list" where
  "waits evs = concat (map (\<lambda>e. case e of Waited d \<Rightarrow> [d] | Tried _ \<Rightarrow> []) evs)"

lemma event_simps [simp]:
  "tries [] = []" "tries (Tried r # evs) = r # tries evs" "tries (Waited d # evs) = tries evs"
  "waits [] = []" "waits (Tried r # evs) = waits evs" "waits (Waited d # evs) = d # waits evs"
  "tries (a @ b) = tries a @ tries b" "waits (a @ b) = waits a @ waits b"
  "tries (if c then [Waited d] else []) = []"
  "waits (if c then [Waited d] else []) = (if c then [d] else [])"
  by (simp_all add: tries_def waits_def)

text \<open>A failure the loop may retry: not a refusal.\<close>

definition transient :: "dial_error option \<Rightarrow> bool" where
  "transient r = (case r of Some e \<Rightarrow> refusal_of e = None | None \<Rightarrow> False)"

text \<open>The outcome of a loop that made tries: all but the last were transient, and the last one
  decides.\<close>

definition explains :: "bridge \<Rightarrow> dial_error option list \<Rightarrow> bridge \<Rightarrow> dial_outcome \<Rightarrow> bool" where
  "explains b ts b' out \<longleftrightarrow> ts \<noteq> [] \<and> list_all transient (butlast ts) \<and>
     (case last ts of
        None \<Rightarrow> b' = b \<and> (\<exists>tun. out = DialOpened tun)
      | Some e \<Rightarrow> b' = b \<and> (\<exists>c. out = ContextEnded c) \<or> out = DialFault e \<and>
          (case refusal_of e of
             None \<Rightarrow> b' = b
           | Some r \<Rightarrow> \<exists>now. b' = note_refusal b now r))"

lemma explains_single:
  "explains b [None] b (DialOpened t)"
  "explains b [Some e] b (ContextEnded c)"
  "refusal_of e = Some r \<Longrightarrow> explains b [Some e] (note_refusal b now r) (DialFault e)"
  "refusal_of e = None \<Longrightarrow> explains b [Some e] b (DialFault e)"
  by (auto simp: explains_def)

lemma explains_cons:
  "refusal_of e = None \<Longrightarrow> explains b ts b' out \<Longrightarrow> explains b (Some e # ts) b' out"
  by (simp add: explains_def transient_def)

lemma retry_loop_first:
  "retry_loop b (Suc left) 0 backoff prev script = (b', out, evs) \<Longrightarrow> tries evs \<noteq> []"
  by (auto simp: Let_def split: sum.splits option.splits prod.splits)

lemma retry_loop_explains:
  "retry_loop b left n backoff prev script = (b', out, evs) \<Longrightarrow>
     (tries evs = [] \<and> evs = [] \<and> b' = b \<and> (left = 0 \<and> out = prev \<or> 0 < n \<and> (\<exists>c. out = ContextEnded c)))
     \<or> explains b (tries evs) b' out"
proof (induction left arbitrary: n backoff prev evs)
  case 0
  then show ?case by simp
next
  case (Suc left)
  show ?case
  proof (cases "if 0 < n then at_wait_err (script n) else None")
    case (Some err)
    then show ?thesis using Suc.prems by (auto split: if_splits)
  next
    case None
    note run = Suc.prems [unfolded retry_loop.simps None option.case Let_def]
    show ?thesis
    proof (cases "try_dial b (script n)")
      case (Inr tun)
      then show ?thesis using run by (auto simp: explains_single)
    next
      case (Inl err)
      show ?thesis
      proof (cases "at_ctx_err (script n)")
        case (Some e)
        then show ?thesis using run Inl by (auto simp: explains_single)
      next
        case alive: None
        show ?thesis
        proof (cases "refusal_of err")
          case (Some r)
          then show ?thesis using run Inl alive by (auto simp: explains_single)
        next
          case None
          then obtain evs' where r: "retry_loop b left (Suc n)
              (if 0 < n then wrap64 (backoff * 2) else backoff) (DialFault err) script = (b', out, evs')"
            and o: "tries evs = Some err # tries evs'"
            using run Inl alive by (auto split: prod.splits)
          from Suc.IH [OF r] None o show ?thesis
            by (auto simp: explains_single explains_cons)
        qed
      qed
    qed
  qed
qed

lemma retry_loop_count:
  "retry_loop b left n backoff prev script = (b', out, evs) \<Longrightarrow> length (tries evs) \<le> left"
  by (induction left arbitrary: n backoff prev evs)
    (force simp: Let_def split: sum.splits option.splits prod.splits if_splits)+

text \<open>The wait before attempt \<open>n\<close> (from 1) is the base doubled \<open>n - 1\<close> times, at 64 bits.\<close>

fun doubled :: "int \<Rightarrow> nat \<Rightarrow> int list" where
  "doubled d 0 = []"
| "doubled d (Suc k) = d # doubled (wrap64 (d * 2)) k"

lemma retry_loop_waits:
  "retry_loop b left n backoff prev script = (b', out, evs) \<Longrightarrow>
     waits evs = doubled backoff (length (tries evs) - (if n = 0 then 1 else 0))"
proof (induction left arbitrary: n backoff prev evs)
  case 0
  then show ?case by simp
next
  case (Suc left)
  show ?case
  proof (cases "if 0 < n then at_wait_err (script n) else None")
    case (Some err)
    then show ?thesis using Suc.prems by (auto split: if_splits)
  next
    case None
    note run = Suc.prems [unfolded retry_loop.simps None option.case Let_def]
    show ?thesis
    proof (cases "(\<exists>tun. try_dial b (script n) = Inr tun) \<or> at_ctx_err (script n) \<noteq> None
        \<or> (\<exists>e. try_dial b (script n) = Inl e \<and> refusal_of e \<noteq> None)")
      case True
      then show ?thesis using run by (auto split: sum.splits option.splits if_splits)
    next
      case False
      then obtain err where e: "try_dial b (script n) = Inl err" "refusal_of err = None"
          "at_ctx_err (script n) = None"
        by (cases "try_dial b (script n)") (auto simp del: not_None_eq)
      then obtain evs' where r: "retry_loop b left (Suc n)
            (if 0 < n then wrap64 (backoff * 2) else backoff) (DialFault err) script = (b', out, evs')"
          and o: "evs = (if 0 < n then [Waited backoff] else []) @ Tried (Some err) # evs'"
        using run by (auto split: prod.splits)
      from Suc.IH [OF r] o show ?thesis by auto
    qed
  qed
qed

text \<open>C20: opening a relay session asks the relay at most retries + 1 times and at least once,
  waiting the base backoff doubled before each repetition; every try but the last failed for a
  reason other than a refusal, and the last one decides: a success is the result, a refusal is
  the result and starts the cooldown, and nothing else touches the cooldown.\<close>

theorem retry_asks_boundedly:
  assumes "0 \<le> br_dial_retries b" and "dial_with_retry b script = (b', out, evs)"
  shows "0 < length (tries evs) \<and> int (length (tries evs)) \<le> br_dial_retries b + 1
    \<and> waits evs = doubled (br_dial_backoff b) (length (tries evs) - 1)
    \<and> explains b (tries evs) b' out"
proof -
  obtain k where k: "nat (br_dial_retries b + 1) = Suc k" using assms(1)
    by (metis Suc_nat_eq_nat_zadd1 add.commute)
  have r: "retry_loop b (Suc k) 0 (br_dial_backoff b) NothingTried script = (b', out, evs)"
    using assms(2) by (simp add: dial_with_retry_def k)
  have "length (tries evs) \<le> Suc k" using retry_loop_count [OF r] .
  moreover have "int (Suc k) = br_dial_retries b + 1" using assms(1) k by linarith
  ultimately show ?thesis
    using retry_loop_first [OF r] retry_loop_explains [OF r] retry_loop_waits [OF r] by auto
qed

definition sample_bridge :: bridge where
  "sample_bridge = \<lparr>br_cfg = \<lparr>bc_listen_addr = '':0'', bc_credentials = sample_credentials,
       bc_dial_timeout = 0, bc_dial_retries = 0, bc_dial_backoff = 0, bc_dial_budget = 0,
       bc_idle_timeout = 0, bc_keep_alive = 0, bc_max_sessions = 0, bc_refusal_cooldown = 0\<rparr>,
     br_magic_uuid = ''uuid'', br_dial_timeout = 15 * second, br_dial_retries = 2,
     br_dial_backoff = second, br_dial_budget = default_dial_budget,
     br_idle_timeout = default_idle_timeout, br_keep_alive = default_keep_alive_period,
     br_max_sessions = 2, br_refusal_cooldown = default_refusal_cooldown,
     br_listener = None, br_sessions = 0, br_active = 0, br_conns = {}, br_closing = False,
     br_refusal = None\<rparr>"

definition sample_attempt :: "nat \<Rightarrow> attempt" where
  "sample_attempt n = \<lparr>at_wait_err = None, at_random = replicate 16 7, at_deadline = None, at_start = 0,
     at_net = (if n = 0 then sample_net\<lparr>sc_dial_control := Some ''down''\<rparr> else sample_net),
     at_ctx_err = None, at_now = 0\<rparr>"

theorem retry_asks_boundedly_witness:
  "case dial_with_retry sample_bridge sample_attempt of (b', out, evs) \<Rightarrow>
     waits evs = [second] \<and> length (tries evs) = 2 \<and> explains sample_bridge (tries evs) b' out"
proof -
  obtain b' out evs where d: "dial_with_retry sample_bridge sample_attempt = (b', out, evs)"
    by (metis prod_cases3)
  have "length (tries (snd (snd (dial_with_retry sample_bridge sample_attempt)))) = 2" by code_simp
  then have l: "length (tries evs) = 2" by (simp add: d)
  have "0 \<le> br_dial_retries sample_bridge" by (simp add: sample_bridge_def)
  from retry_asks_boundedly [OF this d] l
  have "waits evs = [br_dial_backoff sample_bridge]" "explains sample_bridge (tries evs) b' out" by simp_all
  moreover have "br_dial_backoff sample_bridge = second" by (simp add: sample_bridge_def)
  ultimately show ?thesis using l by (simp add: d)
qed

text \<open>C21: a refusal at time \<open>at\<close> keeps the relay from being asked until the cooldown after it has
  passed.  A session that comes within the cooldown (one is set, the bridge remembers a refusal,
  and less than the cooldown has gone by) asks nothing before it has waited to the very end of
  it; if its context ends first it gives up without asking; if another session was refused
  meanwhile it takes that refusal, with its age, and asks nothing; only when none was does it
  dial, after the wait.  A session that comes outside a cooldown dials at once.\<close>

theorem cooldown_respected:
  assumes "dial_session b g = (b', out, evs)"
  shows "((\<forall>at r. br_refusal b = Some (at, r) \<longrightarrow>
            br_refusal_cooldown b \<le> 0 \<or> br_refusal_cooldown b \<le> ga_now g - at) \<longrightarrow>
      (b', out, evs) = dial_with_retry b (ga_attempts g))
   \<and> (\<forall>at r. br_refusal b = Some (at, r) \<longrightarrow> 0 < br_refusal_cooldown b \<longrightarrow>
        ga_now g - at < br_refusal_cooldown b \<longrightarrow>
      (let wait = Waited (at + br_refusal_cooldown b - ga_now g) in
       (tries evs = [] \<or> (\<exists>asked. evs = wait # asked)) \<and>
       (case (ga_wait_err g, ga_probe_err g, ga_noted g) of
          (Some e, _, _) \<Rightarrow> b' = b \<and> out = ContextEnded e \<and> tries evs = []
        | (None, Some e, _) \<Rightarrow> b' = b \<and> out = ContextEnded e \<and> tries evs = []
        | (None, None, None) \<Rightarrow>
            (\<exists>asked. dial_with_retry b (ga_attempts g) = (b', out, asked) \<and> evs = wait # asked)
        | (None, None, Some (t, shared)) \<Rightarrow>
            (if at < t
             then b' = note_refusal b t shared \<and> out = SharedRefusal shared (ga_later g - t) \<and> tries evs = []
             else \<exists>asked. dial_with_retry (note_refusal b t shared) (ga_attempts g) = (b', out, asked)
                    \<and> evs = wait # asked))))"
proof (cases "br_refusal b")
  case None
  then have w: "refusal_wait b (ga_now g) = (0, None)" by (simp add: refusal_wait_def)
  then show ?thesis using assms None by (simp add: dial_session_def)
next
  case (Some refusal)
  then obtain at r where b: "br_refusal b = Some (at, r)" by (cases refusal) simp
  show ?thesis
  proof (cases "0 < br_refusal_cooldown b \<and> ga_now g - at < br_refusal_cooldown b")
    case False
    then have "fst (refusal_wait b (ga_now g)) \<le> 0" by (auto simp: refusal_wait_def b)
    then have "dial_session b g = dial_with_retry b (ga_attempts g)"
      by (cases "refusal_wait b (ga_now g)") (simp add: dial_session_def)
    then show ?thesis using assms b False by auto
  next
    case True
    then have w: "refusal_wait b (ga_now g) = (at + br_refusal_cooldown b - ga_now g, Some at)"
      by (simp add: refusal_wait_def b)
    have "\<not> at + br_refusal_cooldown b - ga_now g \<le> 0" using True by linarith
    with True show ?thesis
      using assms [unfolded dial_session_def w]
      by (auto simp: b refusal_since_def note_refusal_def split: option.splits prod.splits if_splits)
  qed
qed

theorem cooldown_respected_witness:
  "let b = note_refusal sample_bridge 0 (-1, ''app -1'');
       g = \<lparr>ga_now = second, ga_wait_err = None, ga_probe_err = None,
            ga_noted = Some (5 * second, (-2, ''app -2'')), ga_later = 10 * second,
            ga_attempts = sample_attempt\<rparr>
   in tries (snd (snd (dial_session b g))) = []
    \<and> fst (snd (dial_session b g)) = SharedRefusal (-2, ''app -2'') (5 * second)"
proof -
  define b where "b = note_refusal sample_bridge 0 (-1, ''app -1'')"
  define g where "g = \<lparr>ga_now = second, ga_wait_err = None, ga_probe_err = None,
            ga_noted = Some (5 * second, (-2, ''app -2'')), ga_later = 10 * second,
            ga_attempts = sample_attempt\<rparr>"
  have w: "br_refusal b = Some (0, (-1, ''app -1''))" "0 < br_refusal_cooldown b"
      "ga_now g - 0 < br_refusal_cooldown b"
    by (simp_all add: b_def g_def note_refusal_def sample_bridge_def default_refusal_cooldown_def second_def)
  obtain b' out evs where d: "dial_session b g = (b', out, evs)" by (metis prod_cases3)
  from cooldown_respected [OF d, THEN conjunct2, rule_format, OF w]
  have "tries evs = [] \<and> out = SharedRefusal (-2, ''app -2'') (5 * second)"
    by (simp add: g_def second_def)
  then show ?thesis by (simp add: d b_def [symmetric] g_def [symmetric] Let_def)
qed

subsection \<open>Sessions at the gate\<close>

text \<open>
  All sessions of one bridge at once.  Each is in one phase; the shared state is the clock, the
  time of the last refusal and the holder of the probe channel (its one slot).  A session that
  dials without a cooldown to wait for never takes the probe.
\<close>

datatype phase =
    Outside
  | Cooling int int
  | AtGate int
  | Inside int
  | Asking "int option"
  | Leaving int bool
  | Told "int option" bool
  | Shared int

record gate =
  gt_now :: int
  gt_refused :: "int option"
  gt_probe :: "nat option"
  gt_phase :: "nat \<Rightarrow> phase"

definition set_phase :: "nat \<Rightarrow> phase \<Rightarrow> gate \<Rightarrow> gate" where
  "set_phase i p g = g\<lparr>gt_phase := (gt_phase g)(i := p)\<rparr>"

lemma set_phase_simps [simp]:
  "gt_now (set_phase i p g) = gt_now g" "gt_refused (set_phase i p g) = gt_refused g"
  "gt_probe (set_phase i p g) = gt_probe g"
  "gt_phase (set_phase i p g) j = (if j = i then p else gt_phase g j)"
  by (simp_all add: set_phase_def)

inductive gate_step :: "int \<Rightarrow> gate \<Rightarrow> gate \<Rightarrow> bool" for cooldown where
  tick: "0 \<le> d \<Longrightarrow> gate_step cooldown g (g\<lparr>gt_now := gt_now g + d\<rparr>)"
| direct: "gt_phase g i = Outside \<Longrightarrow>
     (case gt_refused g of None \<Rightarrow> True | Some t \<Rightarrow> cooldown - (gt_now g - t) \<le> 0) \<Longrightarrow>
     gate_step cooldown g (set_phase i (Asking None) g)"
| cool: "gt_phase g i = Outside \<Longrightarrow> gt_refused g = Some t \<Longrightarrow> 0 < cooldown - (gt_now g - t) \<Longrightarrow>
     gate_step cooldown g (set_phase i (Cooling t (gt_now g + (cooldown - (gt_now g - t)))) g)"
| give_up: "gt_phase g i = Cooling t u \<or> gt_phase g i = AtGate t \<Longrightarrow>
     gate_step cooldown g (set_phase i Outside g)"
| cooled: "gt_phase g i = Cooling t u \<Longrightarrow> u \<le> gt_now g \<Longrightarrow> gate_step cooldown g (set_phase i (AtGate t) g)"
| take_probe: "gt_phase g i = AtGate t \<Longrightarrow> gt_probe g = None \<Longrightarrow>
     gate_step cooldown g ((set_phase i (Inside t) g)\<lparr>gt_probe := Some i\<rparr>)"
| share: "gt_phase g i = Inside t \<Longrightarrow> gt_refused g = Some r \<Longrightarrow> t < r \<Longrightarrow>
     gate_step cooldown g ((set_phase i (Shared t) g)\<lparr>gt_probe := None\<rparr>)"
| ask: "gt_phase g i = Inside t \<Longrightarrow> (case gt_refused g of None \<Rightarrow> True | Some r \<Rightarrow> \<not> t < r) \<Longrightarrow>
     gate_step cooldown g (set_phase i (Asking (Some t)) g)"
| refused_direct: "gt_phase g i = Asking None \<Longrightarrow>
     gate_step cooldown g ((set_phase i (Told None False) g)\<lparr>gt_refused := Some (gt_now g)\<rparr>)"
| ended_direct: "gt_phase g i = Asking None \<Longrightarrow> gate_step cooldown g (set_phase i (Told None True) g)"
| refused: "gt_phase g i = Asking (Some t) \<Longrightarrow>
     gate_step cooldown g ((set_phase i (Leaving t False) g)\<lparr>gt_refused := Some (gt_now g)\<rparr>)"
| ended: "gt_phase g i = Asking (Some t) \<Longrightarrow> gate_step cooldown g (set_phase i (Leaving t True) g)"
| release: "gt_phase g i = Leaving t ok \<Longrightarrow>
     gate_step cooldown g ((set_phase i (Told (Some t) ok) g)\<lparr>gt_probe := None\<rparr>)"

inductive gate_reach :: "int \<Rightarrow> gate \<Rightarrow> bool" for cooldown where
  start: "gate_reach cooldown \<lparr>gt_now = now, gt_refused = None, gt_probe = None, gt_phase = (\<lambda>_. Outside)\<rparr>"
| more: "gate_reach cooldown g \<Longrightarrow> gate_step cooldown g g' \<Longrightarrow> gate_reach cooldown g'"

definition holds_probe :: "phase \<Rightarrow> bool" where
  "holds_probe p = (case p of Inside _ \<Rightarrow> True | Asking (Some _) \<Rightarrow> True | Leaving _ _ \<Rightarrow> True | _ \<Rightarrow> False)"

text \<open>The refusal the relay itself gave a session that had waited out the one at \<open>t\<close>.\<close>

definition told_no :: "int \<Rightarrow> phase \<Rightarrow> bool" where
  "told_no t p \<longleftrightarrow> p = Leaving t False \<or> p = Told (Some t) False"

definition probe_inv :: "gate \<Rightarrow> bool" where
  "probe_inv g \<longleftrightarrow> (\<forall>i. holds_probe (gt_phase g i) \<longleftrightarrow> gt_probe g = Some i)"

text \<open>Every session waits out a refusal that was given, before the time it may go on.\<close>

definition seen_ok :: "int \<Rightarrow> int option \<Rightarrow> phase \<Rightarrow> bool" where
  "seen_ok now refused_at p = (case p of
       Cooling t u \<Rightarrow> t < u \<and> (\<exists>r. refused_at = Some r \<and> t \<le> r)
     | AtGate t \<Rightarrow> t < now \<and> (\<exists>r. refused_at = Some r \<and> t \<le> r)
     | Inside t \<Rightarrow> t < now \<and> (\<exists>r. refused_at = Some r \<and> t \<le> r)
     | Asking (Some t) \<Rightarrow> t < now \<and> (\<exists>r. refused_at = Some r \<and> t \<le> r)
     | Leaving t ok \<Rightarrow> ok \<or> (\<exists>r. refused_at = Some r \<and> t < r)
     | Told (Some t) ok \<Rightarrow> ok \<or> (\<exists>r. refused_at = Some r \<and> t < r)
     | _ \<Rightarrow> True)"

definition time_inv :: "gate \<Rightarrow> bool" where
  "time_inv g \<longleftrightarrow> (\<forall>r. gt_refused g = Some r \<longrightarrow> r \<le> gt_now g)
     \<and> (\<forall>i. seen_ok (gt_now g) (gt_refused g) (gt_phase g i))"

text \<open>A session told no by the relay itself is the only one of its cooldown, and nobody else of
  that cooldown is asking.\<close>

definition single_inv :: "gate \<Rightarrow> bool" where
  "single_inv g \<longleftrightarrow> (\<forall>i j t. told_no t (gt_phase g i) \<longrightarrow>
     gt_phase g j \<noteq> Asking (Some t) \<and> (told_no t (gt_phase g j) \<longrightarrow> i = j))"

lemma holds_probe_simps [simp]:
  "\<not> holds_probe Outside" "\<not> holds_probe (Cooling t u)" "\<not> holds_probe (AtGate t)" "holds_probe (Inside t)"
  "\<not> holds_probe (Asking None)" "holds_probe (Asking (Some t))" "holds_probe (Leaving t ok)"
  "\<not> holds_probe (Told s ok)" "\<not> holds_probe (Shared t)"
  by (simp_all add: holds_probe_def)

lemma told_no_simps [simp]:
  "\<not> told_no t Outside" "\<not> told_no t (Cooling s u)" "\<not> told_no t (AtGate s)" "\<not> told_no t (Inside s)"
  "\<not> told_no t (Asking a)" "told_no t (Leaving s ok) \<longleftrightarrow> s = t \<and> \<not> ok"
  "told_no t (Told a ok) \<longleftrightarrow> a = Some t \<and> \<not> ok" "\<not> told_no t (Shared s)"
  by (auto simp: told_no_def)

lemma probe_inv_step:
  assumes "gate_step cooldown g g'" and "probe_inv g"
  shows "probe_inv g'"
  using assms by cases (force simp: probe_inv_def)+

lemma seen_ok_later:
  "seen_ok now (Some r) p \<Longrightarrow> r \<le> now \<Longrightarrow> now \<le> now' \<Longrightarrow> r \<le> r' \<Longrightarrow> r' \<le> now' \<Longrightarrow> seen_ok now' (Some r') p"
  by (auto simp: seen_ok_def split: phase.splits option.splits)

lemma seen_ok_none: "seen_ok now None p \<Longrightarrow> now \<le> now' \<Longrightarrow> seen_ok now' r p"
  by (auto simp: seen_ok_def split: phase.splits option.splits)

lemma seen_ok_refused:
  assumes "time_inv g"
  shows "seen_ok (gt_now g) (Some (gt_now g)) (gt_phase g i)"
proof (cases "gt_refused g")
  case None
  with assms have "seen_ok (gt_now g) None (gt_phase g i)" by (metis time_inv_def)
  then show ?thesis by (rule seen_ok_none) simp
next
  case (Some r)
  with assms have s: "seen_ok (gt_now g) (Some r) (gt_phase g i)" and r: "r \<le> gt_now g"
    by (metis time_inv_def)+
  from seen_ok_later [OF s r order_refl r order_refl] show ?thesis .
qed

lemma seen_ok_told: "seen_ok now r p \<Longrightarrow> told_no t p \<Longrightarrow> \<exists>x. r = Some x \<and> t < x"
  by (auto simp: told_no_def seen_ok_def)

lemma time_inv_phase:
  "time_inv g \<Longrightarrow> seen_ok (gt_now g) (gt_refused g) p \<Longrightarrow> time_inv (set_phase i p g)"
  by (simp add: time_inv_def)

lemma time_inv_step:
  assumes "gate_step cooldown g g'" and "time_inv g"
  shows "time_inv g'"
  using assms
proof cases
  case (tick d)
  then show ?thesis
    using assms(2) seen_ok_later [of "gt_now g" _ _ "gt_now g + d"] seen_ok_none [of "gt_now g" _ "gt_now g + d"]
    by (cases "gt_refused g") (fastforce simp: time_inv_def)+
next
  case (cooled i t u)
  then have "seen_ok (gt_now g) (gt_refused g) (Cooling t u)" using assms(2) by (metis time_inv_def)
  with cooled show ?thesis using assms(2) by (auto intro!: time_inv_phase simp: seen_ok_def)
next
  case (take_probe i t)
  then have "seen_ok (gt_now g) (gt_refused g) (AtGate t)" using assms(2) by (metis time_inv_def)
  with take_probe show ?thesis using assms(2) by (auto simp: time_inv_def seen_ok_def)
next
  case (ask i t)
  then have "seen_ok (gt_now g) (gt_refused g) (Inside t)" using assms(2) by (metis time_inv_def)
  with ask show ?thesis using assms(2) by (auto intro!: time_inv_phase simp: seen_ok_def)
next
  case (refused i t)
  then have "seen_ok (gt_now g) (gt_refused g) (Asking (Some t))" using assms(2) by (metis time_inv_def)
  with refused show ?thesis using seen_ok_refused [OF assms(2)] by (auto simp: time_inv_def seen_ok_def [of _ _ "Leaving _ _"] seen_ok_def [of _ _ "Asking _"])
next
  case (release i t ok)
  then have "seen_ok (gt_now g) (gt_refused g) (Leaving t ok)" using assms(2) by (metis time_inv_def)
  with release show ?thesis using assms(2) by (auto simp: time_inv_def seen_ok_def)
next
  case (refused_direct i)
  then show ?thesis using seen_ok_refused [OF assms(2)] by (auto simp: time_inv_def seen_ok_def [of _ _ "Told _ _"])
qed (auto simp: time_inv_def seen_ok_def)

lemma single_inv_step:
  assumes "gate_step cooldown g g'" and "probe_inv g" and "time_inv g" and "single_inv g"
  shows "single_inv g'"
  using assms(1)
proof cases
  case (ask i t)
  have "\<not> told_no t (gt_phase g j)" for j
  proof
    assume "told_no t (gt_phase g j)"
    then have "\<exists>r. gt_refused g = Some r \<and> t < r"
      using assms(3) seen_ok_told by (metis time_inv_def)
    then show False using ask by auto
  qed
  with ask assms(4) show ?thesis by (auto simp: single_inv_def)
next
  case (refused i t)
  then have "gt_phase g j \<noteq> Asking (Some t)" if "j \<noteq> i" for j
    using assms(2) that unfolding probe_inv_def by (metis holds_probe_simps(6) option.inject)
  with refused assms(4) show ?thesis by (auto simp: single_inv_def)
next
  case (release i t ok)
  then have "told_no s (gt_phase g' j) = told_no s (gt_phase g j)" for s j by simp
  moreover have "gt_phase g' j = Asking s \<Longrightarrow> gt_phase g j = Asking s" for s j
    using release by (simp split: if_splits)
  ultimately show ?thesis using assms(4) unfolding single_inv_def by blast
qed (use assms(4) in \<open>auto simp: single_inv_def\<close>)

lemma gate_reach_inv: "gate_reach cooldown g \<Longrightarrow> probe_inv g \<and> time_inv g \<and> single_inv g"
proof (induction rule: gate_reach.induct)
  case (start now)
  then show ?case by (auto simp: probe_inv_def time_inv_def single_inv_def seen_ok_def)
next
  case (more g g')
  then show ?case using probe_inv_step time_inv_step single_inv_step by blast
qed

text \<open>C13: however the sessions of a bridge interleave, of those that waited out one refusal at
  most one is refused by the relay itself, no other of them is then at the relay, and at most
  one session holds the gate at any time.\<close>

theorem gate_asks_once:
  assumes "gate_reach cooldown g"
  shows "(told_no t (gt_phase g i) \<longrightarrow> gt_phase g j \<noteq> Asking (Some t) \<and>
            (told_no t (gt_phase g j) \<longrightarrow> i = j))
    \<and> (holds_probe (gt_phase g i) \<longrightarrow> holds_probe (gt_phase g j) \<longrightarrow> i = j)"
  using gate_reach_inv [OF assms] by (auto simp: single_inv_def probe_inv_def)

definition gate0 :: gate where
  "gate0 = \<lparr>gt_now = 0, gt_refused = None, gt_probe = None, gt_phase = (\<lambda>_. Outside)\<rparr>"

definition gate1 :: gate where
  "gate1 = (set_phase 0 (Told None False) (set_phase 0 (Asking None) gate0))\<lparr>gt_refused := Some 0\<rparr>"

definition gate2 :: gate where
  "gate2 = (set_phase 1 (Cooling 0 10) gate1)\<lparr>gt_now := 10\<rparr>"

definition gate3 :: gate where
  "gate3 = (set_phase 1 (Inside 0) (set_phase 1 (AtGate 0) gate2))\<lparr>gt_probe := Some 1\<rparr>"

definition gate4 :: gate where
  "gate4 = (set_phase 1 (Leaving 0 False) (set_phase 1 (Asking (Some 0)) gate3))\<lparr>gt_refused := Some 10\<rparr>"

lemma gate_run: "gate_reach 10 gate4"
proof -
  have r0: "gate_reach 10 gate0" unfolding gate0_def by (rule gate_reach.start)
  have "gate_step 10 gate0 (set_phase 0 (Asking None) gate0)"
    by (rule gate_step.direct) (simp_all add: gate0_def)
  note r = gate_reach.more [OF r0 this]
  have "gate_step 10 (set_phase 0 (Asking None) gate0) gate1"
    using gate_step.refused_direct [of "set_phase 0 (Asking None) gate0" 0 10]
    by (simp add: gate1_def gate0_def)
  note r = gate_reach.more [OF r this]
  have "gate_step 10 gate1 (set_phase 1 (Cooling 0 10) gate1)"
    using gate_step.cool [of gate1 1 0 10] by (simp add: gate1_def gate0_def)
  note r = gate_reach.more [OF r this]
  have "gate_step 10 (set_phase 1 (Cooling 0 10) gate1) gate2"
    using gate_step.tick [of 10 10 "set_phase 1 (Cooling 0 10) gate1"]
    by (simp add: gate2_def gate1_def gate0_def)
  note r = gate_reach.more [OF r this]
  have "gate_step 10 gate2 (set_phase 1 (AtGate 0) gate2)"
    by (rule gate_step.cooled [of _ _ 0 10]) (simp_all add: gate2_def)
  note r = gate_reach.more [OF r this]
  have "gate_step 10 (set_phase 1 (AtGate 0) gate2) gate3"
    unfolding gate3_def by (rule gate_step.take_probe) (simp_all add: gate2_def gate1_def gate0_def)
  note r = gate_reach.more [OF r this]
  have "gate_step 10 gate3 (set_phase 1 (Asking (Some 0)) gate3)"
    by (rule gate_step.ask) (simp_all add: gate3_def gate2_def gate1_def)
  note r = gate_reach.more [OF r this]
  have "gate_step 10 (set_phase 1 (Asking (Some 0)) gate3) gate4"
    using gate_step.refused [of "set_phase 1 (Asking (Some 0)) gate3" 1 0 10]
    by (simp add: gate4_def gate3_def gate2_def)
  from gate_reach.more [OF r this] show ?thesis .
qed

theorem gate_asks_once_witness:
  "told_no 0 (gt_phase gate4 1) \<and> gt_phase gate4 2 \<noteq> Asking (Some 0) \<and> \<not> told_no 0 (gt_phase gate4 2)"
  using gate_asks_once [OF gate_run, of 0 1 2] by (simp add: gate4_def)

end
