(* ===== verification/Bridge_Session.thy ===== *)
theory Bridge_Session
  imports Bridge_Dial
begin

text \<open>
  One client connection of a bridge from accept to release, and the bridge's own life cycle
  (internal/bridge/bridge.go): the copy loop with its idle deadline, the watch that keeps what
  a client sends while the relay is dialled, \<open>handle\<close>, and \<open>Listen\<close>, \<open>Serve\<close> and \<open>Close\<close>.
\<close>

subsection \<open>Copying with an idle deadline\<close>

datatype read_fault = ReadEof | ReadDeadline | ReadFault string

record copy_read =
  cy_set_err :: "string option"
  cy_data :: bytes
  cy_fault :: "read_fault option"

datatype copy_end = CopyEof | CopyIdle | CopyFault string | CopyShort | CopyWaiting

text \<open>\<open>timed\<close> is whether the idle timeout applies; without it the loop is \<open>io.Copy\<close>.  The writer
  takes its state and the bytes and gives the count it accepted and its error.\<close>

fun copy_idle ::
  "bool \<Rightarrow> ('d \<Rightarrow> bytes \<Rightarrow> 'd \<times> nat \<times> string option) \<Rightarrow> 'd \<Rightarrow> copy_read list \<Rightarrow> 'd \<times> nat \<times> copy_end" where
  "copy_idle timed write d [] = (d, 0, CopyWaiting)"
| "copy_idle timed write d (r # rs) =
     (case (if timed then cy_set_err r else None) of
        Some e \<Rightarrow> (d, 0, CopyFault e)
      | None \<Rightarrow>
          (let (d', written, write_err) =
                 (if cy_data r \<noteq> [] then write d (cy_data r) else (d, 0, None))
           in case write_err of
                Some e \<Rightarrow> (d', written, CopyFault e)
              | None \<Rightarrow>
                  if written < length (cy_data r) then (d', written, CopyShort)
                  else (case cy_fault r of
                          None \<Rightarrow> (let (d'', n, en) = copy_idle timed write d' rs in (d'', written + n, en))
                        | Some ReadDeadline \<Rightarrow>
                            (d', written, if timed then CopyIdle else CopyFault ''i/o timeout'')
                        | Some ReadEof \<Rightarrow> (d', written, CopyEof)
                        | Some (ReadFault e) \<Rightarrow> (d', written, CopyFault e))))"

text \<open>A destination that takes everything, and one that is the relay tunnel: each write has its
  outcome on the socket.\<close>

definition sink_write :: "bytes \<Rightarrow> bytes \<Rightarrow> bytes \<times> nat \<times> string option" where
  "sink_write acc p = (acc @ p, length p, None)"

record relay_side =
  rl_tunnel :: tunnel
  rl_cipher :: "bytes list"
  rl_outcomes :: "string option list"

definition relay_write :: "relay_side \<Rightarrow> bytes \<Rightarrow> relay_side \<times> nat \<times> string option" where
  "relay_write s p =
     (let send = (case rl_outcomes s of [] \<Rightarrow> None | o1 # _ \<Rightarrow> o1);
          (t, cipher, r) = tunnel_write (rl_tunnel s) p send;
          s' = s\<lparr>rl_tunnel := t, rl_cipher := rl_cipher s @ [cipher], rl_outcomes := drop 1 (rl_outcomes s)\<rparr>
      in case r of
           Inl _ \<Rightarrow> (s', 0, Some ''write'')
         | Inr n \<Rightarrow> (s', n, None))"

subsection \<open>Watching the client during the dial\<close>

text \<open>The reads of the watch until it is stopped: the bytes, and whether the read failed before
  the stop.  The result is what is replayed, and whether the client left.\<close>

fun watch_run :: "(bytes \<times> bool) list \<Rightarrow> bytes \<times> bool" where
  "watch_run [] = ([], False)"
| "watch_run ((data, failed) # reads) =
     (if failed then (data, True)
      else (let (pending, left) = watch_run reads in (data @ pending, left)))"

subsection \<open>Handling one client\<close>

datatype session_log =
    LogRefusedFull
  | LogConnected
  | LogClientLeft
  | LogSharedRefusal string
  | LogRelayRefused string
  | LogDialFailed dial_outcome
  | LogOpen bool
  | LogForwardFailed
  | LogClosed nat nat
  | LogIdleDropped
  | LogNoCameraData
  | LogDisconnected

record session_script =
  se_client :: nat
  se_watch :: "(bytes \<times> bool) list"
  se_gate :: gate_script
  se_relay_outcomes :: "string option list"
  se_client_reads :: "copy_read list"
  se_relay_reads :: "copy_read list"
  se_client_write :: "bytes \<Rightarrow> bytes \<Rightarrow> bytes \<times> nat \<times> string option"
  se_ctx_done :: bool

definition reserve_session :: "bridge \<Rightarrow> bridge \<times> bool" where
  "reserve_session b =
     (if br_max_sessions b \<le> 0 then (b\<lparr>br_active := br_active b + 1\<rparr>, True)
      else if br_max_sessions b \<le> br_active b then (b, False)
      else (b\<lparr>br_active := br_active b + 1\<rparr>, True))"

definition track_conn :: "bridge \<Rightarrow> nat \<Rightarrow> bool \<Rightarrow> bridge" where
  "track_conn b c add =
     b\<lparr>br_conns := (if add then insert c (br_conns b) else br_conns b - {c})\<rparr>"

definition release_session :: "bridge \<Rightarrow> nat \<Rightarrow> bridge" where
  "release_session b c = (let b = track_conn b c False in b\<lparr>br_active := br_active b - 1\<rparr>)"

text \<open>Both directions of the session.  The reads of the relay side are the results of the
  tunnel's \<open>Read\<close>; the relay side's count includes nothing of the pending bytes.\<close>

definition pipe :: "int \<Rightarrow> relay_side \<Rightarrow> session_script \<Rightarrow> relay_side \<times> bytes \<times> nat \<times> nat \<times> bool" where
  "pipe idle relay s =
     (let (relay', from_client, _) = copy_idle False relay_write relay (se_client_reads s);
          (out, from_relay, en) = copy_idle (0 < idle) (se_client_write s) [] (se_relay_reads s)
      in (relay', out, from_client, from_relay, en = CopyIdle))"

text \<open>What \<open>handle\<close> logs for a dial that failed.\<close>

definition dial_failure_log :: "bool \<Rightarrow> dial_outcome \<Rightarrow> session_log" where
  "dial_failure_log left out =
     (if left then LogClientLeft
      else case out of
        SharedRefusal r age \<Rightarrow> LogSharedRefusal (snd r)
      | DialFault e \<Rightarrow> (case refusal_of e of Some r \<Rightarrow> LogRelayRefused (snd r) | None \<Rightarrow> LogDialFailed out)
      | _ \<Rightarrow> LogDialFailed out)"

definition run_session ::
  "bridge \<Rightarrow> bytes \<Rightarrow> tunnel \<Rightarrow> session_script \<Rightarrow> session_log list \<times> bytes list \<times> bytes" where
  "run_session b pending tun s =
     (let opened = LogOpen (rs_fields (tn_response tun) < 8);
          side = \<lparr>rl_tunnel = tun, rl_cipher = [], rl_outcomes = se_relay_outcomes s\<rparr>;
          (side, _, forward_err) = (if pending \<noteq> [] then relay_write side pending else (side, 0, None))
      in if forward_err \<noteq> None then ([opened, LogForwardFailed], rl_cipher side, [])
         else
           (let (side, out, from_client, from_relay, idled) = pipe (br_idle_timeout b) side s;
                from_client = from_client + length pending
            in ([opened, LogClosed from_client from_relay]
                @ (if idled \<and> 0 < from_relay \<and> \<not> se_ctx_done s then [LogIdleDropped] else [])
                @ (if from_relay = 0 \<and> \<not> se_ctx_done s then [LogNoCameraData] else []),
                rl_cipher side, out)))"

definition handle_client ::
  "bridge \<Rightarrow> session_script \<Rightarrow> bridge \<times> session_log list \<times> bytes list \<times> bytes" where
  "handle_client b s =
     (case reserve_session b of
        (b, False) \<Rightarrow> (b, [LogRefusedFull], [], [])
      | (b, True) \<Rightarrow>
          (let b = track_conn (b\<lparr>br_sessions := br_sessions b + 1\<rparr>) (se_client s) True;
               (b, out, evs) = dial_session b (se_gate s);
               (pending, left) = watch_run (se_watch s);
               (logs, cipher, delivered) =
                 (case out of
                    DialOpened tun \<Rightarrow> run_session b pending tun s
                  | _ \<Rightarrow> ([dial_failure_log left out], [], []))
           in (release_session b (se_client s), LogConnected # logs @ [LogDisconnected], cipher, delivered)))"

subsection \<open>The listener\<close>

definition listen :: "bridge \<Rightarrow> string + string \<Rightarrow> bridge \<times> string option" where
  "listen b bound =
     (if br_listener b \<noteq> None then (b, None)
      else case bound of
        Inl e \<Rightarrow> (b, Some e)
      | Inr addr \<Rightarrow> (b\<lparr>br_listener := Some addr\<rparr>, None))"

definition close_bridge :: "bridge \<Rightarrow> string option \<Rightarrow> bridge \<times> nat set \<times> string option" where
  "close_bridge b listener_err =
     (if br_closing b then (b, {}, None)
      else (b\<lparr>br_closing := True\<rparr>, br_conns b, if br_listener b \<noteq> None then listener_err else None))"

datatype serve_end = ServeClean | ServeFault string

definition serve_result :: "bridge \<Rightarrow> bool \<Rightarrow> string \<Rightarrow> serve_end" where
  "serve_result b ctx_done accept_err =
     (if br_closing b \<or> ctx_done then ServeClean else ServeFault accept_err)"

definition bridge_stats :: "bridge \<Rightarrow> int \<times> int" where
  "bridge_stats b = (br_sessions b, br_active b)"

subsection \<open>The copy loop carries what it read\<close>

fun carried :: "copy_read list \<Rightarrow> bytes" where
  "carried [] = []"
| "carried (r # rs) = cy_data r @ (if cy_fault r = None then carried rs else [])"

text \<open>A writer that accepts all it is given; \<open>good\<close> is what it needs to stay so.\<close>

lemma copy_idle_full_writes:
  assumes "\<And>d p. good d \<Longrightarrow> p \<noteq> [] \<Longrightarrow> \<exists>d'. write d p = (d', length p, None) \<and> good d' \<and> rel d d' p"
    and "\<And>d. rel d d []" and "\<And>a b c p q. rel a b p \<Longrightarrow> rel b c q \<Longrightarrow> rel a c (p @ q)"
    and "good d" and "copy_idle False write d rs = (d', n, en)"
  shows "n = length (carried rs) \<and> rel d d' (carried rs) \<and> good d'"
  using assms(4,5)
proof (induction rs arbitrary: d n)
  case Nil
  then show ?case using assms(2) by simp
next
  case (Cons r rs)
  define d1 where "d1 = (if cy_data r \<noteq> [] then fst (write d (cy_data r)) else d)"
  have w: "(if cy_data r \<noteq> [] then write d (cy_data r) else (d, 0, None)) = (d1, length (cy_data r), None)"
    and g: "good d1" and rl: "rel d d1 (cy_data r)"
    using assms(1) [OF Cons.prems(1), of "cy_data r"] Cons.prems(1) assms(2) by (auto simp: d1_def)
  show ?case
  proof (cases "cy_fault r")
    case None
    obtain d2 n2 en2 where c: "copy_idle False write d1 rs = (d2, n2, en2)" by (metis prod_cases3)
    have e: "d' = d2" "n = length (cy_data r) + n2" "en = en2"
      using Cons.prems(2) None c by (simp_all add: w)
    from Cons.IH [OF g c [folded e(1,3)]] None assms(3) [OF rl] e show ?thesis by simp
  next
    case (Some f)
    then show ?thesis using Cons.prems(2) g rl by (cases f) (simp_all add: w)
  qed
qed

text \<open>When the idle copy stops, and why.\<close>

fun first_fault :: "copy_read list \<Rightarrow> read_fault option" where
  "first_fault [] = None"
| "first_fault (r # rs) = (case cy_fault r of None \<Rightarrow> first_fault rs | Some f \<Rightarrow> Some f)"

text \<open>With a destination that takes everything, the idle copy hands over exactly the bytes
  read up to the first fault, in order, counts them, and reports an idle timeout exactly when
  that fault is the read deadline; a clean end of stream is no error.\<close>

theorem copy_idle_carries:
  assumes "list_all (\<lambda>r. cy_set_err r = None) rs"
  shows "copy_idle True sink_write acc rs = (acc @ carried rs, length (carried rs),
     (case first_fault rs of None \<Rightarrow> CopyWaiting | Some ReadEof \<Rightarrow> CopyEof
      | Some ReadDeadline \<Rightarrow> CopyIdle | Some (ReadFault e) \<Rightarrow> CopyFault e))"
  using assms
proof (induction rs arbitrary: acc)
  case Nil
  then show ?case by simp
next
  case (Cons r rs)
  have w: "(if cy_data r \<noteq> [] then sink_write acc (cy_data r) else (acc, 0, None))
      = (acc @ cy_data r, length (cy_data r), None)"
    by (simp add: sink_write_def)
  show ?case using Cons by (auto simp: w split: option.split read_fault.split)
qed

theorem copy_idle_carries_witness:
  "copy_idle True sink_write [] [\<lparr>cy_set_err = None, cy_data = [1, 2], cy_fault = None\<rparr>,
      \<lparr>cy_set_err = None, cy_data = [], cy_fault = Some ReadDeadline\<rparr>] = ([1, 2], 2, CopyIdle)"
  using copy_idle_carries [of "[\<lparr>cy_set_err = None, cy_data = [1, 2], cy_fault = None\<rparr>,
      \<lparr>cy_set_err = None, cy_data = [], cy_fault = Some ReadDeadline\<rparr>]" "[]"] by simp

subsection \<open>The client's bytes reach the camera in order\<close>

definition side_good :: "nat \<Rightarrow> relay_side \<Rightarrow> bool" where
  "side_good n s \<longleftrightarrow> list_all (\<lambda>x. x = None) (rl_outcomes s)
     \<and> encoder_ok n (tn_encoder (rl_tunnel s)) \<and> n \<le> 47
     \<and> (en_bootstrapped (tn_encoder (rl_tunnel s)) \<or> n + 1 \<le> usable 208 (en_random (tn_encoder (rl_tunnel s))))"

definition side_sent :: "relay_side \<Rightarrow> relay_side \<Rightarrow> bytes \<Rightarrow> bool" where
  "side_sent s s' p \<longleftrightarrow> (\<exists>ps cs. concat ps = p \<and> rl_cipher s' = rl_cipher s @ cs \<and>
     run_encode encode (tn_encoder (rl_tunnel s)) ps = (tn_encoder (rl_tunnel s'), Inr cs))"

lemma run_encode_append:
  "run_encode encode e ps = (e1, Inr cs) \<Longrightarrow> run_encode encode e1 qs = (e2, Inr ds) \<Longrightarrow>
     run_encode encode e (ps @ qs) = (e2, Inr (cs @ ds))"
  by (induction ps arbitrary: e cs) (auto split: prod.splits sum.splits)

lemma side_sent_refl: "side_sent s s []"
  unfolding side_sent_def by (intro exI [of _ "[]"]) simp

lemma side_sent_trans: "side_sent a b p \<Longrightarrow> side_sent b c q \<Longrightarrow> side_sent a c (p @ q)"
  unfolding side_sent_def using run_encode_append by (metis append.assoc concat_append)

lemma relay_write_good:
  assumes "side_good n s"
  shows "\<exists>s'. relay_write s p = (s', length p, None) \<and> side_good n s' \<and> side_sent s s' p"
proof -
  let ?e = "tn_encoder (rl_tunnel s)"
  from assms have ok: "encoder_ok n ?e" "n \<le> 47" "en_bootstrapped ?e \<or> n + 1 \<le> usable 208 (en_random ?e)"
    and none: "list_all (\<lambda>x. x = None) (rl_outcomes s)"
    by (auto simp: side_good_def)
  from encode_progress [OF ok] obtain e' c where e: "encode ?e p = (e', Inr c)"
      "en_bootstrapped e' \<or> n + 1 \<le> usable 208 (en_random e')" by blast
  let ?s = "s\<lparr>rl_tunnel := (rl_tunnel s)\<lparr>tn_encoder := e'\<rparr>, rl_cipher := rl_cipher s @ [c],
      rl_outcomes := drop 1 (rl_outcomes s)\<rparr>"
  have "(case rl_outcomes s of [] \<Rightarrow> None | o1 # _ \<Rightarrow> o1) = None" "list_all (\<lambda>x. x = None) (drop 1 (rl_outcomes s))"
    using none by (cases "rl_outcomes s"; simp)+
  then have w: "relay_write s p = (?s, length p, None)" and g: "side_good n ?s"
    using e encode_ok [OF ok(1) e(1)] ok(2) by (simp_all add: relay_write_def tunnel_write_def side_good_def Let_def)
  have "side_sent s ?s p" unfolding side_sent_def
    by (intro exI [of _ "[p]"] exI [of _ "[c]"]) (simp add: e)
  with w g show ?thesis by blast
qed

lemma copy_relay_sends:
  assumes "side_good n s" and "copy_idle False relay_write s rs = (s', k, en)"
  shows "k = length (carried rs) \<and> side_sent s s' (carried rs)"
proof -
  have "k = length (carried rs) \<and> side_sent s s' (carried rs) \<and> side_good n s'"
    by (rule copy_idle_full_writes [of "side_good n" relay_write side_sent, OF _ _ _ assms])
      (auto intro: relay_write_good side_sent_refl side_sent_trans)
  then show ?thesis by simp
qed

text \<open>C2: over a dialled tunnel whose writes the socket takes, the camera's side decodes exactly
  what the client sent while the relay was being dialled followed by what it sent later, in
  order, however the network cuts the cipher text; and the log's byte count is its length.\<close>

theorem session_forwards_in_order:
  assumes "dial_tunnel cfg ctx_deadline now net = (Inr tun, acts)"
    and "length (tc_token cfg) + 1 \<le> usable 208 (sc_random net)"
    and "new_decoder (tc_token cfg) = Inr d"
    and "list_all (\<lambda>x. x = None) (se_relay_outcomes s)"
    and "run_session b pending tun s = (logs, ciphers, out)"
    and "concat reads = concat ciphers"
  shows "concat (snd (run_decode decode d reads)) = pending @ carried (se_client_reads s)
    \<and> (\<exists>n. LogClosed (length (pending @ carried (se_client_reads s))) n \<in> set logs)"
proof -
  have e: "new_encoder (tc_token cfg) (sc_random net) = Inr (tn_encoder tun)"
    by (rule dial_tunnel_ok [OF assms(1)], drule open_stream_ok, blast)
  let ?s0 = "\<lparr>rl_tunnel = tun, rl_cipher = [], rl_outcomes = se_relay_outcomes s\<rparr>"
  have g0: "side_good (length (tc_token cfg)) ?s0"
    using assms(2,4) new_encoder_ok [OF e] new_encoder_fresh [OF e] new_encoder_length [OF e]
    by (simp add: side_good_def)
  from relay_write_good [OF g0, of pending] obtain s1 where
      s1: "(if pending \<noteq> [] then relay_write ?s0 pending else (?s0, 0, None))
             = (s1, length pending, None)"
      and g1: "side_good (length (tc_token cfg)) s1" "side_sent ?s0 s1 pending"
    using g0 side_sent_refl by (cases "pending = []") auto
  obtain s2 k en where c: "copy_idle False relay_write s1 (se_client_reads s) = (s2, k, en)"
    by (metis prod_cases3)
  note sent = copy_relay_sends [OF g1(1) c]
  obtain o' fr en' where r: "copy_idle (0 < br_idle_timeout b) (se_client_write s) [] (se_relay_reads s)
      = (o', fr, en')" by (metis prod_cases3)
  have run: "ciphers = rl_cipher s2" "LogClosed (k + length pending) fr \<in> set logs"
    using assms(5) by (auto simp: run_session_def s1 pipe_def c r Let_def)
  from side_sent_trans [OF g1(2) conjunct2 [OF sent]] obtain ps cs where
      p: "concat ps = pending @ carried (se_client_reads s)" "rl_cipher s2 = cs"
         "run_encode encode (tn_encoder tun) ps = (tn_encoder (rl_tunnel s2), Inr cs)"
    by (auto simp: side_sent_def)
  have "concat (snd (run_decode decode d reads)) = concat ps"
    using token_channel.transfer [OF new_pair_in_step [OF e assms(3)] p(3)] assms(6) run(1) p(2) by simp
  with p(1) run(2) sent show ?thesis by (auto simp: add.commute)
qed

definition sample_session :: session_script where
  "sample_session = \<lparr>se_client = 3, se_watch = [([1, 2], False)],
     se_gate = \<lparr>ga_now = 0, ga_wait_err = None, ga_probe_err = None, ga_noted = None, ga_later = 0,
                ga_attempts = (\<lambda>_. sample_attempt 1)\<rparr>,
     se_relay_outcomes = [], se_client_reads = [\<lparr>cy_set_err = None, cy_data = [3], cy_fault = None\<rparr>,
       \<lparr>cy_set_err = None, cy_data = [4, 5], cy_fault = Some ReadEof\<rparr>],
     se_relay_reads = [], se_client_write = sink_write, se_ctx_done = False\<rparr>"

theorem session_forwards_in_order_witness:
  "\<exists>t acts logs ciphers out. dial_tunnel sample_config None 100 sample_net = (Inr t, acts)
     \<and> run_session sample_bridge [1, 2] t sample_session = (logs, ciphers, out)
     \<and> concat (snd (run_decode decode \<lparr>de_key = [97, 98], de_state = 0, de_bootstrap = [],
          de_ready = False\<rparr> ciphers)) = [1, 2, 3, 4, 5]"
proof -
  let ?d = "\<lparr>de_key = [97, 98], de_state = 0, de_bootstrap = [], de_ready = False\<rparr>"
  obtain t acts where d: "dial_tunnel sample_config None 100 sample_net = (Inr t, acts)"
    using sample_dial_ok by (auto simp: sample_dial_def split: prod.splits sum.splits)
  have u: "length (tc_token sample_config) + 1 \<le> usable 208 (sc_random sample_net)" by code_simp
  have n: "new_decoder (tc_token sample_config) = Inr ?d" by code_simp
  have o: "list_all (\<lambda>x. x = None) (se_relay_outcomes sample_session)"
    by (simp add: sample_session_def)
  have c: "carried (se_client_reads sample_session) = [3, 4, 5]" by (simp add: sample_session_def)
  obtain logs ciphers out where r: "run_session sample_bridge [1, 2] t sample_session = (logs, ciphers, out)"
    by (metis prod_cases3)
  from session_forwards_in_order [OF d u n o r refl] c d r show ?thesis by auto
qed

subsection \<open>One session leaves nothing behind\<close>

text \<open>A dial moves nothing but the note of the last refusal.\<close>

definition same_books :: "bridge \<Rightarrow> bridge \<Rightarrow> bool" where
  "same_books b b' \<longleftrightarrow> br_active b' = br_active b \<and> br_sessions b' = br_sessions b
     \<and> br_conns b' = br_conns b \<and> br_max_sessions b' = br_max_sessions b"

lemma same_books_refl [intro!, simp]: "same_books b b"
  by (simp add: same_books_def)

lemma same_books_note [simp]: "same_books b (note_refusal b' t r) \<longleftrightarrow> same_books b b'"
  "same_books (note_refusal b t r) b' \<longleftrightarrow> same_books b b'"
  by (simp_all add: same_books_def note_refusal_def)

lemma explains_books: "explains b ts b' out \<Longrightarrow> same_books b b'"
  by (auto simp: explains_def split: option.splits)

lemma dial_with_retry_books:
  assumes "dial_with_retry b s = (b', out, evs)"
  shows "same_books b b'"
  using retry_loop_explains [OF assms [unfolded dial_with_retry_def]] explains_books by auto

lemma dial_session_books:
  assumes "dial_session b g = (b', out, evs)"
  shows "same_books b b'"
proof -
  define nb where "nb = (case ga_noted g of None \<Rightarrow> b | Some (t, r) \<Rightarrow> note_refusal b t r)"
  have n: "same_books b nb" by (auto simp: nb_def split: option.split)
  have "b' = b \<or> b' = nb \<or> (\<exists>o2 e2. dial_with_retry b (ga_attempts g) = (b', o2, e2))
      \<or> (\<exists>o2 e2. dial_with_retry nb (ga_attempts g) = (b', o2, e2))"
    using assms unfolding dial_session_def Let_def nb_def [symmetric]
    by (auto split: prod.splits if_splits option.splits)
  with n dial_with_retry_books show ?thesis by (fastforce simp: same_books_def)
qed

lemma run_session_warns:
  assumes "run_session b pending tun s = (ls, cs, out)"
  shows "\<not> (LogIdleDropped \<in> set ls \<and> LogNoCameraData \<in> set ls)"
proof -
  obtain side k err where w: "(if pending \<noteq> []
      then relay_write \<lparr>rl_tunnel = tun, rl_cipher = [], rl_outcomes = se_relay_outcomes s\<rparr> pending
      else (\<lparr>rl_tunnel = tun, rl_cipher = [], rl_outcomes = se_relay_outcomes s\<rparr>, 0, None)) = (side, k, err)"
    by (metis prod_cases3)
  obtain side' o' fc fr idled where p: "pipe (br_idle_timeout b) side s = (side', o', fc, fr, idled)"
    by (metis prod_cases5)
  have ls: "ls = (if err \<noteq> None then [LogOpen (rs_fields (tn_response tun) < 8), LogForwardFailed]
      else [LogOpen (rs_fields (tn_response tun) < 8), LogClosed (fc + length pending) fr]
        @ (if idled \<and> 0 < fr \<and> \<not> se_ctx_done s then [LogIdleDropped] else [])
        @ (if fr = 0 \<and> \<not> se_ctx_done s then [LogNoCameraData] else []))"
    using assms unfolding run_session_def Let_def w prod.case p
    by (cases "err = None"; cases "se_ctx_done s"; cases "idled"; cases "fr = 0") simp_all
  show ?thesis
    by (cases "err = None"; cases "fr = 0") (simp_all add: ls)
qed

lemma dial_failure_log_quiet: "dial_failure_log l out \<noteq> LogIdleDropped \<and> dial_failure_log l out \<noteq> LogNoCameraData"
  by (simp add: dial_failure_log_def split: dial_outcome.splits option.splits)

text \<open>Handling a client keeps the books: a client over the cap changes nothing; any other is
  counted once, and when it is gone its slot is free again and its connection is forgotten,
  whether the relay was opened, refused, unreachable or the client left.  At most one of the
  two camera warnings is logged.\<close>

theorem handle_keeps_books:
  assumes "handle_client b s = (b', logs, cipher, out)" and "se_client s \<notin> br_conns b"
  shows "br_active b' = br_active b \<and> br_conns b' = br_conns b
    \<and> (if 0 < br_max_sessions b \<and> br_max_sessions b \<le> br_active b
       then b' = b \<and> logs = [LogRefusedFull]
       else br_sessions b' = br_sessions b + 1 \<and> hd logs = LogConnected \<and> last logs = LogDisconnected
         \<and> \<not> (LogIdleDropped \<in> set logs \<and> LogNoCameraData \<in> set logs))"
proof (cases "0 < br_max_sessions b \<and> br_max_sessions b \<le> br_active b")
  case True
  then show ?thesis using assms(1) by (simp add: handle_client_def reserve_session_def)
next
  case False
  let ?b = "track_conn (b\<lparr>br_active := br_active b + 1, br_sessions := br_sessions b + 1\<rparr>) (se_client s) True"
  have r: "reserve_session b = (b\<lparr>br_active := br_active b + 1\<rparr>, True)"
    using False by (auto simp: reserve_session_def)
  obtain b1 outcome evs where d: "dial_session ?b (se_gate s) = (b1, outcome, evs)" by (metis prod_cases3)
  note f = dial_session_books [OF d, unfolded same_books_def]
  obtain pending left where w: "watch_run (se_watch s) = (pending, left)" by fastforce
  obtain ls cs o' where l: "(case outcome of DialOpened tun \<Rightarrow> run_session b1 pending tun s
      | _ \<Rightarrow> ([dial_failure_log left outcome], [], [])) = (ls, cs, o')" by (metis prod_cases3)
  have b': "b' = release_session b1 (se_client s)" and logs: "logs = LogConnected # ls @ [LogDisconnected]"
    using assms(1) d w l by (auto simp: handle_client_def r Let_def)
  have "\<not> (LogIdleDropped \<in> set ls \<and> LogNoCameraData \<in> set ls)"
    using l run_session_warns dial_failure_log_quiet by (auto split: dial_outcome.splits)
  with f False assms(2) show ?thesis
    by (auto simp: b' logs release_session_def track_conn_def Let_def)
qed

theorem handle_keeps_books_witness:
  "let b' = fst (handle_client sample_bridge sample_session)
   in br_active b' = 0 \<and> br_sessions b' = 1 \<and> br_conns b' = {}"
proof -
  obtain b' logs cipher out where h: "handle_client sample_bridge sample_session = (b', logs, cipher, out)"
    by (metis prod_cases4)
  have "se_client sample_session \<notin> br_conns sample_bridge" by (simp add: sample_bridge_def)
  note books = handle_keeps_books [OF h this]
  have "br_active sample_bridge = 0" "br_conns sample_bridge = {}" "br_sessions sample_bridge = 0"
    "br_max_sessions sample_bridge = 2" by (simp_all add: sample_bridge_def)
  with books show ?thesis by (simp add: h)
qed

end
