(* ===== verification/Session_Cap.thy ===== *)
theory Session_Cap
  imports Bridge_Session
begin

text \<open>
  The session cap under concurrency (\<open>reserveSession\<close> and the reservation and release of
  \<open>handle\<close>, internal/bridge/bridge.go).  Every client runs in its own goroutine; the steps are the
  atomic operations it performs: the load of the active counter, the compare-and-swap, the
  increment of the session counter, the two changes of the connection table under the lock, and
  the decrement in the deferred release.
\<close>

datatype client_phase =
    Arrived
  | Loaded int
  | Reserved
  | Counted
  | Tracked
  | Untracked
  | Released
  | TurnedAway

record cap_state =
  cp_active :: int
  cp_total :: int
  cp_conns :: "nat set"
  cp_client :: "nat \<Rightarrow> client_phase option"

definition move_client :: "nat \<Rightarrow> client_phase \<Rightarrow> cap_state \<Rightarrow> cap_state" where
  "move_client i p s = s\<lparr>cp_client := (cp_client s)(i \<mapsto> p)\<rparr>"

lemma move_client_simps [simp, frame_simps]:
  "cp_active (move_client i p s) = cp_active s" "cp_total (move_client i p s) = cp_total s"
  "cp_conns (move_client i p s) = cp_conns s"
  "cp_client (move_client i p s) j = (if j = i then Some p else cp_client s j)"
  by (simp_all add: move_client_def)

inductive cap_step :: "int \<Rightarrow> cap_state \<Rightarrow> cap_state \<Rightarrow> bool" for maximum where
  accept: "cp_client s i = None \<Longrightarrow> cap_step maximum s (move_client i Arrived s)"
| unlimited: "cp_client s i = Some Arrived \<Longrightarrow> maximum \<le> 0 \<Longrightarrow>
     cap_step maximum s ((move_client i Reserved s)\<lparr>cp_active := cp_active s + 1\<rparr>)"
| load: "cp_client s i = Some Arrived \<Longrightarrow> 0 < maximum \<Longrightarrow>
     cap_step maximum s (move_client i (Loaded (cp_active s)) s)"
| full: "cp_client s i = Some (Loaded a) \<Longrightarrow> maximum \<le> a \<Longrightarrow>
     cap_step maximum s (move_client i TurnedAway s)"
| swapped: "cp_client s i = Some (Loaded a) \<Longrightarrow> a < maximum \<Longrightarrow> cp_active s = a \<Longrightarrow>
     cap_step maximum s ((move_client i Reserved s)\<lparr>cp_active := a + 1\<rparr>)"
| lost_race: "cp_client s i = Some (Loaded a) \<Longrightarrow> a < maximum \<Longrightarrow> cp_active s \<noteq> a \<Longrightarrow>
     cap_step maximum s (move_client i Arrived s)"
| count: "cp_client s i = Some Reserved \<Longrightarrow>
     cap_step maximum s ((move_client i Counted s)\<lparr>cp_total := cp_total s + 1\<rparr>)"
| track: "cp_client s i = Some Counted \<Longrightarrow>
     cap_step maximum s ((move_client i Tracked s)\<lparr>cp_conns := insert i (cp_conns s)\<rparr>)"
| untrack: "cp_client s i = Some Tracked \<Longrightarrow>
     cap_step maximum s ((move_client i Untracked s)\<lparr>cp_conns := cp_conns s - {i}\<rparr>)"
| release: "cp_client s i = Some Untracked \<Longrightarrow>
     cap_step maximum s ((move_client i Released s)\<lparr>cp_active := cp_active s - 1\<rparr>)"

inductive_cases cap_stepE: "cap_step maximum s t"

definition cap_start :: cap_state where
  "cap_start = \<lparr>cp_active = 0, cp_total = 0, cp_conns = {}, cp_client = (\<lambda>_. None)\<rparr>"

inductive cap_reach :: "int \<Rightarrow> cap_state \<Rightarrow> bool" for maximum where
  start: "cap_reach maximum cap_start"
| more: "cap_reach maximum s \<Longrightarrow> cap_step maximum s t \<Longrightarrow> cap_reach maximum t"

definition clients_in :: "client_phase set \<Rightarrow> cap_state \<Rightarrow> nat set" where
  "clients_in ps s = {i. \<exists>p. cp_client s i = Some p \<and> p \<in> ps}"

lemma clients_in_cong: "cp_client s = cp_client t \<Longrightarrow> clients_in ps s = clients_in ps t"
  by (simp add: clients_in_def)

lemma clients_in_move:
  "clients_in ps (move_client i p s) = (if p \<in> ps then insert i (clients_in ps s) else clients_in ps s - {i})"
  by (auto simp: clients_in_def)

lemma clients_in_update [simp]:
  "clients_in ps (s\<lparr>cp_active := a\<rparr>) = clients_in ps s"
  "clients_in ps (s\<lparr>cp_total := t\<rparr>) = clients_in ps s"
  "clients_in ps (s\<lparr>cp_conns := c\<rparr>) = clients_in ps s"
  by (simp_all add: clients_in_def)

lemma in_clients: "cp_client s i = Some p \<Longrightarrow> i \<in> clients_in ps s \<longleftrightarrow> p \<in> ps"
  "cp_client s i = None \<Longrightarrow> i \<notin> clients_in ps s"
  by (auto simp: clients_in_def)

abbreviation holding :: "client_phase set" where
  "holding \<equiv> {Reserved, Counted, Tracked, Untracked}"

abbreviation counted :: "client_phase set" where
  "counted \<equiv> {Counted, Tracked, Untracked, Released}"

definition cap_inv :: "int \<Rightarrow> cap_state \<Rightarrow> bool" where
  "cap_inv maximum s \<longleftrightarrow> finite (clients_in holding s) \<and> finite (clients_in counted s)
     \<and> cp_active s = int (card (clients_in holding s))
     \<and> cp_total s = int (card (clients_in counted s))
     \<and> cp_conns s = clients_in {Tracked} s
     \<and> (0 < maximum \<longrightarrow> cp_active s \<le> maximum)"

lemma cap_inv_step:
  assumes "cap_step maximum s t" and "cap_inv maximum s"
  shows "cap_inv maximum t"
  using assms
proof cases
  case (release i)
  then have "i \<in> clients_in holding s" by (simp add: in_clients)
  then have "0 < card (clients_in holding s)" using assms(2) by (auto simp: cap_inv_def card_gt_0_iff)
  with release assms(2) show ?thesis
    by (auto simp: cap_inv_def clients_in_move in_clients card_Diff_singleton insert_absorb of_nat_diff)
qed (auto simp: cap_inv_def clients_in_move in_clients insert_absorb)

lemma cap_reach_inv: "cap_reach maximum s \<Longrightarrow> cap_inv maximum s"
proof (induction rule: cap_reach.induct)
  case start
  then show ?case by (simp add: cap_inv_def cap_start_def clients_in_def)
next
  case (more s t)
  then show ?case using cap_inv_step by blast
qed

text \<open>C14: whatever way the goroutines of a bridge interleave, the active counter is the number of
  clients that hold a slot and never passes the cap, the session counter is the number of
  clients that were ever admitted, and the table holds exactly the connections in service; so
  when every client is gone all slots are free again.\<close>

theorem session_cap_holds:
  assumes "cap_reach maximum s" and "0 < maximum"
  shows "int (card (clients_in holding s)) = cp_active s \<and> cp_active s \<le> maximum
    \<and> cp_total s = int (card (clients_in counted s)) \<and> cp_conns s = clients_in {Tracked} s"
  using cap_reach_inv [OF assms(1)] assms(2) by (simp add: cap_inv_def)

definition cap_one :: cap_state where
  "cap_one = (move_client 0 Reserved (move_client 0 (Loaded 0) (move_client 0 Arrived cap_start)))
     \<lparr>cp_active := 1\<rparr>"

lemma cap_one_reach: "cap_reach 1 cap_one"
proof -
  have 1: "cap_step 1 cap_start (move_client 0 Arrived cap_start)"
    by (rule cap_step.accept) (simp add: cap_start_def)
  have 2: "cap_step 1 (move_client 0 Arrived cap_start)
      (move_client 0 (Loaded 0) (move_client 0 Arrived cap_start))"
    using cap_step.load [of "move_client 0 Arrived cap_start" 0 1] by (simp add: cap_start_def)
  have 3: "cap_step 1 (move_client 0 (Loaded 0) (move_client 0 Arrived cap_start)) cap_one"
    using cap_step.swapped [of "move_client 0 (Loaded 0) (move_client 0 Arrived cap_start)" 0 0 1]
    by (simp add: cap_start_def cap_one_def)
  show ?thesis using cap_reach.more [OF cap_reach.more [OF cap_reach.more [OF cap_reach.start 1] 2] 3] .
qed

theorem session_cap_holds_witness:
  "card (clients_in holding cap_one) = 1 \<and> cp_conns cap_one = clients_in {Tracked} cap_one"
  using session_cap_holds [OF cap_one_reach] by (simp add: cap_one_def)

text \<open>The sequential \<open>reserve_session\<close> is the undisturbed run of these steps.\<close>

lemma reserve_session_steps:
  assumes "cp_client s i = Some Arrived" and "cp_active s = br_active b"
  shows "\<exists>t. (cap_step (br_max_sessions b))\<^sup>*\<^sup>* s t \<and> cp_active t = br_active (fst (reserve_session b))
    \<and> cp_client t i = Some (if snd (reserve_session b) then Reserved else TurnedAway)"
proof (cases "br_max_sessions b \<le> 0")
  case True
  from cap_step.unlimited [OF assms(1) True] show ?thesis
    using True assms(2) by (intro exI conjI) (erule r_into_rtranclp, simp_all add: reserve_session_def)
next
  case False
  let ?m = "br_max_sessions b" and ?l = "move_client i (Loaded (cp_active s)) s"
  have l: "cap_step ?m s ?l" using cap_step.load [OF assms(1)] False by simp
  show ?thesis
  proof (cases "?m \<le> br_active b")
    case True
    have "cap_step ?m ?l (move_client i TurnedAway ?l)"
      by (rule cap_step.full [of _ _ "cp_active s"]) (use True assms(2) in simp_all)
    with l have "(cap_step ?m)\<^sup>*\<^sup>* s (move_client i TurnedAway ?l)"
      by (meson r_into_rtranclp rtranclp_trans)
    then show ?thesis using True False assms(2)
      by (intro exI conjI) (assumption, simp_all add: reserve_session_def)
  next
    case no: False
    have "cap_step ?m ?l ((move_client i Reserved ?l)\<lparr>cp_active := cp_active s + 1\<rparr>)"
      by (rule cap_step.swapped) (use no assms(2) in simp_all)
    with l have "(cap_step ?m)\<^sup>*\<^sup>* s ((move_client i Reserved ?l)\<lparr>cp_active := cp_active s + 1\<rparr>)"
      by (meson r_into_rtranclp rtranclp_trans)
    then show ?thesis using no False assms(2)
      by (intro exI conjI) (assumption, simp_all add: reserve_session_def)
  qed
qed

end
