(* ===== verification/Bridge_Serve.thy ===== *)
theory Bridge_Serve
  imports Bridge_Session
begin

text \<open>
  \<open>Serve\<close> and \<open>Close\<close> of \<open>internal/bridge/bridge.go\<close> as a step relation: the accept loop, one
  goroutine per client, \<open>Close\<close> from another goroutine, and the cancelled context.  A client is
  accepted, then tracked by its own goroutine, and between the two \<open>Close\<close> can run.
\<close>

datatype handler_phase = Accepted | Working | Gone

record serve_state =
  bs_listening :: bool
  bs_closing :: bool
  bs_cancelled :: bool
  bs_draining :: "string option"
  bs_result :: "serve_end option"
  bs_phase :: "nat \<Rightarrow> handler_phase option"
  bs_tracked :: "nat set"
  bs_open :: "nat set"

definition serve_begin :: serve_state where
  "serve_begin = \<lparr>bs_listening = True, bs_closing = False, bs_cancelled = False, bs_draining = None,
     bs_result = None, bs_phase = (\<lambda>_. None), bs_tracked = {}, bs_open = {}\<rparr>"

text \<open>\<open>Close\<close>: the listener and the clients tracked by then.\<close>

definition serve_close :: "serve_state \<Rightarrow> serve_state" where
  "serve_close s =
     (if bs_closing s then s
      else s\<lparr>bs_closing := True, bs_listening := False, bs_open := bs_open s - bs_tracked s\<rparr>)"

definition running :: "serve_state \<Rightarrow> nat \<Rightarrow> bool" where
  "running s c \<longleftrightarrow> bs_phase s c = Some Accepted \<or> bs_phase s c = Some Working"

inductive serve_step :: "serve_state \<Rightarrow> serve_state \<Rightarrow> bool" where
  accept: "bs_listening s \<Longrightarrow> bs_draining s = None \<Longrightarrow> bs_phase s c = None \<Longrightarrow>
     serve_step s (s\<lparr>bs_phase := (bs_phase s)(c \<mapsto> Accepted), bs_open := insert c (bs_open s)\<rparr>)"
| refuse: "bs_phase s c = Some Accepted \<Longrightarrow>
     serve_step s (s\<lparr>bs_phase := (bs_phase s)(c \<mapsto> Gone), bs_open := bs_open s - {c}\<rparr>)"
| track: "bs_phase s c = Some Accepted \<Longrightarrow>
     serve_step s (s\<lparr>bs_phase := (bs_phase s)(c \<mapsto> Working), bs_tracked := insert c (bs_tracked s)\<rparr>)"
| drop_client: "bs_cancelled s \<Longrightarrow> bs_phase s c = Some Working \<Longrightarrow> serve_step s (s\<lparr>bs_open := bs_open s - {c}\<rparr>)"
| depart: "bs_phase s c = Some Working \<Longrightarrow>
     serve_step s (s\<lparr>bs_phase := (bs_phase s)(c \<mapsto> Gone), bs_open := bs_open s - {c},
       bs_tracked := bs_tracked s - {c}\<rparr>)"
| close: "serve_step s (serve_close s)"
| cancel: "serve_step s (s\<lparr>bs_cancelled := True\<rparr>)"
| accept_fails: "bs_draining s = None \<Longrightarrow> serve_step s (s\<lparr>bs_draining := Some e\<rparr>)"
| return: "bs_draining s = Some e \<Longrightarrow> bs_result s = None \<Longrightarrow> (\<And>c. \<not> running s c) \<Longrightarrow>
     serve_step s (s\<lparr>bs_result := Some (if bs_closing s \<or> bs_cancelled s then ServeClean else ServeFault e)\<rparr>)"

inductive_cases serve_stepE: "serve_step s s'"

inductive serve_reach :: "serve_state \<Rightarrow> bool" where
  start: "serve_reach serve_begin"
| further: "serve_reach s \<Longrightarrow> serve_step s s' \<Longrightarrow> serve_reach s'"

definition serve_ok :: "serve_state \<Rightarrow> bool" where
  "serve_ok s \<longleftrightarrow>
     bs_tracked s = {c. bs_phase s c = Some Working}
   \<and> (\<forall>c \<in> bs_open s. running s c)
   \<and> (bs_closing s \<longrightarrow> \<not> bs_listening s)
   \<and> (bs_result s \<noteq> None \<longrightarrow> bs_draining s \<noteq> None \<and> (\<forall>c. \<not> running s c))
   \<and> (bs_result s = Some ServeClean \<longrightarrow> bs_closing s \<or> bs_cancelled s)
   \<and> (\<forall>e. bs_result s = Some (ServeFault e) \<longrightarrow> bs_draining s = Some e)"

lemma serve_begin_ok: "serve_ok serve_begin"
  by (simp add: serve_ok_def serve_begin_def)

lemma serve_step_ok: "serve_step s s' \<Longrightarrow> serve_ok s \<Longrightarrow> serve_ok s'"
proof (induction rule: serve_step.induct)
  case (close s)
  then show ?case by (auto simp: serve_ok_def serve_close_def running_def)
qed (auto simp: serve_ok_def running_def split: if_splits)

lemma serve_reach_ok: "serve_reach s \<Longrightarrow> serve_ok s"
  by (induction rule: serve_reach.induct) (auto simp: serve_begin_ok serve_step_ok)

text \<open>\<open>Serve\<close> returns only when it has let go of everything: under every interleaving, once it has
  returned no handler runs, no client socket is open and none is tracked; it reports a fault only
  for an error of \<open>Accept\<close>, and calls the end clean only when it was closed or cancelled.\<close>

theorem serve_returns_quiet:
  assumes "serve_reach s" and "bs_result s = Some r"
  shows "(\<forall>c. \<not> running s c) \<and> bs_open s = {} \<and> bs_tracked s = {} \<and> \<not> (bs_listening s \<and> bs_closing s)
    \<and> (case r of ServeClean \<Rightarrow> bs_closing s \<or> bs_cancelled s | ServeFault e \<Rightarrow> bs_draining s = Some e)"
  using serve_reach_ok [OF assms(1)] assms(2) by (auto simp: serve_ok_def running_def split: serve_end.splits)

text \<open>A client that was accepted but not yet tracked when \<open>Close\<close> ran is not closed by it: it stays open
  behind the closed listener, and \<open>Serve\<close> does not return before that client leaves by itself.\<close>

theorem close_misses_accepted:
  "\<exists>s. serve_reach s \<and> bs_closing s \<and> \<not> bs_listening s \<and> \<not> bs_cancelled s
     \<and> bs_phase s 0 = Some Working \<and> 0 \<in> bs_open s
     \<and> (\<forall>s'. serve_step s s' \<longrightarrow> bs_result s' = None)"
proof -
  let ?a = "serve_begin\<lparr>bs_phase := (bs_phase serve_begin)(0 \<mapsto> Accepted), bs_open := insert 0 (bs_open serve_begin)\<rparr>"
  let ?c = "serve_close ?a"
  let ?t = "?c\<lparr>bs_phase := (bs_phase ?c)(0 \<mapsto> Working), bs_tracked := insert 0 (bs_tracked ?c)\<rparr>"
  have "serve_step serve_begin ?a" by (rule serve_step.accept) (simp_all add: serve_begin_def)
  then have "serve_reach ?a" using serve_reach.start serve_reach.further by blast
  then have c: "serve_reach ?c" using serve_step.close serve_reach.further by blast
  have "serve_step ?c ?t" by (rule serve_step.track) (simp add: serve_close_def serve_begin_def)
  with c have t: "serve_reach ?t" by (rule serve_reach.further)
  have facts: "bs_closing ?t" "\<not> bs_listening ?t" "\<not> bs_cancelled ?t" "bs_phase ?t 0 = Some Working" "0 \<in> bs_open ?t"
    "bs_result ?t = None" by (simp_all add: serve_close_def serve_begin_def)
  have stay: "bs_result s' = None" if "serve_step s s'" "bs_result s = None" "bs_phase s 0 = Some Working" for s s'
    by (rule serve_stepE [OF that(1)]) (use that(2,3) in \<open>auto simp: serve_close_def running_def\<close>)
  have "\<forall>s'. serve_step ?t s' \<longrightarrow> bs_result s' = None" using stay facts(4,6) by blast
  with t facts show ?thesis by blast
qed

text \<open>With the context cancelled there is always a step that closes such a client.\<close>

lemma cancelled_client_droppable:
  "bs_cancelled s \<Longrightarrow> bs_phase s c = Some Working \<Longrightarrow> c \<in> bs_open s \<Longrightarrow>
     \<exists>s'. serve_step s s' \<and> c \<notin> bs_open s'"
  using serve_step.drop_client by fastforce

end
