(* ===== verification/Registry.thy ===== *)
theory Registry
  imports Bridge_Config
begin

text \<open>
  The camera registry (internal/app/registry.go): the order of the cameras, their stream names
  and their listen addresses.  \<open>net.Listen\<close> as the port probe is a parameter, and so are the
  Unicode tables above ASCII (lower case, letter or digit); the UTF-8 decoding they are applied
  to is written out.
\<close>

subsection \<open>Stream names\<close>

definition rune_error :: nat where
  "rune_error = 0xFFFD"

definition cont_byte :: "nat \<Rightarrow> bool" where
  "cont_byte b \<longleftrightarrow> 0x80 \<le> b \<and> b < 0xC0"

text \<open>The first rune of a byte string and its width; an invalid byte is the error rune.\<close>

definition decode_rune :: "nat list \<Rightarrow> nat \<times> nat" where
  "decode_rune s = (case s of
       [] \<Rightarrow> (rune_error, 0)
     | a # r \<Rightarrow>
        if a < 0x80 then (a, 1)
        else case r of
          [] \<Rightarrow> (rune_error, 1)
        | b # r2 \<Rightarrow>
           if 0xC2 \<le> a \<and> a < 0xE0 \<and> cont_byte b then ((a - 0xC0) * 64 + (b - 0x80), 2)
           else case r2 of
             [] \<Rightarrow> (rune_error, 1)
           | c # r3 \<Rightarrow>
              let v3 = (a - 0xE0) * 4096 + (b - 0x80) * 64 + (c - 0x80) in
              if 0xE0 \<le> a \<and> a < 0xF0 \<and> cont_byte b \<and> cont_byte c \<and> 0x800 \<le> v3
                 \<and> \<not> (0xD800 \<le> v3 \<and> v3 < 0xE000)
              then (v3, 3)
              else case r3 of
                [] \<Rightarrow> (rune_error, 1)
              | d # _ \<Rightarrow>
                 let v4 = (a - 0xF0) * 262144 + (b - 0x80) * 4096 + (c - 0x80) * 64 + (d - 0x80) in
                 if 0xF0 \<le> a \<and> a < 0xF5 \<and> cont_byte b \<and> cont_byte c \<and> cont_byte d
                    \<and> 0x10000 \<le> v4 \<and> v4 < 0x110000
                 then (v4, 4) else (rune_error, 1))"

lemma decode_rune_width: "s \<noteq> [] \<Longrightarrow> 0 < snd (decode_rune s)"
  by (auto simp: decode_rune_def Let_def split: list.splits)

function runes :: "nat list \<Rightarrow> nat list" where
  "runes s = (if s = [] then [] else fst (decode_rune s) # runes (drop (snd (decode_rune s)) s))"
  by pat_completeness auto
termination
  by (relation "measure length") (auto simp: decode_rune_width)

declare runes.simps [simp del]

definition encode_rune :: "nat \<Rightarrow> nat list" where
  "encode_rune n =
     (if n < 0x80 then [n]
      else if n < 0x800 then [0xC0 + n div 64, 0x80 + n mod 64]
      else if 0xD800 \<le> n \<and> n < 0xE000 \<or> 0x110000 \<le> n then [0xEF, 0xBF, 0xBD]
      else if n < 0x10000 then [0xE0 + n div 4096, 0x80 + n div 64 mod 64, 0x80 + n mod 64]
      else [0xF0 + n div 262144, 0x80 + n div 4096 mod 64, 0x80 + n div 64 mod 64, 0x80 + n mod 64])"

record unicode =
  un_lower :: "nat \<Rightarrow> nat"
  un_alnum :: "nat \<Rightarrow> bool"

definition rune_lower :: "unicode \<Rightarrow> nat \<Rightarrow> nat" where
  "rune_lower u r = (if r < 0x80 then (if 65 \<le> r \<and> r \<le> 90 then r + 32 else r) else un_lower u r)"

definition rune_alnum :: "unicode \<Rightarrow> nat \<Rightarrow> bool" where
  "rune_alnum u r =
     (if r < 0x80 then 48 \<le> r \<and> r \<le> 57 \<or> 65 \<le> r \<and> r \<le> 90 \<or> 97 \<le> r \<and> r \<le> 122 else un_alnum u r)"

definition to_lower_runes :: "unicode \<Rightarrow> string \<Rightarrow> nat list" where
  "to_lower_runes u s = runes (concat (map (\<lambda>r. encode_rune (rune_lower u r)) (runes (map of_char s))))"

fun stream_loop :: "unicode \<Rightarrow> string \<Rightarrow> bool \<Rightarrow> nat list \<Rightarrow> string" where
  "stream_loop u acc separator [] = acc"
| "stream_loop u acc separator (r # rs) =
     (if rune_alnum u r then stream_loop u (acc @ map char_of (encode_rune r)) False rs
      else if acc \<noteq> [] \<and> \<not> separator then stream_loop u (acc @ ''-'') True rs
      else stream_loop u acc separator rs)"

definition stream_name :: "unicode \<Rightarrow> string \<Rightarrow> string" where
  "stream_name u name =
     (let result = trim ''-'' (stream_loop u [] False (to_lower_runes u name))
      in if result = [] then ''camera'' else result)"

text \<open>The suffix loop; \<open>fuel\<close> bounds the names it tries.\<close>

fun name_loop :: "nat \<Rightarrow> string \<Rightarrow> int \<Rightarrow> string list \<Rightarrow> string \<Rightarrow> string option" where
  "name_loop 0 base suffix used name = None"
| "name_loop (Suc fuel) base suffix used name =
     (if name \<in> set used then name_loop fuel base (suffix + 1) used (base @ ''-'' @ itoa suffix)
      else Some name)"

definition unique_name :: "string \<Rightarrow> string list \<Rightarrow> string option" where
  "unique_name base used = name_loop (length used + 2) base 2 used base"

subsection \<open>Listen addresses\<close>

record camera =
  cm_credentials :: credentials
  cm_stream_name :: string
  cm_listen_addr :: string

record registry =
  rg_cameras :: "camera list"
  rg_legacy_alias :: string
  rg_legacy_target :: string

record build_options =
  bo_base_address :: string
  bo_credentials :: "credentials list"
  bo_recorded :: "(string \<times> string) list"
  bo_port_in_use :: "(string \<Rightarrow> int \<Rightarrow> bool) option"

datatype build_error = BadBaseAddress | BadBasePort | NoFreePort int | NameLoop

definition address_port :: "string \<Rightarrow> int option" where
  "address_port a = (case split_host_port a of None \<Rightarrow> None | Some (h, p) \<Rightarrow> atoi p)"

definition recorded_address :: "(string \<times> string) list \<Rightarrow> credentials \<Rightarrow> string \<Rightarrow> string option" where
  "recorded_address recorded c host =
     (if recorded = [] \<or> cr_udid c = [] then None
      else case map_of recorded (cr_udid c) of
        None \<Rightarrow> None
      | Some address \<Rightarrow>
          (case split_host_port address of
             None \<Rightarrow> None
           | Some (h, port_text) \<Rightarrow>
               if h \<noteq> host then None
               else case atoi port_text of
                 None \<Rightarrow> None
               | Some port \<Rightarrow> if port < 1 \<or> 65535 < port then None else Some address))"

function free_port :: "string \<Rightarrow> int \<Rightarrow> int set \<Rightarrow> (string \<Rightarrow> int \<Rightarrow> bool) \<Rightarrow> int option" where
  "free_port host port taken in_use =
     (if 65535 < port then None
      else if port \<in> taken \<or> in_use host port then free_port host (port + 1) taken in_use
      else Some port)"
  by pat_completeness auto
termination
  by (relation "measure (\<lambda>(host, port, taken, in_use). nat (65536 - port))") auto

declare free_port.simps [simp del]

definition claimed_ports :: "string option list \<Rightarrow> int set" where
  "claimed_ports addresses =
     set (concat (map (\<lambda>a. case a of None \<Rightarrow> []
       | Some address \<Rightarrow> (case address_port address of None \<Rightarrow> [] | Some p \<Rightarrow> [p])) addresses))"

text \<open>The body of the second loop, over the sorted cameras with the address each has recorded.\<close>

fun assign_cameras ::
  "unicode \<Rightarrow> (string \<Rightarrow> int \<Rightarrow> bool) \<Rightarrow> string \<Rightarrow> int \<Rightarrow> nat \<Rightarrow> int set \<Rightarrow> string list
     \<Rightarrow> (credentials \<times> string option) list \<Rightarrow> build_error + camera list" where
  "assign_cameras u in_use host base_port index taken used [] = Inr []"
| "assign_cameras u in_use host base_port index taken used ((c, recorded) # rest) =
     (let wanted = (if 0 < index then base_port + 999 + int index else base_port);
          allocated = (case recorded of
              Some address \<Rightarrow> Some (address, taken)
            | None \<Rightarrow> (case free_port host wanted taken in_use of
                None \<Rightarrow> None
              | Some port \<Rightarrow> Some (join_host_port host (itoa port), insert port taken)));
          source = (if cr_name c = [] then ''camera-'' @ cr_udid c else cr_name c)
      in case allocated of
           None \<Rightarrow> Inl (NoFreePort wanted)
         | Some (address, taken') \<Rightarrow>
             (case unique_name (stream_name u source) used of
                None \<Rightarrow> Inl NameLoop
              | Some name \<Rightarrow>
                  bind_sum (assign_cameras u in_use host base_port (index + 1) taken' (name # used) rest)
                    (\<lambda>cameras. Inr (\<lparr>cm_credentials = c, cm_stream_name = name,
                                    cm_listen_addr = address\<rparr> # cameras))))"

definition build_registry :: "unicode \<Rightarrow> build_options \<Rightarrow> build_error + registry" where
  "build_registry u options =
     (case split_host_port (bo_base_address options) of
        None \<Rightarrow> Inl BadBaseAddress
      | Some (host, port_text) \<Rightarrow>
     (case atoi port_text of
        None \<Rightarrow> Inl BadBasePort
      | Some base_port \<Rightarrow>
        if base_port < 1 \<or> 65535 < base_port then Inl BadBasePort else
        let ordered = sort_key cr_udid (bo_credentials options);
            in_use = (case bo_port_in_use options of None \<Rightarrow> (\<lambda>_ _. False) | Some f \<Rightarrow> f);
            addresses = map (\<lambda>c. recorded_address (bo_recorded options) c host) ordered
        in bind_sum (assign_cameras u in_use host base_port 0 (claimed_ports addresses) []
                       (zip ordered addresses))
             (\<lambda>cameras. Inr \<lparr>rg_cameras = cameras, rg_legacy_alias = ''vm65'',
                 rg_legacy_target = (case cameras of [] \<Rightarrow> [] | c # _ \<Rightarrow> cm_stream_name c)\<rparr>)))"

text \<open>The form the bridge uses: no recorded addresses and no probe.\<close>

definition derive_registry :: "unicode \<Rightarrow> string \<Rightarrow> credentials list \<Rightarrow> build_error + registry" where
  "derive_registry u base creds =
     build_registry u \<lparr>bo_base_address = base, bo_credentials = creds, bo_recorded = [],
       bo_port_in_use = None\<rparr>"

definition registry_addresses :: "registry \<Rightarrow> (string \<times> string) list" where
  "registry_addresses r =
     rev (map (\<lambda>c. (cr_udid (cm_credentials c), cm_listen_addr c))
            (filter (\<lambda>c. cr_udid (cm_credentials c) \<noteq> []) (rg_cameras r)))"

subsection \<open>The suffix loop ends with a name nobody has\<close>

lemma itoa_inject: "0 \<le> a \<Longrightarrow> 0 \<le> b \<Longrightarrow> itoa a = itoa b \<Longrightarrow> a = b"
  by (metis dec_val_dec_digits eq_nat_nat_iff itoa_def not_less)

lemma name_loop_fresh: "name_loop fuel base suffix used name = Some n \<Longrightarrow> n \<notin> set used"
  by (induction fuel base suffix used name rule: name_loop.induct) (auto split: if_splits)

lemma name_loop_nonempty:
  "name_loop fuel base suffix used name = Some n \<Longrightarrow> name \<noteq> [] \<Longrightarrow> n \<noteq> []"
  by (induction fuel base suffix used name rule: name_loop.induct) (auto split: if_splits)

lemma name_loop_exhausted:
  "name_loop (Suc fuel) base suffix used name = None \<Longrightarrow>
     (\<lambda>k. base @ ''-'' @ itoa (suffix + int k)) ` {..<fuel} \<subseteq> set used"
proof (induction fuel arbitrary: suffix name)
  case 0
  then show ?case by simp
next
  case (Suc fuel)
  let ?f = "\<lambda>k. base @ ''-'' @ itoa (suffix + int k)"
  from Suc.prems have next_none: "name_loop (Suc fuel) base (suffix + 1) used (base @ ''-'' @ itoa suffix) = None"
    by (metis name_loop.simps(2) option.distinct(1))
  then have h: "?f 0 \<in> set used" by (simp split: if_splits)
  from Suc.IH [OF next_none] have "(\<lambda>k. ?f (Suc k)) ` {..<fuel} \<subseteq> set used"
    by (simp add: algebra_simps)
  with h have "insert (?f 0) ((\<lambda>k. ?f (Suc k)) ` {..<fuel}) \<subseteq> set used" by simp
  then show ?case unfolding lessThan_Suc_eq_insert_0 image_insert image_image .
qed

lemma unique_name_total: "\<exists>n. unique_name base used = Some n \<and> n \<notin> set used"
proof (cases "unique_name base used")
  case None
  let ?f = "\<lambda>k. base @ ''-'' @ itoa (2 + int k)" and ?m = "length used + 1"
  from None have sub: "?f ` {..<?m} \<subseteq> set used"
    using name_loop_exhausted [of ?m base 2 used base] by (simp add: unique_name_def)
  have "x = y" if "itoa (2 + int x) = itoa (2 + int y)" for x y
    using itoa_inject [OF _ _ that] by simp
  then have "inj_on ?f {..<?m}" by (auto simp: inj_on_def)
  then have "?m = card (?f ` {..<?m})" by (simp add: card_image)
  also have "\<dots> \<le> card (set used)" using sub by (intro card_mono) auto
  also have "\<dots> \<le> length used" by (rule card_length)
  finally show ?thesis by simp
next
  case (Some n)
  then show ?thesis using name_loop_fresh unfolding unique_name_def by blast
qed

lemma stream_name_nonempty: "stream_name u n \<noteq> []"
  by (simp add: stream_name_def Let_def)

lemma unique_name_nonempty: "base \<noteq> [] \<Longrightarrow> unique_name base used = Some n \<Longrightarrow> n \<noteq> []"
  unfolding unique_name_def by (rule name_loop_nonempty)

subsection \<open>The ports\<close>

lemma free_port_ok:
  "free_port host port taken in_use = Some p \<Longrightarrow>
     port \<le> p \<and> p \<le> 65535 \<and> p \<notin> taken \<and> \<not> in_use host p
     \<and> (\<forall>q. port \<le> q \<longrightarrow> q < p \<longrightarrow> q \<in> taken \<or> in_use host q)"
proof (induction host port taken in_use rule: free_port.induct)
  case (1 host port taken in_use)
  show ?case
  proof (cases "65535 < port \<or> \<not> (port \<in> taken \<or> in_use host port)")
    case True
    then show ?thesis using "1.prems" by (subst (asm) free_port.simps) (auto split: if_splits)
  next
    case False
    then have r: "free_port host (port + 1) taken in_use = Some p"
      using "1.prems" by (subst (asm) free_port.simps) simp
    note ih = "1.IH" [OF _ _ r]
    then have "port + 1 \<le> p \<and> p \<le> 65535 \<and> p \<notin> taken \<and> \<not> in_use host p
        \<and> (\<forall>q. port + 1 \<le> q \<longrightarrow> q < p \<longrightarrow> q \<in> taken \<or> in_use host q)"
      using False by blast
    moreover have "q \<in> taken \<or> in_use host q" if "port \<le> q" "q < p" for q
      using that False calculation by (cases "q = port") auto
    ultimately show ?thesis by auto
  qed
qed

text \<open>An address the second loop allocated at a host without brackets.\<close>

lemma join_port:
  assumes "plain_host host" and "1 \<le> p" and "p \<le> 65535"
  shows "split_host_port (join_host_port host (itoa p)) = Some (host, itoa p)"
    and "atoi (itoa p) = Some p" and "address_port (join_host_port host (itoa p)) = Some p"
proof -
  show s: "split_host_port (join_host_port host (itoa p)) = Some (host, itoa p)"
    using split_join_host_port [OF assms(1) plain_port_itoa] .
  show "atoi (itoa p) = Some p" using assms by (intro atoi_itoa) auto
  then show "address_port (join_host_port host (itoa p)) = Some p"
    by (simp add: address_port_def s)
qed

definition allocated :: "(string \<Rightarrow> int \<Rightarrow> bool) \<Rightarrow> string \<Rightarrow> int set \<Rightarrow> string \<Rightarrow> bool" where
  "allocated in_use host taken address \<longleftrightarrow>
     (\<exists>p. address = join_host_port host (itoa p) \<and> 1 \<le> p \<and> p \<le> 65535 \<and> p \<notin> taken \<and> \<not> in_use host p)"

lemma allocated_insert: "allocated in_use host (insert q taken) a \<Longrightarrow>
    allocated in_use host taken a \<and> (plain_host host \<longrightarrow> address_port a \<noteq> Some q)"
  by (auto simp: allocated_def join_port(3))

lemma assign_step:
  assumes "assign_cameras u in_use host base index taken used ((c, rec) # rest) = Inr cams"
    and "1 \<le> base"
  obtains cam cams' taken' where "cams = cam # cams'" "cm_credentials cam = c"
    "cm_stream_name cam \<noteq> []" "cm_stream_name cam \<notin> set used"
    "assign_cameras u in_use host base (index + 1) taken' (cm_stream_name cam # used) rest = Inr cams'"
    "case rec of Some a \<Rightarrow> cm_listen_addr cam = a \<and> taken' = taken
      | None \<Rightarrow> \<exists>p. cm_listen_addr cam = join_host_port host (itoa p) \<and> taken' = insert p taken
          \<and> 1 \<le> p \<and> p \<le> 65535 \<and> p \<notin> taken \<and> \<not> in_use host p"
proof -
  define wanted where "wanted = (if 0 < index then base + 999 + int index else base)"
  have w: "1 \<le> wanted" using assms(2) by (simp add: wanted_def)
  define source where "source = (if cr_name c = [] then ''camera-'' @ cr_udid c else cr_name c)"
  define al where "al = (case rec of Some address \<Rightarrow> Some (address, taken)
      | None \<Rightarrow> (case free_port host wanted taken in_use of None \<Rightarrow> None
          | Some port \<Rightarrow> Some (join_host_port host (itoa port), insert port taken)))"
  obtain name where n: "unique_name (stream_name u source) used = Some name" "name \<notin> set used"
    using unique_name_total by blast
  from assms(1) obtain address taken' cams' where a: "al = Some (address, taken')"
    and r: "assign_cameras u in_use host base (index + 1) taken' (name # used) rest = Inr cams'"
    and c: "cams = \<lparr>cm_credentials = c, cm_stream_name = name, cm_listen_addr = address\<rparr> # cams'"
    by (auto simp: wanted_def [symmetric] source_def [symmetric] al_def [symmetric] n Let_def
        bind_sum_Inr_iff split: option.splits)
  have "case rec of Some a \<Rightarrow> address = a \<and> taken' = taken
      | None \<Rightarrow> \<exists>p. address = join_host_port host (itoa p) \<and> taken' = insert p taken
          \<and> 1 \<le> p \<and> p \<le> 65535 \<and> p \<notin> taken \<and> \<not> in_use host p"
    using a w by (auto simp: al_def dest!: free_port_ok split: option.splits)
  with c r n unique_name_nonempty [OF stream_name_nonempty n(1)] show thesis
    by (intro that [of "\<lparr>cm_credentials = c, cm_stream_name = name, cm_listen_addr = address\<rparr>"
        cams' taken']; cases rec) simp_all
qed

lemma assign_names:
  "assign_cameras u in_use host base index taken used cs = Inr cams \<Longrightarrow> 1 \<le> base \<Longrightarrow>
     map cm_credentials cams = map fst cs \<and> distinct (map cm_stream_name cams)
     \<and> set (map cm_stream_name cams) \<inter> set used = {} \<and> [] \<notin> set (map cm_stream_name cams)"
proof (induction cs arbitrary: index taken used cams)
  case Nil
  then show ?case by simp
next
  case (Cons x cs)
  obtain c rec where x: "x = (c, rec)" by fastforce
  from assign_step [OF Cons.prems(1) [unfolded x] Cons.prems(2)] obtain cam cams' taken' where
      s: "cams = cam # cams'" "cm_credentials cam = c" "cm_stream_name cam \<noteq> []"
         "cm_stream_name cam \<notin> set used"
         "assign_cameras u in_use host base (index + 1) taken' (cm_stream_name cam # used) cs = Inr cams'"
    by metis
  from Cons.IH [OF s(5) Cons.prems(2)] s(1-4) show ?case by (auto simp: x)
qed

text \<open>The address of each camera: the recorded one, or one on a port that was free and that no
  recorded or earlier address uses.\<close>

lemma assign_addresses:
  "assign_cameras u in_use host base index taken used (map (\<lambda>c. (c, f c)) cs) = Inr cams \<Longrightarrow>
     1 \<le> base \<Longrightarrow> plain_host host \<Longrightarrow>
     (\<forall>cam \<in> set cams. case f (cm_credentials cam) of Some a \<Rightarrow> cm_listen_addr cam = a
        | None \<Rightarrow> allocated in_use host taken (cm_listen_addr cam)) \<and>
     distinct (map (address_port \<circ> cm_listen_addr) (filter (\<lambda>cam. f (cm_credentials cam) = None) cams))"
proof (induction cs arbitrary: index taken used cams)
  case Nil
  then show ?case by simp
next
  case (Cons c cs)
  obtain cam cams' taken' where
      s: "cams = cam # cams'" "cm_credentials cam = c" "cm_stream_name cam \<noteq> []"
         "cm_stream_name cam \<notin> set used"
         "assign_cameras u in_use host base (index + 1) taken' (cm_stream_name cam # used)
            (map (\<lambda>c. (c, f c)) cs) = Inr cams'"
      and a: "case f c of Some a \<Rightarrow> cm_listen_addr cam = a \<and> taken' = taken
        | None \<Rightarrow> \<exists>p. cm_listen_addr cam = join_host_port host (itoa p) \<and> taken' = insert p taken
          \<and> 1 \<le> p \<and> p \<le> 65535 \<and> p \<notin> taken \<and> \<not> in_use host p"
    by (rule assign_step [OF Cons.prems(1) [unfolded list.map] Cons.prems(2)])
  note ih = Cons.IH [OF s(5) Cons.prems(2,3)]
  show ?case
  proof (cases "f c")
    case (Some a0)
    with a have t: "taken' = taken" "cm_listen_addr cam = a0" by simp_all
    from ih [unfolded t(1)] s(1,2) Some t(2) show ?thesis by simp
  next
    case None
    then obtain p where p: "cm_listen_addr cam = join_host_port host (itoa p)" "taken' = insert p taken"
        "1 \<le> p" "p \<le> 65535" "p \<notin> taken" "\<not> in_use host p" using a by auto
    have head: "allocated in_use host taken (cm_listen_addr cam)" "address_port (cm_listen_addr cam) = Some p"
      using p join_port(3) [OF Cons.prems(3) p(3,4)] by (auto simp: allocated_def)
    have tail: "allocated in_use host taken (cm_listen_addr x) \<and> address_port (cm_listen_addr x) \<noteq> Some p"
      if "x \<in> set cams'" "f (cm_credentials x) = None" for x
    proof -
      have "allocated in_use host (insert p taken) (cm_listen_addr x)" using ih that p(2) by fastforce
      then show ?thesis using allocated_insert Cons.prems(3) by blast
    qed
    then have "\<forall>x \<in> set cams'. case f (cm_credentials x) of Some a \<Rightarrow> cm_listen_addr x = a
        | None \<Rightarrow> allocated in_use host taken (cm_listen_addr x)"
      using ih by (auto split: option.splits)
    moreover have "Some p \<notin> set (map (address_port \<circ> cm_listen_addr)
        (filter (\<lambda>x. f (cm_credentials x) = None) cams'))"
      using tail by fastforce
    ultimately show ?thesis using ih head None s(1,2) by simp
  qed
qed

lemma zip_map_self: "zip xs (map f xs) = map (\<lambda>x. (x, f x)) xs"
  by (induction xs) auto

text \<open>What a registry that was built is made of.\<close>

lemma build_registry_cases:
  assumes "build_registry u opts = Inr r"
  obtains host port_text base where "split_host_port (bo_base_address opts) = Some (host, port_text)"
    "atoi port_text = Some base" "1 \<le> base" "base \<le> 65535"
    "assign_cameras u (case bo_port_in_use opts of None \<Rightarrow> (\<lambda>_ _. False) | Some f \<Rightarrow> f) host base 0
       (claimed_ports (map (\<lambda>c. recorded_address (bo_recorded opts) c host)
          (sort_key cr_udid (bo_credentials opts)))) []
       (map (\<lambda>c. (c, recorded_address (bo_recorded opts) c host)) (sort_key cr_udid (bo_credentials opts)))
     = Inr (rg_cameras r)"
    "rg_legacy_alias r = ''vm65''"
    "rg_legacy_target r = (case rg_cameras r of [] \<Rightarrow> [] | c # _ \<Rightarrow> cm_stream_name c)"
  using assms
  by (auto simp: build_registry_def Let_def bind_sum_Inr_iff zip_map_self split: option.splits if_splits)

text \<open>C17: a registry lists the cameras it was given in the order of their UDIDs, equal ones in the
  order they came, under names that are not empty and all different, however the device names
  collide; the legacy alias points at the first.\<close>

theorem registry_names_unique:
  assumes "build_registry u opts = Inr r"
  shows "map cm_credentials (rg_cameras r) = sort_key cr_udid (bo_credentials opts)
    \<and> distinct (map cm_stream_name (rg_cameras r)) \<and> [] \<notin> set (map cm_stream_name (rg_cameras r))
    \<and> rg_legacy_target r = (case rg_cameras r of [] \<Rightarrow> [] | c # _ \<Rightarrow> cm_stream_name c)"
proof -
  from build_registry_cases [OF assms] show ?thesis
  proof cases
    case (1 host port_text base)
    from assign_names [OF 1(5,3)] 1(7) show ?thesis by (simp add: comp_def)
  qed
qed

text \<open>C16: a camera with a usable recorded address keeps it, whatever the port probe says; every
  other camera gets an address on the base host with a port in 1..65535 that the probe calls
  free, that no recorded address uses and that no other new camera got.\<close>

theorem registry_ports:
  assumes "build_registry u opts = Inr r"
    and "split_host_port (bo_base_address opts) = Some (host, port_text)"
    and "kept = (\<lambda>cam. recorded_address (bo_recorded opts) (cm_credentials cam) host)"
  shows "(\<forall>cam \<in> set (rg_cameras r). case kept cam of
        Some a \<Rightarrow> cm_listen_addr cam = a
      | None \<Rightarrow> allocated (case bo_port_in_use opts of None \<Rightarrow> (\<lambda>_ _. False) | Some f \<Rightarrow> f) host
          (claimed_ports (map kept (rg_cameras r))) (cm_listen_addr cam))
    \<and> distinct (map (address_port \<circ> cm_listen_addr) (filter (\<lambda>cam. kept cam = None) (rg_cameras r)))"
proof -
  from build_registry_cases [OF assms(1)] obtain base where
      a: "assign_cameras u (case bo_port_in_use opts of None \<Rightarrow> (\<lambda>_ _. False) | Some f \<Rightarrow> f) host base 0
       (claimed_ports (map (\<lambda>c. recorded_address (bo_recorded opts) c host)
          (sort_key cr_udid (bo_credentials opts)))) []
       (map (\<lambda>c. (c, recorded_address (bo_recorded opts) c host)) (sort_key cr_udid (bo_credentials opts)))
     = Inr (rg_cameras r)" and b: "1 \<le> base"
  proof cases
    case (1 h pt base)
    then have "h = host" using assms(2) by simp
    with 1 show thesis using that by blast
  qed
  have "map kept (rg_cameras r)
      = map (\<lambda>c. recorded_address (bo_recorded opts) c host) (map cm_credentials (rg_cameras r))"
    by (simp add: assms(3))
  also have "map cm_credentials (rg_cameras r) = sort_key cr_udid (bo_credentials opts)"
    using conjunct1 [OF assign_names [OF a b]] by (simp add: comp_def)
  finally have m: "claimed_ports (map (\<lambda>c. recorded_address (bo_recorded opts) c host)
      (sort_key cr_udid (bo_credentials opts))) = claimed_ports (map kept (rg_cameras r))" by simp
  have p: "plain_host host" using split_host_port_plain [OF assms(2)] by simp
  from assign_addresses [OF a [unfolded m] b p] show ?thesis by (simp add: assms(3))
qed

subsection \<open>A rebuild moves nothing\<close>

text \<open>The second loop looks at the name and the UDID of a camera only.\<close>

definition same_device :: "credentials \<Rightarrow> camera \<Rightarrow> bool" where
  "same_device d cam \<longleftrightarrow> cr_udid d = cr_udid (cm_credentials cam) \<and> cr_name d = cr_name (cm_credentials cam)"

definition with_credentials :: "credentials list \<Rightarrow> camera list \<Rightarrow> camera list" where
  "with_credentials ds cams = map2 (\<lambda>d cam. cam\<lparr>cm_credentials := d\<rparr>) ds cams"

lemma with_credentials_simps [simp]:
  "with_credentials [] cams = []"
  "with_credentials (d # ds) (cam # cams) = cam\<lparr>cm_credentials := d\<rparr> # with_credentials ds cams"
  by (simp_all add: with_credentials_def)

lemma with_credentials_names:
  "length ds = length cams \<Longrightarrow> map cm_stream_name (with_credentials ds cams) = map cm_stream_name cams
    \<and> map cm_listen_addr (with_credentials ds cams) = map cm_listen_addr cams
    \<and> map cm_credentials (with_credentials ds cams) = ds"
  by (induction ds cams rule: list_induct2) simp_all

lemma with_credentials_same: "with_credentials (map cm_credentials cams) cams = cams"
  by (induction cams) simp_all

lemma assign_again:
  "assign_cameras u in_use host base index taken used xs = Inr cams \<Longrightarrow> list_all2 same_device ds cams \<Longrightarrow>
     assign_cameras u in_use' host base' index' taken' used
       (zip ds (map (Some \<circ> cm_listen_addr) cams)) = Inr (with_credentials ds cams)"
proof (induction xs arbitrary: index taken used cams index' taken' ds)
  case Nil
  then show ?case by simp
next
  case (Cons x xs)
  obtain c rec where x: "x = (c, rec)" by fastforce
  define source where "source = (if cr_name c = [] then ''camera-'' @ cr_udid c else cr_name c)"
  obtain name where n: "unique_name (stream_name u source) used = Some name"
    using unique_name_total by blast
  from Cons.prems(1) obtain address taken1 cams' where
      r: "assign_cameras u in_use host base (index + 1) taken1 (name # used) xs = Inr cams'"
    and c: "cams = \<lparr>cm_credentials = c, cm_stream_name = name, cm_listen_addr = address\<rparr> # cams'"
    by (auto simp: x source_def [symmetric] n Let_def bind_sum_Inr_iff split: option.splits)
  from Cons.prems(2) c obtain d ds' where d0: "ds = d # ds'"
      "same_device d \<lparr>cm_credentials = c, cm_stream_name = name, cm_listen_addr = address\<rparr>"
      and rest: "list_all2 same_device ds' cams'"
    by (cases ds) auto
  then have d: "ds = d # ds'" "cr_udid d = cr_udid c" "cr_name d = cr_name c" by (simp_all add: same_device_def)
  then have source: "(if cr_name d = [] then ''camera-'' @ cr_udid d else cr_name d) = source"
    by (simp add: source_def)
  from Cons.IH [OF r rest, of "index' + 1" taken'] show ?case
    by (simp add: c d0(1) source n)
qed

lemma recorded_address_ok:
  "recorded_address recorded c host = Some a \<Longrightarrow>
     \<exists>pt p. split_host_port a = Some (host, pt) \<and> atoi pt = Some p \<and> 1 \<le> p \<and> p \<le> 65535"
  by (auto simp: recorded_address_def split: if_splits option.splits)

lemma built_credentials:
  "build_registry u opts = Inr r \<Longrightarrow> map cm_credentials (rg_cameras r) = sort_key cr_udid (bo_credentials opts)"
  by (erule build_registry_cases) (use assign_names in \<open>force simp: comp_def\<close>)

text \<open>Every address of a registry is on the base host, with a port a recording accepts.\<close>

lemma built_addresses:
  assumes "build_registry u opts = Inr r" and "split_host_port (bo_base_address opts) = Some (host, port_text)"
    and "cam \<in> set (rg_cameras r)"
  obtains pt p where "split_host_port (cm_listen_addr cam) = Some (host, pt)" "atoi pt = Some p" "1 \<le> p" "p \<le> 65535"
proof -
  from assms(1) show thesis
  proof (cases rule: build_registry_cases)
    case (1 h t base)
    then have h: "h = host" using assms(2) by simp
    have p: "plain_host host" using split_host_port_plain [OF assms(2)] by simp
    note a = conjunct1 [OF assign_addresses [OF 1(5) [unfolded h] 1(3) p]]
    show thesis
    proof (cases "recorded_address (bo_recorded opts) (cm_credentials cam) host")
      case None
      then show thesis using a assms(3) join_port(1,2) [OF p] that by (force simp: allocated_def)
    next
      case (Some x)
      then have "cm_listen_addr cam = x" using a assms(3) by force
      then show thesis using recorded_address_ok [OF Some] that by blast
    qed
  qed
qed

text \<open>Building again: with the same cameras, by UDID and name, every address recorded, and a base
  address on the same host, the names and addresses are those of the first registry, whatever the
  rest of the credentials, the base port and the probe are.\<close>

lemma build_again:
  assumes "build_registry u opts = Inr r" and "split_host_port (bo_base_address opts) = Some (host, pt0)"
    and "split_host_port base = Some (host, pt)" and "atoi pt = Some p" and "1 \<le> p" and "p \<le> 65535"
    and "list_all2 same_device (sort_key cr_udid ds) (rg_cameras r)"
    and "\<And>cam. cam \<in> set (rg_cameras r) \<Longrightarrow> cr_udid (cm_credentials cam) \<noteq> []
      \<and> map_of recorded (cr_udid (cm_credentials cam)) = Some (cm_listen_addr cam)"
  shows "build_registry u \<lparr>bo_base_address = base, bo_credentials = ds, bo_recorded = recorded, bo_port_in_use = probe\<rparr>
    = Inr (r\<lparr>rg_cameras := with_credentials (sort_key cr_udid ds) (rg_cameras r)\<rparr>)"
  using assms(1)
proof (rule build_registry_cases)
  fix h port_text b
  assume a: "assign_cameras u (case bo_port_in_use opts of None \<Rightarrow> (\<lambda>_ _. False) | Some f \<Rightarrow> f) h b 0
       (claimed_ports (map (\<lambda>c. recorded_address (bo_recorded opts) c h)
          (sort_key cr_udid (bo_credentials opts)))) []
       (map (\<lambda>c. (c, recorded_address (bo_recorded opts) c h)) (sort_key cr_udid (bo_credentials opts)))
     = Inr (rg_cameras r)"
    and s: "split_host_port (bo_base_address opts) = Some (h, port_text)"
    and l: "rg_legacy_alias r = ''vm65''"
      "rg_legacy_target r = (case rg_cameras r of [] \<Rightarrow> [] | c # _ \<Rightarrow> cm_stream_name c)"
  let ?cams = "rg_cameras r" let ?ds = "sort_key cr_udid ds"
  have h: "h = host" using s assms(2) by simp
  have "recorded_address recorded d host = Some (cm_listen_addr cam)"
    if "same_device d cam" "cam \<in> set ?cams" for d cam
  proof -
    note built = built_addresses [OF assms(1,2) that(2)]
    obtain pt p where "split_host_port (cm_listen_addr cam) = Some (host, pt)" "atoi pt = Some p" "1 \<le> p" "p \<le> 65535"
      by (rule built)
    with assms(8) [OF that(2)] that(1) show ?thesis
      by (auto simp: recorded_address_def same_device_def)
  qed
  with assms(7) have "map (\<lambda>d. recorded_address recorded d host) ?ds = map (Some \<circ> cm_listen_addr) ?cams"
    by (auto simp: list_all2_conv_all_nth intro!: nth_equalityI)
  moreover have "(case with_credentials ?ds ?cams of [] \<Rightarrow> [] | c # _ \<Rightarrow> cm_stream_name c)
      = (case ?cams of [] \<Rightarrow> [] | c # _ \<Rightarrow> cm_stream_name c)"
    using assms(7) by (cases ?cams; cases ?ds) auto
  ultimately show ?thesis
    using assms(3-6) l assign_again [OF a [unfolded h] assms(7)]
    by (simp add: build_registry_def Let_def)
qed

text \<open>Building the registry again with the addresses it recorded gives the same registry,
  whatever ports are busy by then: a credential refresh moves no camera and renames none.\<close>

theorem registry_rebuild:
  assumes "build_registry u opts = Inr r"
    and "distinct (map cr_udid (bo_credentials opts))" and "[] \<notin> set (map cr_udid (bo_credentials opts))"
  shows "build_registry u (opts\<lparr>bo_recorded := registry_addresses r, bo_port_in_use := probe\<rparr>) = Inr r"
proof (rule build_registry_cases [OF assms(1)])
  fix host port_text base
  assume s: "split_host_port (bo_base_address opts) = Some (host, port_text)"
    and b: "atoi port_text = Some base" "1 \<le> base" "base \<le> 65535"
  let ?cams = "rg_cameras r" let ?cs = "sort_key cr_udid (bo_credentials opts)"
  note ord = built_credentials [OF assms(1)]
  have ids: "map (cr_udid \<circ> cm_credentials) ?cams = map cr_udid ?cs" unfolding ord [symmetric] by simp
  then have d: "distinct (map (cr_udid \<circ> cm_credentials) ?cams)"
      "set (map (cr_udid \<circ> cm_credentials) ?cams) = set (map cr_udid (bo_credentials opts))"
    using assms(2) by (simp_all only: distinct_map distinct_sort set_sort set_map)
  then have ne: "cr_udid (cm_credentials cam) \<noteq> []" if "cam \<in> set ?cams" for cam
    using assms(3) that by force
  have "map_of (registry_addresses r) (cr_udid (cm_credentials cam)) = Some (cm_listen_addr cam)"
    if c: "cam \<in> set ?cams" for cam
  proof -
    have f: "filter (\<lambda>c. cr_udid (cm_credentials c) \<noteq> []) ?cams = ?cams" using ne by simp
    have "distinct (map fst (registry_addresses r))"
      using d(1) by (simp add: registry_addresses_def f rev_map [symmetric] comp_def)
    moreover have "(cr_udid (cm_credentials cam), cm_listen_addr cam) \<in> set (registry_addresses r)"
      using c by (auto simp: registry_addresses_def f)
    ultimately show ?thesis by (simp only: map_of_eq_Some_iff)
  qed
  moreover have "list_all2 same_device ?cs ?cams"
    unfolding ord [symmetric] by (simp add: list_all2_conv_all_nth same_device_def)
  ultimately have again: "build_registry u \<lparr>bo_base_address = bo_base_address opts, bo_credentials = bo_credentials opts,
      bo_recorded = registry_addresses r, bo_port_in_use = probe\<rparr> = Inr (r\<lparr>rg_cameras := with_credentials ?cs ?cams\<rparr>)"
    using ne by (intro build_again [OF assms(1) s s b]) blast+
  have opts: "opts\<lparr>bo_recorded := registry_addresses r, bo_port_in_use := probe\<rparr>
    = \<lparr>bo_base_address = bo_base_address opts, bo_credentials = bo_credentials opts,
      bo_recorded = registry_addresses r, bo_port_in_use = probe\<rparr>" by simp
  have "r\<lparr>rg_cameras := with_credentials ?cs ?cams\<rparr> = r" by (simp add: ord [symmetric] with_credentials_same)
  with again show ?thesis unfolding opts by simp
qed

definition sample_unicode :: unicode where
  "sample_unicode = \<lparr>un_lower = (\<lambda>r. r), un_alnum = (\<lambda>_. False)\<rparr>"

definition sample_options :: build_options where
  "sample_options = \<lparr>bo_base_address = ''127.0.0.1:8554'',
     bo_credentials = [sample_credentials\<lparr>cr_udid := ''U2''\<rparr>, sample_credentials],
     bo_recorded = [(''U2'', ''127.0.0.1:9000'')], bo_port_in_use = Some (\<lambda>h p. p = 8554)\<rparr>"

definition sample_registry :: registry where
  "sample_registry =
     \<lparr>rg_cameras = [\<lparr>cm_credentials = sample_credentials, cm_stream_name = ''nursery'',
                      cm_listen_addr = ''127.0.0.1:8555''\<rparr>,
                    \<lparr>cm_credentials = sample_credentials\<lparr>cr_udid := ''U2''\<rparr>,
                      cm_stream_name = ''nursery-2'', cm_listen_addr = ''127.0.0.1:9000''\<rparr>],
      rg_legacy_alias = ''vm65'', rg_legacy_target = ''nursery''\<rparr>"

lemma sample_build: "build_registry sample_unicode sample_options = Inr sample_registry"
  by code_simp

theorem registry_names_unique_witness:
  "distinct (map cm_stream_name (rg_cameras sample_registry)) \<and> rg_legacy_target sample_registry = ''nursery''"
  using registry_names_unique [OF sample_build] by (simp add: sample_registry_def)

theorem registry_ports_witness:
  "distinct (map (address_port \<circ> cm_listen_addr)
     (filter (\<lambda>cam. recorded_address (bo_recorded sample_options) (cm_credentials cam) ''127.0.0.1'' = None)
       (rg_cameras sample_registry)))"
proof -
  have "split_host_port (bo_base_address sample_options) = Some (''127.0.0.1'', ''8554'')" by code_simp
  from registry_ports [OF sample_build this refl] show ?thesis by simp
qed

theorem registry_rebuild_witness:
  "build_registry sample_unicode (sample_options\<lparr>bo_recorded := registry_addresses sample_registry,
     bo_port_in_use := Some (\<lambda>h p. True)\<rparr>) = Inr sample_registry"
proof -
  have "distinct (map cr_udid (bo_credentials sample_options))"
    "[] \<notin> set (map cr_udid (bo_credentials sample_options))" by code_simp+
  from registry_rebuild [OF sample_build this] show ?thesis .
qed

end
