(* ===== verification/Health.thy ===== *)
theory Health
  imports Prelude
begin

text \<open>
  The health state and its endpoints (internal/health/state.go, internal/health/handler.go).
  The state is a record of what the runtime reported last; readiness, liveness and the status
  codes of the three endpoints are computed from it.
\<close>

datatype error_category =
    ErrorNone
  | ErrorConfiguration
  | ErrorAuthorization
  | ErrorNetwork
  | ErrorBroker
  | ErrorMedia

fun category_text :: "error_category \<Rightarrow> string" where
  "category_text ErrorNone = []"
| "category_text ErrorConfiguration = ''configuration''"
| "category_text ErrorAuthorization = ''authorization''"
| "category_text ErrorNetwork = ''network''"
| "category_text ErrorBroker = ''mqtt''"
| "category_text ErrorMedia = ''media''"

record snapshot =
  sn_status :: string
  sn_ready :: bool
  sn_uptime :: int
  sn_credentials_ready :: bool
  sn_bridges_ready :: int
  sn_bridges_total :: int
  sn_go2rtc_required :: bool
  sn_go2rtc_ready :: bool
  sn_mqtt_enabled :: bool
  sn_mqtt_connected :: bool
  sn_reconnects :: int
  sn_active_sessions :: int
  sn_last_error :: error_category

record health_state =
  hs_started :: int
  hs_live :: bool
  hs_snapshot :: snapshot

definition blank_snapshot :: snapshot where
  "blank_snapshot = \<lparr>sn_status = [], sn_ready = False, sn_uptime = 0, sn_credentials_ready = False,
     sn_bridges_ready = 0, sn_bridges_total = 0, sn_go2rtc_required = False, sn_go2rtc_ready = False,
     sn_mqtt_enabled = False, sn_mqtt_connected = False, sn_reconnects = 0, sn_active_sessions = 0,
     sn_last_error = ErrorNone\<rparr>"

definition new_state :: "int \<Rightarrow> health_state" where
  "new_state started = \<lparr>hs_started = started, hs_live = False, hs_snapshot = blank_snapshot\<rparr>"

definition set_live :: "bool \<Rightarrow> health_state \<Rightarrow> health_state" where
  "set_live v s = s\<lparr>hs_live := v\<rparr>"

definition on_snapshot :: "(snapshot \<Rightarrow> snapshot) \<Rightarrow> health_state \<Rightarrow> health_state" where
  "on_snapshot f s = s\<lparr>hs_snapshot := f (hs_snapshot s)\<rparr>"

definition set_credentials_ready :: "bool \<Rightarrow> health_state \<Rightarrow> health_state" where
  "set_credentials_ready v = on_snapshot (\<lambda>n. n\<lparr>sn_credentials_ready := v\<rparr>)"

definition set_bridges :: "int \<Rightarrow> int \<Rightarrow> health_state \<Rightarrow> health_state" where
  "set_bridges ready count = on_snapshot (\<lambda>n. n\<lparr>sn_bridges_ready := ready, sn_bridges_total := count\<rparr>)"

definition set_go2rtc :: "bool \<Rightarrow> bool \<Rightarrow> health_state \<Rightarrow> health_state" where
  "set_go2rtc required ready =
     on_snapshot (\<lambda>n. n\<lparr>sn_go2rtc_required := required, sn_go2rtc_ready := ready\<rparr>)"

definition set_mqtt :: "bool \<Rightarrow> bool \<Rightarrow> health_state \<Rightarrow> health_state" where
  "set_mqtt enabled connected =
     on_snapshot (\<lambda>n. n\<lparr>sn_mqtt_enabled := enabled, sn_mqtt_connected := connected\<rparr>)"

definition set_counters :: "int \<Rightarrow> int \<Rightarrow> health_state \<Rightarrow> health_state" where
  "set_counters reconnects active =
     on_snapshot (\<lambda>n. n\<lparr>sn_reconnects := reconnects, sn_active_sessions := active\<rparr>)"

definition set_last_error :: "error_category \<Rightarrow> health_state \<Rightarrow> health_state" where
  "set_last_error c = on_snapshot (\<lambda>n. n\<lparr>sn_last_error := c\<rparr>)"

definition healthy :: "health_state \<Rightarrow> bool" where
  "healthy s \<longleftrightarrow>
     (if \<not> hs_live s then False
      else sn_bridges_total (hs_snapshot s) = 0 \<or> 0 < sn_bridges_ready (hs_snapshot s))"

text \<open>Times are nanoseconds; the uptime is whole seconds, never negative.\<close>

definition take_snapshot :: "int \<Rightarrow> health_state \<Rightarrow> snapshot" where
  "take_snapshot now s =
     (let n = hs_snapshot s;
          ready = (hs_live s \<and> sn_credentials_ready n \<and> 0 < sn_bridges_total n
                   \<and> sn_bridges_ready n = sn_bridges_total n
                   \<and> (\<not> sn_go2rtc_required n \<or> sn_go2rtc_ready n));
          uptime = (if now < hs_started s then 0 else (now - hs_started s) div 1000000000)
      in n\<lparr>sn_ready := ready, sn_status := (if hs_live s then ''ok'' else ''starting''),
           sn_uptime := uptime\<rparr>)"

datatype health_body =
    HealthzBody string int int
  | SnapshotBody snapshot

record health_response =
  hr_code :: nat
  hr_body :: health_body

definition write_json :: "health_body \<Rightarrow> bool \<Rightarrow> health_response" where
  "write_json body ok = \<lparr>hr_code = (if ok then 200 else 503), hr_body = body\<rparr>"

definition handle_health :: "int \<Rightarrow> health_state \<Rightarrow> string \<Rightarrow> health_response option" where
  "handle_health now s path =
     (let n = take_snapshot now s in
      if path = ''/healthz'' then
        Some (write_json (HealthzBody (if healthy s then ''ok'' else ''unhealthy'')
                (sn_bridges_ready n) (sn_bridges_total n)) (healthy s))
      else if path = ''/readyz'' then Some (write_json (SnapshotBody n) (sn_ready n))
      else if path = ''/status'' then Some (write_json (SnapshotBody n) True)
      else None)"

lemma set_bridges_snapshot [simp, frame_simps]:
  "hs_live (set_bridges r t s) = hs_live s" "hs_started (set_bridges r t s) = hs_started s"
  "sn_bridges_ready (hs_snapshot (set_bridges r t s)) = r"
  "sn_bridges_total (hs_snapshot (set_bridges r t s)) = t"
  by (simp_all add: set_bridges_def on_snapshot_def)

text \<open>The readiness probe answers 200 only when the liveness probe does, and only when every
  bridge of a non-empty registry is serving; the liveness probe answers 503 for a live process
  exactly when it has bridges and none serves.\<close>

theorem health_probes_agree:
  shows "(hr_code (the (handle_health now s ''/readyz'')) = 200 \<longrightarrow>
        hr_code (the (handle_health now s ''/healthz'')) = 200
        \<and> 0 < sn_bridges_total (hs_snapshot s) \<and> sn_bridges_ready (hs_snapshot s) = sn_bridges_total (hs_snapshot s))
    \<and> (hs_live s \<longrightarrow> (hr_code (the (handle_health now s ''/healthz'')) = 503 \<longleftrightarrow>
        sn_bridges_total (hs_snapshot s) \<noteq> 0 \<and> sn_bridges_ready (hs_snapshot s) \<le> 0))"
  by (auto simp: handle_health_def write_json_def take_snapshot_def healthy_def Let_def)

theorem health_probes_agree_witness:
  "let s = set_bridges 2 2 (set_credentials_ready True (set_live True (new_state 0)))
   in hr_code (the (handle_health 5 s ''/readyz'')) = 200
      \<and> hr_code (the (handle_health 5 s ''/healthz'')) = 200"
proof -
  let ?s = "set_bridges 2 2 (set_credentials_ready True (set_live True (new_state 0)))"
  have "hr_code (the (handle_health 5 ?s ''/readyz'')) = 200" by code_simp
  with health_probes_agree [of 5 ?s] show ?thesis unfolding Let_def by blast
qed

end
