(* ===== verification/Runtime.thy ===== *)
theory Runtime
  imports Registry Health "HOL-Library.AList"
begin

text \<open>
  The supervisor of all camera bridges (internal/app/app.go): the reload that brings the running
  bridges in line with a new registry, the restart loop of one camera with its backoff, the
  counters the health state shows, and the views the Web UI reads.

  A supervisor is the camera it runs, a number that tells it from every other one (the pointer
  of the source), and its server when it has one: the sessions and the active count \<open>Stats\<close>
  reports.  Go iterates over its maps in an arbitrary order; the model goes through them in the
  order of their association lists, and no result but the numbers of new supervisors depends on it.
\<close>

subsection \<open>State\<close>

definition default_restart_backoff :: int where
  "default_restart_backoff = second"

definition default_restart_backoff_max :: int where
  "default_restart_backoff_max = 60 * second"

definition default_stats_interval :: int where
  "default_stats_interval = 2 * second"

definition stable_run :: int where
  "stable_run = 60 * second"

record runtime_config =
  rc_restart_backoff :: int
  rc_restart_backoff_max :: int
  rc_stats_interval :: int

definition fill_config :: "runtime_config \<Rightarrow> runtime_config" where
  "fill_config c =
     (let base = (if rc_restart_backoff c \<le> 0 then default_restart_backoff else rc_restart_backoff c);
          m1 = (if rc_restart_backoff_max c < base then default_restart_backoff_max
                else rc_restart_backoff_max c);
          m2 = (if m1 < base then base else m1);
          interval = (if rc_stats_interval c \<le> 0 then default_stats_interval else rc_stats_interval c)
      in \<lparr>rc_restart_backoff = base, rc_restart_backoff_max = m2, rc_stats_interval = interval\<rparr>)"

record supervisor =
  sv_id :: nat
  sv_camera :: camera
  sv_server :: "(int \<times> int) option"

record runtime =
  rt_cfg :: runtime_config
  rt_registry :: registry
  rt_cameras :: "(string \<times> supervisor) list"
  rt_next :: nat
  rt_running :: bool
  rt_stopping :: bool
  rt_serving :: int
  rt_total :: int
  rt_restarts :: int
  rt_health :: health_state

definition camera_key :: "camera \<Rightarrow> string" where
  "camera_key c =
     (if cr_udid (cm_credentials c) \<noteq> [] then cr_udid (cm_credentials c) else cm_stream_name c)"

definition same_camera :: "camera \<Rightarrow> camera \<Rightarrow> bool" where
  "same_camera c n \<longleftrightarrow> cm_credentials c = cm_credentials n \<and> cm_listen_addr c = cm_listen_addr n
     \<and> cm_stream_name c = cm_stream_name n"

lemma same_camera_iff: "same_camera c n \<longleftrightarrow> c = n"
  by (cases c; cases n) (auto simp: same_camera_def)

subsection \<open>Reload\<close>

datatype reload_act = StopBridge supervisor | StartBridge camera | StartFailed camera string

definition wanted_cameras :: "camera list \<Rightarrow> (string \<times> camera) list" where
  "wanted_cameras cams = fold (\<lambda>c. AList.update (camera_key c) c) cams []"

type_synonym camera_table = "(string \<times> supervisor) list \<times> nat"

definition keeps_bridge :: "(string \<times> camera) list \<Rightarrow> string \<times> supervisor \<Rightarrow> bool" where
  "keeps_bridge wanted e =
     (case map_of wanted (fst e) of None \<Rightarrow> False | Some c \<Rightarrow> same_camera (sv_camera (snd e)) c)"

text \<open>\<open>startServer\<close> is the parameter \<open>start\<close>: an error, or the camera's bridge is listening.\<close>

definition add_camera :: "camera \<Rightarrow> camera_table \<Rightarrow> camera_table" where
  "add_camera c t =
     (AList.update (camera_key c) \<lparr>sv_id = snd t, sv_camera = c, sv_server = Some (0, 0)\<rparr> (fst t),
      snd t + 1)"

fun start_cameras ::
  "(camera \<Rightarrow> string option) \<Rightarrow> camera list \<Rightarrow> camera_table \<Rightarrow> camera_table \<times> reload_act list \<times> string list" where
  "start_cameras start [] t = (t, [], [])"
| "start_cameras start (c # cs) t =
     (case start c of
        Some err \<Rightarrow>
          (let (t', acts, errs) = start_cameras start cs t in (t', StartFailed c err # acts, err # errs))
      | None \<Rightarrow>
          (let (t', acts, errs) = start_cameras start cs (add_camera c t)
           in (t', StartBridge c # acts, errs)))"

definition reconcile_cameras ::
  "(camera \<Rightarrow> string option) \<Rightarrow> camera_table \<Rightarrow> camera list \<Rightarrow> camera_table \<times> reload_act list \<times> string list" where
  "reconcile_cameras start t cams =
     (let wanted = wanted_cameras cams;
          stopped = filter (\<lambda>e. \<not> keeps_bridge wanted e) (fst t);
          kept = filter (keeps_bridge wanted) (fst t);
          todo = filter (\<lambda>(k, c). map_of kept k = None) wanted;
          (t', acts, errs) = start_cameras start (map snd todo) (kept, snd t)
      in (t', map (StopBridge \<circ> snd) stopped @ acts, errs))"

datatype reload_error = EmptyRegistry | NotRunning | StartErrors "string list"

definition publish_bridges :: "runtime \<Rightarrow> runtime" where
  "publish_bridges rt =
     rt\<lparr>rt_health := set_bridges (if rt_serving rt < 0 then 0 else rt_serving rt) (rt_total rt) (rt_health rt)\<rparr>"

definition reload ::
  "(camera \<Rightarrow> string option) \<Rightarrow> registry \<Rightarrow> runtime \<Rightarrow> runtime \<times> reload_act list \<times> reload_error option" where
  "reload start reg rt =
     (if rg_cameras reg = [] then (rt, [], Some EmptyRegistry)
      else if rt_stopping rt \<or> \<not> rt_running rt then (rt, [], Some NotRunning)
      else (let ((table, next), acts, errs) = reconcile_cameras start (rt_cameras rt, rt_next rt) (rg_cameras reg)
            in (publish_bridges (rt\<lparr>rt_cameras := table, rt_next := next,
                  rt_total := int (length table), rt_registry := reg\<rparr>),
                acts, if errs = [] then None else Some (StartErrors errs))))"

subsection \<open>Views\<close>

record camera_state =
  ca_id :: string
  ca_name :: string
  ca_model :: string
  ca_stream :: string
  ca_serving :: bool
  ca_active :: int

definition sup_stats :: "supervisor \<Rightarrow> int \<times> int" where
  "sup_stats s = (case sv_server s of None \<Rightarrow> (0, 0) | Some st \<Rightarrow> st)"

definition sup_serving :: "supervisor \<Rightarrow> bool" where
  "sup_serving s \<longleftrightarrow> sv_server s \<noteq> None"

definition runtime_cameras :: "runtime \<Rightarrow> camera_state list" where
  "runtime_cameras rt =
     map (\<lambda>(k, s). let c = sv_camera s in
        \<lparr>ca_id = camera_key c, ca_name = cr_name (cm_credentials c), ca_model = cr_model (cm_credentials c),
         ca_stream = cm_stream_name c, ca_serving = sup_serving s, ca_active = snd (sup_stats s)\<rparr>)
       (rt_cameras rt)"

definition camera_availability :: "runtime \<Rightarrow> (string \<times> bool) list" where
  "camera_availability rt =
     map (\<lambda>(k, s). (camera_key (sv_camera s), sup_serving s)) (rt_cameras rt)"

text \<open>Restarting a camera closes its server; the restart loop does the rest.\<close>

definition restart_camera :: "string \<Rightarrow> runtime \<Rightarrow> nat option" where
  "restart_camera key rt = map_option sv_id (map_of (rt_cameras rt) key)"

definition publish_counters :: "runtime \<Rightarrow> runtime" where
  "publish_counters rt =
     rt\<lparr>rt_health := set_counters (rt_restarts rt)
          (sum_list (map (\<lambda>(k, s). snd (sup_stats s)) (rt_cameras rt))) (rt_health rt)\<rparr>"

text \<open>\<open>Run\<close>: the cameras of the registry in order; the first that cannot be started ends the run
  after everything started was stopped.\<close>

fun start_all ::
  "(camera \<Rightarrow> string option) \<Rightarrow> camera list \<Rightarrow> camera_table \<Rightarrow> (string \<times> supervisor list) + camera_table" where
  "start_all start [] t = Inr t"
| "start_all start (c # cs) t =
     (case start c of
        Some err \<Rightarrow> Inl (err, map snd (fst t))
      | None \<Rightarrow> start_all start cs (add_camera c t))"

text \<open>\<open>startServer\<close>: making the bridge and binding its port; a bridge that could not bind is closed
  (\<open>True\<close>).  The parameter \<open>start\<close> of the reload is its result.\<close>

definition camera_bridge_config :: "camera \<Rightarrow> bridge_config" where
  "camera_bridge_config c =
     \<lparr>bc_listen_addr = cm_listen_addr c, bc_credentials = cm_credentials c, bc_dial_timeout = 0,
      bc_dial_retries = 0, bc_dial_backoff = 0, bc_dial_budget = 0, bc_idle_timeout = 0, bc_keep_alive = 0,
      bc_max_sessions = 0, bc_refusal_cooldown = 0\<rparr>"

definition start_server ::
  "(bridge_config \<Rightarrow> string option) \<Rightarrow> (string \<Rightarrow> string option) \<Rightarrow> camera \<Rightarrow> string option \<times> bool" where
  "start_server create listen c =
     (case create (camera_bridge_config c) of
        Some e \<Rightarrow> (Some e, False)
      | None \<Rightarrow> (case listen (cm_listen_addr c) of Some e \<Rightarrow> (Some e, True) | None \<Rightarrow> (None, False)))"

text \<open>\<open>remove\<close> deletes a supervisor only when it is still the one under its key.\<close>

definition forget_supervisor :: "string \<Rightarrow> supervisor \<Rightarrow> runtime \<Rightarrow> runtime" where
  "forget_supervisor key s rt =
     (let table = (case map_of (rt_cameras rt) key of
          None \<Rightarrow> rt_cameras rt
        | Some t \<Rightarrow> if sv_id t = sv_id s then AList.delete key (rt_cameras rt) else rt_cameras rt)
      in rt\<lparr>rt_cameras := table, rt_total := int (length table)\<rparr>)"

text \<open>\<open>stopAll\<close> waits until every supervisor has left its loop: each has closed its server and dropped
  it, and none is inside \<open>Serve\<close>, so the serving counter, which counts exactly those, is zero.  The
  supervisors stay in the table.\<close>

definition stop_all :: "runtime \<Rightarrow> runtime \<times> reload_act list" where
  "stop_all rt =
     (rt\<lparr>rt_stopping := True, rt_serving := 0,
         rt_cameras := map (\<lambda>(k, s). (k, s\<lparr>sv_server := None\<rparr>)) (rt_cameras rt)\<rparr>,
      map (StopBridge \<circ> snd) (rt_cameras rt))"

definition run_begin ::
  "(camera \<Rightarrow> string option) \<Rightarrow> runtime \<Rightarrow> runtime \<times> reload_act list \<times> string option" where
  "run_begin start rt =
     (let cams = rg_cameras (rt_registry rt); rt = rt\<lparr>rt_running := True\<rparr> in
      case start_all start cams (rt_cameras rt, rt_next rt) of
        Inl (err, started) \<Rightarrow>
          (let (rt', acts) = stop_all (rt\<lparr>rt_cameras := map (\<lambda>s. (camera_key (sv_camera s), s)) started,
                 rt_total := int (length started)\<rparr>)
           in (rt', acts, Some err))
      | Inr (table, k) \<Rightarrow>
          (publish_bridges (rt\<lparr>rt_cameras := table, rt_next := k, rt_total := int (length table)\<rparr>),
           map StartBridge cams, None))"

definition run_end :: "runtime \<Rightarrow> runtime \<times> reload_act list" where
  "run_end rt = (let (rt', acts) = stop_all rt in (publish_counters (publish_bridges rt'), acts))"

definition reconnects :: "runtime \<Rightarrow> int" where
  "reconnects rt = rt_restarts rt"

text \<open>\<open>sleepContext\<close>: whether the wait was over before the context was cancelled; a tie
  goes to the timer.\<close>

definition sleep_context :: "int \<Rightarrow> int \<Rightarrow> int option \<Rightarrow> bool" where
  "sleep_context now d cancelled_at =
     (case cancelled_at of None \<Rightarrow> True | Some t \<Rightarrow> now + max d 0 \<le> t)"

subsection \<open>Backoff\<close>

definition next_backoff :: "int \<Rightarrow> int \<Rightarrow> int" where
  "next_backoff current maximum =
     (let n = wrap64 (current * 2) in if maximum < n then maximum else n)"

lemma next_backoff_bounds:
  assumes "0 < lo" and "lo \<le> b" and "b \<le> m" and "m < 2 ^ 62"
  shows "lo \<le> next_backoff b m \<and> next_backoff b m \<le> m \<and> (b < m \<longrightarrow> b < next_backoff b m)"
proof -
  have "wrap64 (b * 2) = b * 2" using assms by (intro wrap64_id) auto
  then show ?thesis using assms by (auto simp: next_backoff_def Let_def)
qed

lemma fill_config_ok:
  assumes "fill_config c = d" and "rc_restart_backoff_max c < 2 ^ 62" and "rc_restart_backoff c < 2 ^ 62"
  shows "0 < rc_restart_backoff d \<and> rc_restart_backoff d \<le> rc_restart_backoff_max d
    \<and> rc_restart_backoff_max d < 2 ^ 62 \<and> 0 < rc_stats_interval d"
  unfolding assms(1) [symmetric] using assms(2,3)
  by (simp add: fill_config_def Let_def default_restart_backoff_def default_restart_backoff_max_def
      default_stats_interval_def second_def)

subsection \<open>What a reload leaves running\<close>

definition table_ok :: "camera_table \<Rightarrow> bool" where
  "table_ok t \<longleftrightarrow> distinct (map fst (fst t)) \<and>
     (\<forall>k s. map_of (fst t) k = Some s \<longrightarrow> k = camera_key (sv_camera s) \<and> sv_id s < snd t)"

lemma distinct_filter_keys: "distinct (map fst al) \<Longrightarrow> distinct (map fst (filter P al))"
  by (induction al) auto

lemma wanted_cameras_fold:
  "distinct (map fst al) \<Longrightarrow> (\<forall>k c. map_of al k = Some c \<longrightarrow> k = camera_key c) \<Longrightarrow>
     al' = fold (\<lambda>c. AList.update (camera_key c) c) cams al \<Longrightarrow>
     distinct (map fst al') \<and> (\<forall>k c. map_of al' k = Some c \<longrightarrow> k = camera_key c
        \<and> (c \<in> set cams \<or> map_of al k = Some c)) \<and> (\<forall>c \<in> set cams. map_of al' (camera_key c) \<noteq> None)
     \<and> (\<forall>k. map_of al k \<noteq> None \<longrightarrow> map_of al' k \<noteq> None)"
proof (induction cams arbitrary: al)
  case Nil
  then show ?case by auto
next
  case (Cons c cams)
  let ?al = "AList.update (camera_key c) c al"
  have d: "distinct (map fst ?al)" using Cons.prems(1) by (simp add: AList.distinct_update)
  have m: "map_of ?al k = (if k = camera_key c then Some c else map_of al k)" for k
    by (simp add: AList.update_conv')
  have k: "\<forall>k c'. map_of ?al k = Some c' \<longrightarrow> k = camera_key c'" using Cons.prems(2) by (auto simp: m)
  have f: "al' = fold (\<lambda>c. AList.update (camera_key c) c) cams ?al" using Cons.prems(3) by simp
  note ih = Cons.IH [OF d k f]
  have "\<forall>k c'. map_of al' k = Some c' \<longrightarrow> k = camera_key c' \<and> (c' \<in> set (c # cams) \<or> map_of al k = Some c')"
  proof (intro allI impI)
    fix k c' assume "map_of al' k = Some c'"
    with ih have "k = camera_key c' \<and> (c' \<in> set cams \<or> map_of ?al k = Some c')" by blast
    then show "k = camera_key c' \<and> (c' \<in> set (c # cams) \<or> map_of al k = Some c')"
      by (auto simp: m split: if_splits)
  qed
  moreover have "\<forall>x \<in> set (c # cams). map_of al' (camera_key x) \<noteq> None"
    using ih m by (metis option.distinct(1) set_ConsD)
  moreover have "\<forall>k. map_of al k \<noteq> None \<longrightarrow> map_of al' k \<noteq> None" using ih m by (metis option.distinct(1))
  ultimately show ?case using ih by blast
qed

lemma wanted_cameras_ok:
  "distinct (map fst (wanted_cameras cams))"
  "map_of (wanted_cameras cams) k = Some c \<Longrightarrow> k = camera_key c \<and> c \<in> set cams"
  "c \<in> set cams \<Longrightarrow> map_of (wanted_cameras cams) (camera_key c) \<noteq> None"
proof -
  have e: "distinct (map fst ([] :: (string \<times> camera) list))"
    "\<forall>k c. map_of ([] :: (string \<times> camera) list) k = Some c \<longrightarrow> k = camera_key c"
    "map_of ([] :: (string \<times> camera) list) k \<noteq> Some c" for k c by simp_all
  note w = wanted_cameras_fold [OF e(1,2) wanted_cameras_def]
  show "distinct (map fst (wanted_cameras cams))" using conjunct1 [OF w] .
  show "k = camera_key c \<and> c \<in> set cams" if "map_of (wanted_cameras cams) k = Some c"
    using conjunct1 [OF conjunct2 [OF w], rule_format, OF that] by simp
  show "map_of (wanted_cameras cams) (camera_key c) \<noteq> None" if "c \<in> set cams"
    using conjunct1 [OF conjunct2 [OF conjunct2 [OF w]]] that by blast
qed

lemma wanted_cameras_distinct:
  assumes "distinct (map camera_key cams)" and "c \<in> set cams"
  shows "map_of (wanted_cameras cams) (camera_key c) = Some c"
proof (cases "map_of (wanted_cameras cams) (camera_key c)")
  case None
  then show ?thesis using wanted_cameras_ok(3) [OF assms(2)] by simp
next
  case (Some d)
  then have "camera_key d = camera_key c" "d \<in> set cams" using wanted_cameras_ok(2) by fastforce+
  then have "d = c" using assms by (simp add: distinct_map inj_on_def)
  with Some show ?thesis by simp
qed

definition fresh_worker :: "camera \<Rightarrow> supervisor option \<Rightarrow> bool" where
  "fresh_worker c w \<longleftrightarrow> (\<exists>i. w = Some \<lparr>sv_id = i, sv_camera = c, sv_server = Some (0, 0)\<rparr>)"

lemma start_cameras_lookup:
  "start_cameras start cs t = (t', acts, errs) \<Longrightarrow> distinct (map camera_key cs) \<Longrightarrow> table_ok t \<Longrightarrow>
     table_ok t' \<and> (\<forall>k. case find (\<lambda>c. camera_key c = k \<and> start c = None) cs of
           None \<Rightarrow> map_of (fst t') k = map_of (fst t) k
         | Some c \<Rightarrow> fresh_worker c (map_of (fst t') k))
     \<and> (\<forall>s. StopBridge s \<notin> set acts) \<and> (errs = [] \<longleftrightarrow> (\<forall>c \<in> set cs. start c = None))"
proof (induction cs arbitrary: t acts errs)
  case Nil
  then show ?case by simp
next
  case (Cons c cs)
  show ?case
  proof (cases "start c")
    case (Some err)
    then obtain acts1 errs1 where r: "start_cameras start cs t = (t', acts1, errs1)"
      and o: "acts = StartFailed c err # acts1" "errs = err # errs1"
      using Cons.prems(1) by (auto split: prod.splits)
    from Cons.IH [OF r _ Cons.prems(3)] Cons.prems(2) show ?thesis by (simp add: o Some)
  next
    case None
    let ?s = "\<lparr>sv_id = snd t, sv_camera = c, sv_server = Some (0, 0)\<rparr>"
    from None obtain acts1 errs1 where r: "start_cameras start cs (add_camera c t) = (t', acts1, errs1)"
      and o: "acts = StartBridge c # acts1" "errs = errs1"
      using Cons.prems(1) by (auto split: prod.splits)
    have m: "map_of (fst (add_camera c t)) k = (if k = camera_key c then Some ?s else map_of (fst t) k)" for k
      by (simp add: add_camera_def AList.update_conv')
    have ok: "table_ok (add_camera c t)"
      using Cons.prems(3) m by (auto simp: table_ok_def AList.distinct_update add_camera_def less_Suc_eq
          split: if_splits)
    have nf: "find (\<lambda>d. camera_key d = camera_key c \<and> start d = None) cs = None"
      using Cons.prems(2) unfolding find_None_iff list.map distinct.simps by (metis imageI set_map)
    from Cons.IH [OF r _ ok] Cons.prems(2) have ih: "table_ok t'"
      "\<And>k. case find (\<lambda>c. camera_key c = k \<and> start c = None) cs of
           None \<Rightarrow> map_of (fst t') k = map_of (fst (add_camera c t)) k
         | Some c \<Rightarrow> fresh_worker c (map_of (fst t') k)"
      "\<forall>s. StopBridge s \<notin> set acts1" "errs1 = [] \<longleftrightarrow> (\<forall>c \<in> set cs. start c = None)" by simp_all
    have "case find (\<lambda>c. camera_key c = k \<and> start c = None) (c # cs) of
           None \<Rightarrow> map_of (fst t') k = map_of (fst t) k
         | Some c \<Rightarrow> fresh_worker c (map_of (fst t') k)" for k
    proof (cases "k = camera_key c")
      case True
      then have "map_of (fst t') k = Some ?s" using ih(2) [of k] nf m by simp
      then show ?thesis using True None by (simp add: fresh_worker_def)
    next
      case False
      then show ?thesis using ih(2) [of k] m by (simp split: option.splits)
    qed
    with ih o None show ?thesis by simp
  qed
qed

definition start_act :: "(camera \<Rightarrow> string option) \<Rightarrow> camera \<Rightarrow> reload_act" where
  "start_act start c = (case start c of None \<Rightarrow> StartBridge c | Some err \<Rightarrow> StartFailed c err)"

lemma start_act_no_stop [simp]: "StopBridge s \<noteq> start_act start c" "start_act start c \<noteq> StopBridge s"
  by (simp_all add: start_act_def split: option.split)

lemma start_cameras_acts:
  "start_cameras start cs t = (t', acts, errs) \<Longrightarrow> acts = map (start_act start) cs"
  by (induction cs arbitrary: t acts errs)
    (auto simp: start_act_def split: option.splits prod.splits)

lemma find_key:
  assumes "distinct (map camera_key cs)" and "c \<in> set cs" and "camera_key c = k" and "P c"
  shows "find (\<lambda>c. camera_key c = k \<and> P c) cs = Some c"
  using assms
proof (induction cs)
  case (Cons d cs)
  show ?case
  proof (cases "d = c")
    case False
    with Cons.prems have "c \<in> set cs" by simp
    then have "camera_key d \<noteq> k" using Cons.prems by auto
    with Cons False show ?thesis by simp
  qed (use Cons.prems in simp)
qed simp

text \<open>The table after a pass, key by key: the old worker if its camera is wanted as it is, else a
  new one if the wanted camera could be started.\<close>

lemma reconcile_lookup:
  assumes ok: "table_ok t" and run: "reconcile_cameras start t cams = (t', acts, errs)"
  shows "table_ok t'"
    and "case map_of (wanted_cameras cams) k of
         None \<Rightarrow> map_of (fst t') k = None
       | Some c \<Rightarrow>
           (if map_option sv_camera (map_of (fst t) k) = Some c then map_of (fst t') k = map_of (fst t) k
            else if start c = None then fresh_worker c (map_of (fst t') k)
            else map_of (fst t') k = None)"
    and "\<exists>starts. acts = map (StopBridge \<circ> snd)
        (filter (\<lambda>e. map_of (wanted_cameras cams) (fst e) \<noteq> Some (sv_camera (snd e))) (fst t))
          @ map (start_act start) starts
      \<and> distinct starts \<and> (errs = [] \<longleftrightarrow> (\<forall>c \<in> set starts. start c = None))
      \<and> set starts = {c. map_of (wanted_cameras cams) (camera_key c) = Some c
                        \<and> map_option sv_camera (map_of (fst t) (camera_key c)) \<noteq> Some c}"
proof -
  define wanted where "wanted = wanted_cameras cams"
  define kept where "kept = filter (keeps_bridge wanted) (fst t)"
  define cs where "cs = map snd (filter (\<lambda>(k, c). map_of kept k = None) wanted)"
  have kb: "keeps_bridge wanted e \<longleftrightarrow> map_of wanted (fst e) = Some (sv_camera (snd e))" for e
    by (auto simp: keeps_bridge_def same_camera_iff split: option.splits)
  obtain acts1 where st: "start_cameras start cs (kept, snd t) = (t', acts1, errs)"
    and acts: "acts = map (StopBridge \<circ> snd) (filter (\<lambda>e. \<not> keeps_bridge wanted e) (fst t)) @ acts1"
    using run by (auto simp: reconcile_cameras_def Let_def wanted_def kept_def cs_def split: prod.splits)
  have d: "distinct (map fst (fst t))" using ok by (simp add: table_ok_def)
  have mk_iff: "map_of kept k = Some s \<longleftrightarrow> map_of (fst t) k = Some s \<and> map_of wanted k = Some (sv_camera s)"
    for k s
    unfolding kept_def map_of_filter_distinct [OF d] kb fst_conv snd_conv
    by (rule guarded_some)
  have kok: "table_ok (kept, snd t)"
    using ok distinct_filter_keys [OF d, of "keeps_bridge wanted", folded kept_def]
    unfolding table_ok_def fst_conv snd_conv mk_iff by blast
  have keys: "map camera_key cs = map fst (filter (\<lambda>(k, c). map_of kept k = None) wanted)"
    unfolding cs_def map_map
  proof (rule map_cong [OF refl])
    fix e assume "e \<in> set (filter (\<lambda>(k, c). map_of kept k = None) wanted)"
    then have "map_of wanted (fst e) = Some (snd e)"
      using wanted_cameras_ok(1) [of cams] by (auto simp: wanted_def)
    then show "(camera_key \<circ> snd) e = fst e" using wanted_cameras_ok(2) by (fastforce simp: wanted_def)
  qed
  have dk: "distinct (map camera_key cs)"
    unfolding keys using wanted_cameras_ok(1) [of cams] by (simp add: distinct_filter_keys wanted_def)
  have in_cs: "c \<in> set cs \<and> camera_key c = k \<longleftrightarrow> map_of wanted k = Some c \<and> map_of kept k = None" for c k
  proof
    assume a: "c \<in> set cs \<and> camera_key c = k"
    then obtain k' where "(k', c) \<in> set wanted" "map_of kept k' = None" by (auto simp: cs_def)
    then have "map_of wanted k' = Some c" using wanted_cameras_ok(1) [of cams] by (simp add: wanted_def)
    with a \<open>map_of kept k' = None\<close> show "map_of wanted k = Some c \<and> map_of kept k = None"
      using wanted_cameras_ok(2) [of cams k' c] by (simp add: wanted_def)
  next
    assume a: "map_of wanted k = Some c \<and> map_of kept k = None"
    then have "(k, c) \<in> set (filter (\<lambda>(k, c). map_of kept k = None) wanted)" by (auto dest: map_of_SomeD)
    then have "c \<in> set cs" unfolding cs_def by force
    with a show "c \<in> set cs \<and> camera_key c = k"
      using wanted_cameras_ok(2) [of cams k c] by (simp add: wanted_def)
  qed
  note res = start_cameras_lookup [OF st dk kok]
  show "table_ok t'" using res by blast
  have look: "case find (\<lambda>c. camera_key c = k \<and> start c = None) cs of
           None \<Rightarrow> map_of (fst t') k = map_of kept k
         | Some c \<Rightarrow> fresh_worker c (map_of (fst t') k)"
    using spec [OF conjunct1 [OF conjunct2 [OF res]], of k] unfolding fst_conv .
  show "case map_of (wanted_cameras cams) k of
         None \<Rightarrow> map_of (fst t') k = None
       | Some c \<Rightarrow>
           (if map_option sv_camera (map_of (fst t) k) = Some c then map_of (fst t') k = map_of (fst t) k
            else if start c = None then fresh_worker c (map_of (fst t') k)
            else map_of (fst t') k = None)"
  proof (cases "\<exists>c. c \<in> set cs \<and> camera_key c = k \<and> start c = None")
    case True
    then obtain c where c: "c \<in> set cs" "camera_key c = k" "start c = None" by blast
    have f: "find (\<lambda>c. camera_key c = k \<and> start c = None) cs = Some c"
      using find_key [OF dk c(1,2), of "\<lambda>c. start c = None"] c(3) by simp
    have w: "map_of wanted k = Some c" "map_of kept k = None"
      using iffD1 [OF in_cs, OF conjI [OF c(1,2)]] by simp_all
    have "map_option sv_camera (map_of (fst t) k) \<noteq> Some c"
    proof
      assume "map_option sv_camera (map_of (fst t) k) = Some c"
      then obtain s where "map_of (fst t) k = Some s" "sv_camera s = c" by blast
      then have "map_of kept k = Some s" using w(1) iffD2 [OF mk_iff] by blast
      with w(2) show False by (metis option.distinct(1))
    qed
    with look f w(1) c(3) show ?thesis unfolding wanted_def by auto
  next
    case False
    then have f: "find (\<lambda>c. camera_key c = k \<and> start c = None) cs = None" by (auto simp: find_None_iff)
    show ?thesis
    proof (cases "map_of kept k")
      case (Some s)
      with mk_iff have "map_of (fst t) k = Some s" "map_of wanted k = Some (sv_camera s)" by blast+
      with Some look f show ?thesis unfolding wanted_def by simp
    next
      case None
      have ns: "start c \<noteq> None" if "map_of wanted k = Some c" for c
        using False iffD2 [OF in_cs, OF conjI [OF that None]] by (metis (no_types))
      have old: "map_option sv_camera (map_of (fst t) k) \<noteq> Some c" if "map_of wanted k = Some c" for c
      proof
        assume "map_option sv_camera (map_of (fst t) k) = Some c"
        then obtain s where "map_of (fst t) k = Some s" "sv_camera s = c" by blast
        then have "map_of kept k = Some s" using that iffD2 [OF mk_iff] by blast
        with None show False by (metis option.distinct(1))
      qed
      show ?thesis
      proof (cases "map_of wanted k")
        case w: None
        with look f None show ?thesis unfolding wanted_def by simp
      next
        case (Some c)
        with look f None ns [OF Some] old [OF Some] show ?thesis unfolding wanted_def by auto
      qed
    qed
  qed
  have fe: "filter (\<lambda>e. \<not> keeps_bridge wanted e) (fst t)
      = filter (\<lambda>e. map_of (wanted_cameras cams) (fst e) \<noteq> Some (sv_camera (snd e))) (fst t)"
    unfolding kb unfolding wanted_def ..
  have new: "set cs = {c. map_of wanted (camera_key c) = Some c
      \<and> map_option sv_camera (map_of (fst t) (camera_key c)) \<noteq> Some c}"
  proof (rule set_eqI)
    fix c
    have "map_of kept (camera_key c) = None \<longleftrightarrow> map_option sv_camera (map_of (fst t) (camera_key c)) \<noteq> Some c"
      if w: "map_of wanted (camera_key c) = Some c"
    proof -
      have "map_of kept (camera_key c) \<noteq> None \<longleftrightarrow> (\<exists>s. map_of (fst t) (camera_key c) = Some s \<and> sv_camera s = c)"
        using mk_iff [of "camera_key c"] w by (metis not_None_eq option.inject)
      then show ?thesis by (cases "map_of kept (camera_key c)") auto
    qed
    then show "c \<in> set cs \<longleftrightarrow> c \<in> {c. map_of wanted (camera_key c) = Some c
      \<and> map_option sv_camera (map_of (fst t) (camera_key c)) \<noteq> Some c}"
      using in_cs [of c "camera_key c"] by (simp del: not_None_eq) (metis (no_types))
  qed
  have "acts = map (StopBridge \<circ> snd)
        (filter (\<lambda>e. map_of (wanted_cameras cams) (fst e) \<noteq> Some (sv_camera (snd e))) (fst t))
          @ map (start_act start) cs"
    using acts start_cameras_acts [OF st] by (simp add: fe)
  moreover have "distinct cs" using dk by (simp add: distinct_map)
  ultimately show "\<exists>starts. acts = map (StopBridge \<circ> snd)
        (filter (\<lambda>e. map_of (wanted_cameras cams) (fst e) \<noteq> Some (sv_camera (snd e))) (fst t))
          @ map (start_act start) starts
      \<and> distinct starts \<and> (errs = [] \<longleftrightarrow> (\<forall>c \<in> set starts. start c = None))
      \<and> set starts = {c. map_of (wanted_cameras cams) (camera_key c) = Some c
                        \<and> map_option sv_camera (map_of (fst t) (camera_key c)) \<noteq> Some c}"
    using res new unfolding wanted_def by blast
qed

interpretation runtime_table: keyed_table
    "\<lambda>t cams. fst (reconcile_cameras start t cams)" "\<lambda>t. map_of (fst t)" sv_camera
    "\<lambda>cams. map_of (wanted_cameras cams)" table_ok
  for start
proof
  fix t :: camera_table and cams k w
  obtain t' acts errs where r: "reconcile_cameras start t cams = (t', acts, errs)" by (metis prod_cases3)
  assume ok: "table_ok t"
  note look = reconcile_lookup(2) [OF ok r, of k]
  show "table_ok (fst (reconcile_cameras start t cams))" using reconcile_lookup(1) [OF ok r] by (simp add: r)
  show "map_of (fst (fst (reconcile_cameras start t cams))) k = Some w"
    if "map_of (fst t) k = Some w" "map_of (wanted_cameras cams) k = Some (sv_camera w)"
    using look that by (simp add: r)
  show "map_of (wanted_cameras cams) k = Some (sv_camera w)"
    if w: "map_of (fst (fst (reconcile_cameras start t cams))) k = Some w"
  proof (cases "map_of (wanted_cameras cams) k")
    case None
    then show ?thesis using look w by (simp add: r)
  next
    case (Some c)
    have "sv_camera w = c"
    proof (cases "map_option sv_camera (map_of (fst t) k) = Some c")
      case True
      then have "map_of (fst t') k = map_of (fst t) k" using look Some by simp
      then show ?thesis using True w by (simp add: r)
    next
      case False
      then have "fresh_worker c (map_of (fst t') k) \<or> map_of (fst t') k = None"
        using look Some by (simp split: if_splits)
      then show ?thesis using w by (auto simp: r fresh_worker_def)
    qed
    with Some show ?thesis by simp
  qed
qed

definition runtime_ok :: "runtime \<Rightarrow> bool" where
  "runtime_ok rt \<longleftrightarrow> table_ok (rt_cameras rt, rt_next rt) \<and> rt_total rt = int (length (rt_cameras rt))"

lemma table_running:
  assumes "table_ok t"
  shows "map_of (fst t) k = Some s \<longleftrightarrow> (k, s) \<in> set (fst t) \<and> k = camera_key (sv_camera s)"
    and "distinct (map snd (fst t))"
    and "map_option sv_camera (map_of (fst t) (camera_key c)) \<noteq> Some c \<longleftrightarrow> c \<notin> sv_camera ` ran (map_of (fst t))"
    and "(k, s) \<in> set (fst t) \<Longrightarrow> k = camera_key (sv_camera s)"
proof -
  have d: "distinct (map fst (fst t))"
    and k: "\<And>k s. map_of (fst t) k = Some s \<Longrightarrow> k = camera_key (sv_camera s)"
    using assms by (auto simp: table_ok_def)
  show "map_of (fst t) k = Some s \<longleftrightarrow> (k, s) \<in> set (fst t) \<and> k = camera_key (sv_camera s)" for k s
    using d k [of k s] by auto
  have "map fst (fst t) = map (camera_key \<circ> sv_camera) (map snd (fst t))"
    using d k by (auto simp: map_eq_conv)
  then show "distinct (map snd (fst t))" using d by (metis distinct_map)
  show "map_option sv_camera (map_of (fst t) (camera_key c)) \<noteq> Some c \<longleftrightarrow> c \<notin> sv_camera ` ran (map_of (fst t))"
    by (auto simp: ran_def image_def dest: k)
  show "k = camera_key (sv_camera s)" if "(k, s) \<in> set (fst t)" for k s
    using k [of k s] d that by simp
qed

lemma distinct_map_filter: "distinct (map f xs) \<Longrightarrow> distinct (map f (filter P xs))"
  by (induction xs) auto

text \<open>C15: a reload leaves every camera that is in the new registry unchanged to the very bridge
  that serves it; it stops every other running bridge, and exactly those, once each; only then
  does it start the cameras of the registry that were not already running as they are, and
  exactly those, once each, so a changed camera can take the address of its predecessor.
  Afterwards no camera runs that the registry does not name, each of the registry runs unless
  it was new or changed and its address could not be bound, and the reload reports an error
  exactly when one could not.\<close>

theorem reload_keeps_unchanged:
  assumes "reload start reg rt = (rt', acts, err)" and "runtime_ok rt"
    and "rg_cameras reg \<noteq> []" and "rt_running rt" and "\<not> rt_stopping rt"
    and "distinct (map camera_key (rg_cameras reg))"
  shows "runtime_ok rt' \<and>
    (\<forall>k s. map_of (rt_cameras rt) k = Some s \<longrightarrow>
       (if sv_camera s \<in> set (rg_cameras reg) then map_of (rt_cameras rt') k = Some s \<and> StopBridge s \<notin> set acts
        else map_of (rt_cameras rt') k \<noteq> Some s \<and> StopBridge s \<in> set acts)) \<and>
    (\<forall>k s. map_of (rt_cameras rt') k = Some s \<longrightarrow> sv_camera s \<in> set (rg_cameras reg)) \<and>
    (\<forall>c \<in> set (rg_cameras reg).
       (\<exists>s. map_of (rt_cameras rt') (camera_key c) = Some s \<and> sv_camera s = c) \<longleftrightarrow>
       start c = None \<or> c \<in> sv_camera ` ran (map_of (rt_cameras rt))) \<and>
    (\<exists>stops starts. acts = map StopBridge stops @ map (start_act start) starts
       \<and> distinct stops \<and> set stops = {s \<in> ran (map_of (rt_cameras rt)). sv_camera s \<notin> set (rg_cameras reg)}
       \<and> distinct starts \<and> set starts = set (rg_cameras reg) - sv_camera ` ran (map_of (rt_cameras rt))
       \<and> (err = None \<longleftrightarrow> (\<forall>c \<in> set starts. start c = None)))"
proof -
  let ?t = "(rt_cameras rt, rt_next rt)" and ?cams = "rg_cameras reg"
  obtain t' errs where r: "reconcile_cameras start ?t ?cams = (t', acts, errs)"
      and rt': "rt_cameras rt' = fst t'" "rt_next rt' = snd t'" "rt_total rt' = int (length (fst t'))"
      and e: "err = None \<longleftrightarrow> errs = []"
    using assms(1,3,4,5) by (auto simp: reload_def publish_bridges_def split: prod.splits if_splits)
  have ok: "table_ok ?t" using assms(2) by (simp add: runtime_ok_def)
  note table = table_running [OF ok, unfolded fst_conv]
  have w: "map_of (wanted_cameras ?cams) (camera_key c) = Some c \<longleftrightarrow> c \<in> set ?cams" for c
    using wanted_cameras_distinct [OF assms(6)] wanted_cameras_ok(2) by blast
  have lk: "map_of (fst (fst (reconcile_cameras start ?t ?cams))) k = map_of (rt_cameras rt') k" for k
    by (simp add: r rt')
  have 1: "runtime_ok rt'" using reconcile_lookup(1) [OF ok r] rt' by (simp add: runtime_ok_def)
  define stops where "stops = map snd (filter (\<lambda>e. map_of (wanted_cameras ?cams) (fst e)
    \<noteq> Some (sv_camera (snd e))) (rt_cameras rt))"
  obtain starts where a: "acts = map StopBridge stops @ map (start_act start) starts"
      and st: "distinct starts" "errs = [] \<longleftrightarrow> (\<forall>c \<in> set starts. start c = None)"
      "set starts = set ?cams - sv_camera ` ran (map_of (rt_cameras rt))"
    using reconcile_lookup(3) [OF ok r] unfolding w fst_conv table(3) stops_def map_map by blast
  have sp: "set stops = {s \<in> ran (map_of (rt_cameras rt)). sv_camera s \<notin> set ?cams}"
  proof (rule set_eqI)
    fix s
    have "s \<in> set stops \<longleftrightarrow> (\<exists>k. (k, s) \<in> set (rt_cameras rt) \<and> map_of (wanted_cameras ?cams) k \<noteq> Some (sv_camera s))"
      by (force simp: stops_def)
    also have "\<dots> \<longleftrightarrow> (\<exists>k. map_of (rt_cameras rt) k = Some s \<and> sv_camera s \<notin> set ?cams)"
      using table(1) table(4) w by metis
    finally show "s \<in> set stops \<longleftrightarrow> s \<in> {s \<in> ran (map_of (rt_cameras rt)). sv_camera s \<notin> set ?cams}"
      by (simp add: ran_def)
  qed
  have dsp: "distinct stops" using table(2) by (simp add: stops_def distinct_map_filter)
  have 2: "if sv_camera s \<in> set ?cams then map_of (rt_cameras rt') k = Some s \<and> StopBridge s \<notin> set acts
        else map_of (rt_cameras rt') k \<noteq> Some s \<and> StopBridge s \<in> set acts"
    if s: "map_of (rt_cameras rt) k = Some s" for k s
  proof -
    have "map_of (rt_cameras rt') k = Some s \<longleftrightarrow> sv_camera s \<in> set ?cams"
      using runtime_table.survives_iff [OF ok, of k s start ?cams] s w table(1) [of k s] lk by simp
    moreover have "StopBridge s \<in> set acts \<longleftrightarrow> s \<in> set stops" by (auto simp: a)
    ultimately show ?thesis using sp s by (auto simp: ran_def)
  qed
  have 3: "sv_camera s \<in> set ?cams" if "map_of (rt_cameras rt') k = Some s" for k s
    using runtime_table.only_wanted [OF ok, of start ?cams k s] that lk wanted_cameras_ok(2) by metis
  have 4: "(\<exists>s. map_of (rt_cameras rt') (camera_key c) = Some s \<and> sv_camera s = c) \<longleftrightarrow>
      start c = None \<or> c \<in> sv_camera ` ran (map_of (rt_cameras rt))" if "c \<in> set ?cams" for c
    using reconcile_lookup(2) [OF ok r, of "camera_key c"] that w [of c] rt' table(3) [of c]
    by (auto simp: fresh_worker_def split: if_splits)
  have 5: "acts = map StopBridge stops @ map (start_act start) starts
       \<and> distinct stops \<and> set stops = {s \<in> ran (map_of (rt_cameras rt)). sv_camera s \<notin> set ?cams}
       \<and> distinct starts \<and> set starts = set ?cams - sv_camera ` ran (map_of (rt_cameras rt))
       \<and> (err = None \<longleftrightarrow> (\<forall>c \<in> set starts. start c = None))"
    using a st sp dsp e by simp
  show ?thesis by (intro conjI allI impI ballI 1 2 3 4, assumption+, rule exI [of _ stops], rule exI [of _ starts], rule 5)
qed

definition cam_one :: camera where
  "cam_one = \<lparr>cm_credentials = sample_credentials, cm_stream_name = ''nursery'',
     cm_listen_addr = ''127.0.0.1:8555''\<rparr>"

definition cam_two :: camera where
  "cam_two = \<lparr>cm_credentials = sample_credentials\<lparr>cr_udid := ''U2''\<rparr>, cm_stream_name = ''nursery-2'',
     cm_listen_addr = ''127.0.0.1:9000''\<rparr>"

definition sample_runtime :: runtime where
  "sample_runtime = \<lparr>rt_cfg = fill_config \<lparr>rc_restart_backoff = 0, rc_restart_backoff_max = 0,
       rc_stats_interval = 0\<rparr>, rt_registry = sample_registry,
     rt_cameras = [(''U1'', \<lparr>sv_id = 0, sv_camera = cam_one, sv_server = Some (3, 1)\<rparr>)], rt_next = 1,
     rt_running = True, rt_stopping = False, rt_serving = 1, rt_total = 1, rt_restarts = 0,
     rt_health = new_state 0\<rparr>"

theorem reload_keeps_unchanged_witness:
  "let rt' = fst (reload (\<lambda>_. None) (sample_registry\<lparr>rg_cameras := [cam_one, cam_two]\<rparr>) sample_runtime)
   in map_of (rt_cameras rt') ''U1'' = Some \<lparr>sv_id = 0, sv_camera = cam_one, sv_server = Some (3, 1)\<rparr>
      \<and> (\<exists>s. map_of (rt_cameras rt') ''U2'' = Some s \<and> sv_camera s = cam_two)"
proof -
  let ?reg = "sample_registry\<lparr>rg_cameras := [cam_one, cam_two]\<rparr>"
  obtain rt' acts err where r: "reload (\<lambda>_. None) ?reg sample_runtime = (rt', acts, err)" by (metis prod_cases3)
  have k: "camera_key cam_one = ''U1''" "camera_key cam_two = ''U2''" by code_simp+
  have ok: "runtime_ok sample_runtime" by (simp add: runtime_ok_def table_ok_def sample_runtime_def k)
  have g: "rg_cameras ?reg \<noteq> []" "rt_running sample_runtime" "\<not> rt_stopping sample_runtime"
    "distinct (map camera_key (rg_cameras ?reg))"
    by (simp_all add: sample_runtime_def k)
  have in_old: "map_of (rt_cameras sample_runtime) ''U1'' = Some \<lparr>sv_id = 0, sv_camera = cam_one, sv_server = Some (3, 1)\<rparr>"
    by (simp add: sample_runtime_def)
  note all = reload_keeps_unchanged [OF r ok g]
  have "map_of (rt_cameras rt') ''U1'' = Some \<lparr>sv_id = 0, sv_camera = cam_one, sv_server = Some (3, 1)\<rparr>"
    using all [THEN conjunct2, THEN conjunct1, rule_format, OF in_old] by simp
  moreover have "\<exists>s. map_of (rt_cameras rt') (camera_key cam_two) = Some s \<and> sv_camera s = cam_two"
    using all [THEN conjunct2, THEN conjunct2, THEN conjunct2, THEN conjunct1, rule_format, of cam_two] by simp
  ultimately show ?thesis by (simp add: r k)
qed

subsection \<open>The restart loop\<close>

text \<open>
  Every supervisor runs \<open>supervise\<close> in its own goroutine.  A step is what happens between two
  points where it blocks or touches the shared counters.  \<open>Starting\<close> has a listening server,
  \<open>Serving\<close> is inside \<open>Serve\<close> (with the time it began), \<open>Ended\<close> has left it, \<open>Resting\<close>
  sleeps for its backoff, \<open>Binding\<close> is about to start a new server.
\<close>

datatype sup_phase =
    Starting int
  | Serving int int
  | Ended int int
  | Resting int
  | Binding int
  | Finished

record fleet =
  fl_now :: int
  fl_serving :: int
  fl_restarts :: nat
  fl_cancelled :: "nat set"
  fl_phase :: "nat \<Rightarrow> sup_phase option"

definition set_sup :: "nat \<Rightarrow> sup_phase \<Rightarrow> fleet \<Rightarrow> fleet" where
  "set_sup i p f = f\<lparr>fl_phase := (fl_phase f)(i \<mapsto> p)\<rparr>"

lemma set_sup_simps [simp, frame_simps]:
  "fl_now (set_sup i p f) = fl_now f" "fl_serving (set_sup i p f) = fl_serving f"
  "fl_restarts (set_sup i p f) = fl_restarts f" "fl_cancelled (set_sup i p f) = fl_cancelled f"
  "fl_phase (set_sup i p f) j = (if j = i then Some p else fl_phase f j)"
  by (simp_all add: set_sup_def)

inductive sup_step :: "runtime_config \<Rightarrow> fleet \<Rightarrow> fleet \<Rightarrow> bool" for cfg where
  tick: "0 \<le> d \<Longrightarrow> sup_step cfg f (f\<lparr>fl_now := fl_now f + d\<rparr>)"
| cancel: "sup_step cfg f (f\<lparr>fl_cancelled := insert i (fl_cancelled f)\<rparr>)"
| spawn: "fl_phase f i = None \<Longrightarrow> sup_step cfg f (set_sup i (Starting (rc_restart_backoff cfg)) f)"
| serve: "fl_phase f i = Some (Starting b) \<Longrightarrow>
     sup_step cfg f ((set_sup i (Serving b (fl_now f)) f)\<lparr>fl_serving := fl_serving f + 1\<rparr>)"
| leave: "fl_phase f i = Some (Serving b t) \<Longrightarrow>
     sup_step cfg f ((set_sup i (Ended b t) f)\<lparr>fl_serving := fl_serving f - 1\<rparr>)"
| stop: "fl_phase f i = Some (Ended b t) \<Longrightarrow> i \<in> fl_cancelled f \<Longrightarrow> sup_step cfg f (set_sup i Finished f)"
| failed: "fl_phase f i = Some (Ended b t) \<Longrightarrow> i \<notin> fl_cancelled f \<Longrightarrow>
     sup_step cfg f ((set_sup i (Resting (if stable_run \<le> fl_now f - t then rc_restart_backoff cfg else b)) f)
        \<lparr>fl_restarts := fl_restarts f + 1\<rparr>)"
| rested: "fl_phase f i = Some (Resting b) \<Longrightarrow>
     sup_step cfg f (set_sup i (Binding (next_backoff b (rc_restart_backoff_max cfg))) f)"
| give_up: "fl_phase f i = Some (Resting b) \<Longrightarrow> i \<in> fl_cancelled f \<Longrightarrow> sup_step cfg f (set_sup i Finished f)"
| bound: "fl_phase f i = Some (Binding b) \<Longrightarrow> sup_step cfg f (set_sup i (Starting b) f)"
| unbound: "fl_phase f i = Some (Binding b) \<Longrightarrow> sup_step cfg f (set_sup i (Resting b) f)"

inductive_cases sup_stepE: "sup_step cfg f f'"

inductive sup_reach :: "runtime_config \<Rightarrow> fleet \<Rightarrow> bool" for cfg where
  start: "sup_reach cfg \<lparr>fl_now = now, fl_serving = 0, fl_restarts = 0,
            fl_cancelled = {}, fl_phase = (\<lambda>_. None)\<rparr>"
| more: "sup_reach cfg f \<Longrightarrow> sup_step cfg f f' \<Longrightarrow> sup_reach cfg f'"

definition serving_ids :: "fleet \<Rightarrow> nat set" where
  "serving_ids f = {i. \<exists>b t. fl_phase f i = Some (Serving b t)}"

fun phase_backoff :: "sup_phase \<Rightarrow> int option" where
  "phase_backoff (Starting b) = Some b"
| "phase_backoff (Serving b t) = Some b"
| "phase_backoff (Ended b t) = Some b"
| "phase_backoff (Resting b) = Some b"
| "phase_backoff (Binding b) = Some b"
| "phase_backoff Finished = None"

definition config_ok :: "runtime_config \<Rightarrow> bool" where
  "config_ok cfg \<longleftrightarrow> 0 < rc_restart_backoff cfg \<and> rc_restart_backoff cfg \<le> rc_restart_backoff_max cfg
     \<and> rc_restart_backoff_max cfg < 2 ^ 62"

lemma serving_ids_set:
  "serving_ids (set_sup i p f) = (case p of Serving b t \<Rightarrow> insert i (serving_ids f) | _ \<Rightarrow> serving_ids f - {i})"
  by (auto simp: serving_ids_def split: sup_phase.split)

lemma serving_ids_update [simp]:
  "serving_ids (f\<lparr>fl_serving := n\<rparr>) = serving_ids f" "serving_ids (f\<lparr>fl_now := t\<rparr>) = serving_ids f"
  "serving_ids (f\<lparr>fl_cancelled := c\<rparr>) = serving_ids f"
  "serving_ids (f\<lparr>fl_restarts := r\<rparr>) = serving_ids f"
  by (simp_all add: serving_ids_def)

lemma in_serving: "fl_phase f i = Some p \<Longrightarrow> i \<in> serving_ids f \<longleftrightarrow> (\<exists>b t. p = Serving b t)"
  "fl_phase f i = None \<Longrightarrow> i \<notin> serving_ids f"
  by (auto simp: serving_ids_def)

definition backoff_inv :: "runtime_config \<Rightarrow> fleet \<Rightarrow> bool" where
  "backoff_inv cfg f \<longleftrightarrow> (\<forall>i p b. fl_phase f i = Some p \<longrightarrow> phase_backoff p = Some b \<longrightarrow>
          rc_restart_backoff cfg \<le> b \<and> b \<le> rc_restart_backoff_max cfg)"

definition serving_inv :: "fleet \<Rightarrow> bool" where
  "serving_inv f \<longleftrightarrow> finite (serving_ids f) \<and> fl_serving f = int (card (serving_ids f))"

lemma serving_inv_step:
  assumes "sup_step cfg f f'" and "serving_inv f"
  shows "serving_inv f'"
  using assms
proof cases
  case (leave i b t)
  then have i: "i \<in> serving_ids f" by (simp add: in_serving)
  then have "0 < card (serving_ids f)" using assms(2) by (auto simp: serving_inv_def card_gt_0_iff)
  with i leave assms(2) show ?thesis
    by (simp add: serving_inv_def serving_ids_set card_Diff_singleton of_nat_diff)
qed (auto simp: serving_inv_def serving_ids_set in_serving insert_absorb)

lemma backoff_inv_step:
  assumes "sup_step cfg f f'" and "config_ok cfg" and "backoff_inv cfg f"
  shows "backoff_inv cfg f'"
  using assms(1)
proof cases
  case (rested i b)
  then have b: "rc_restart_backoff cfg \<le> b" "b \<le> rc_restart_backoff_max cfg"
    using assms(3) by (metis backoff_inv_def phase_backoff.simps(4))+
  have "rc_restart_backoff cfg \<le> next_backoff b (rc_restart_backoff_max cfg)
      \<and> next_backoff b (rc_restart_backoff_max cfg) \<le> rc_restart_backoff_max cfg"
    using next_backoff_bounds [OF _ b] assms(2) by (auto simp: config_ok_def)
  with rested assms(3) show ?thesis by (auto simp: backoff_inv_def)
next
  case (failed i b t)
  then have b: "rc_restart_backoff cfg \<le> b" "b \<le> rc_restart_backoff_max cfg"
    using assms(3) by (metis backoff_inv_def phase_backoff.simps(3))+
  have "rc_restart_backoff cfg \<le> rc_restart_backoff_max cfg" using assms(2) by (simp add: config_ok_def)
  then have r: "rc_restart_backoff cfg \<le> (if stable_run \<le> fl_now f - t then rc_restart_backoff cfg else b)
      \<and> (if stable_run \<le> fl_now f - t then rc_restart_backoff cfg else b) \<le> rc_restart_backoff_max cfg"
    using b by simp
  show ?thesis
    unfolding backoff_inv_def
  proof (intro allI impI)
    fix j p c
    assume "fl_phase f' j = Some p" and "phase_backoff p = Some c"
    then show "rc_restart_backoff cfg \<le> c \<and> c \<le> rc_restart_backoff_max cfg"
      using failed(1) r assms(3) [unfolded backoff_inv_def, rule_format, of j p c]
      by (cases "j = i") auto
  qed
next
  case (serve i b)
  then have "phase_backoff (Starting b) = Some b" by simp
  with serve assms(3) show ?thesis unfolding backoff_inv_def by (auto split: if_splits)
next
  case (leave i b t)
  with assms(3) show ?thesis unfolding backoff_inv_def by (fastforce split: if_splits)
qed (use assms in \<open>auto simp: backoff_inv_def config_ok_def split: if_splits\<close>)

text \<open>C24: at every moment the serving counter is the number of bridges that are inside \<open>Serve\<close>,
  so the health state never counts a bridge that is down, and every wait between restarts lies
  between the base backoff and the maximum.\<close>

theorem serving_counter_exact:
  assumes "sup_reach cfg f" and "config_ok cfg"
  shows "fl_serving f = int (card (serving_ids f)) \<and>
    (\<forall>i b. fl_phase f i = Some (Resting b) \<longrightarrow> rc_restart_backoff cfg \<le> b \<and> b \<le> rc_restart_backoff_max cfg)"
proof -
  have "serving_inv f \<and> backoff_inv cfg f"
    using assms
  proof (induction rule: sup_reach.induct)
    case (start now)
    then show ?case by (simp add: serving_inv_def backoff_inv_def serving_ids_def)
  next
    case (more f f')
    then show ?case using serving_inv_step backoff_inv_step by blast
  qed
  then show ?thesis by (auto simp: serving_inv_def backoff_inv_def)
qed

definition fleet_one :: fleet where
  "fleet_one = set_sup 4 (Resting second) (set_sup 4 (Ended second 0) (set_sup 4 (Serving second 0)
     (set_sup 4 (Starting second) \<lparr>fl_now = 0, fl_serving = 0, fl_restarts = 1, fl_cancelled = {},
       fl_phase = (\<lambda>_. None)\<rparr>)))"

definition cfg_one :: runtime_config where
  "cfg_one = \<lparr>rc_restart_backoff = second, rc_restart_backoff_max = 60 * second, rc_stats_interval = second\<rparr>"

lemma fleet_one_reach: "sup_reach cfg_one fleet_one"
proof -
  let ?f0 = "\<lparr>fl_now = 0, fl_serving = 0, fl_restarts = 0, fl_cancelled = {}, fl_phase = (\<lambda>_. None)\<rparr>"
  let ?f1 = "set_sup 4 (Starting second) ?f0"
  let ?f2 = "(set_sup 4 (Serving second 0) ?f1)\<lparr>fl_serving := 1\<rparr>"
  let ?f3 = "(set_sup 4 (Ended second 0) ?f2)\<lparr>fl_serving := 0\<rparr>"
  have r: "sup_reach cfg_one ?f0" by (rule sup_reach.start)
  have "sup_step cfg_one ?f0 ?f1" using sup_step.spawn [of ?f0 4 cfg_one] by (simp add: cfg_one_def)
  note r = sup_reach.more [OF r this]
  have "sup_step cfg_one ?f1 ?f2" using sup_step.serve [of ?f1 4 second cfg_one] by simp
  note r = sup_reach.more [OF r this]
  have "sup_step cfg_one ?f2 ?f3" using sup_step.leave [of ?f2 4 second 0 cfg_one] by simp
  note r = sup_reach.more [OF r this]
  have "sup_step cfg_one ?f3 fleet_one"
    using sup_step.failed [of ?f3 4 second 0 cfg_one]
    by (simp add: fleet_one_def stable_run_def second_def set_sup_def)
  from sup_reach.more [OF r this] show ?thesis .
qed

theorem serving_counter_exact_witness:
  "fl_serving fleet_one = int (card (serving_ids fleet_one)) \<and> fl_phase fleet_one 4 = Some (Resting second)
   \<and> second \<le> rc_restart_backoff_max cfg_one"
proof -
  have "config_ok cfg_one" by (simp add: config_ok_def cfg_one_def second_def)
  from serving_counter_exact [OF fleet_one_reach this] show ?thesis
    by (simp add: fleet_one_def cfg_one_def second_def)
qed

text \<open>The settings \<open>New\<close> fills in are always usable, so the bounds hold for every runtime.\<close>

lemma fill_config_usable:
  "rc_restart_backoff_max c < 2 ^ 62 \<Longrightarrow> rc_restart_backoff c < 2 ^ 62 \<Longrightarrow> config_ok (fill_config c)"
  using fill_config_ok [OF refl, of c] by (simp add: config_ok_def)

subsection \<open>The end of a run\<close>

lemma stop_all_quiet:
  assumes "stop_all rt = (rt', acts)"
  shows "\<forall>st \<in> set (runtime_cameras rt'). \<not> ca_serving st \<and> ca_active st = 0"
    and "rt_serving rt' = 0" and "rt_stopping rt'" and "map fst (rt_cameras rt') = map fst (rt_cameras rt)"
    and "acts = map (StopBridge \<circ> snd) (rt_cameras rt)"
  using assms by (auto simp: stop_all_def runtime_cameras_def sup_serving_def sup_stats_def Let_def)

text \<open>When a run is over every bridge it had was stopped, no camera is serving, the health state shows
  no ready bridge and no session, and a reload that comes late starts nothing.\<close>

theorem run_ends_quiet:
  assumes "run_end rt = (rt', acts)"
  shows "acts = map (StopBridge \<circ> snd) (rt_cameras rt)
    \<and> (\<forall>st \<in> set (runtime_cameras rt'). \<not> ca_serving st \<and> ca_active st = 0)
    \<and> sn_bridges_ready (hs_snapshot (rt_health rt')) = 0 \<and> sn_active_sessions (hs_snapshot (rt_health rt')) = 0
    \<and> fst (snd (reload start reg rt')) = [] \<and> snd (snd (reload start reg rt')) \<noteq> None"
proof -
  obtain rt1 where r: "stop_all rt = (rt1, acts)" and rt': "rt' = publish_counters (publish_bridges rt1)"
    using assms by (auto simp: run_end_def split: prod.splits)
  note q = stop_all_quiet [OF r]
  have cams: "rt_cameras rt' = rt_cameras rt1" "rt_stopping rt'"
    using q(3) by (simp_all add: rt' publish_counters_def publish_bridges_def)
  have "sum_list (map (\<lambda>(k, s). snd (sup_stats s)) (map (\<lambda>(k, s). (k, s\<lparr>sv_server := None\<rparr>)) xs)) = 0"
    for xs :: "(string \<times> supervisor) list"
    by (induction xs) (auto simp: sup_stats_def)
  then have "sum_list (map (\<lambda>(k, s). snd (sup_stats s)) (rt_cameras rt1)) = 0"
    using r unfolding stop_all_def by auto
  then have "sn_active_sessions (hs_snapshot (rt_health rt')) = 0 \<and> sn_bridges_ready (hs_snapshot (rt_health rt')) = 0"
    using q(2) by (simp add: rt' publish_counters_def publish_bridges_def set_counters_def set_bridges_def on_snapshot_def)
  moreover have "runtime_cameras rt' = runtime_cameras rt1" by (simp add: runtime_cameras_def cams(1))
  ultimately show ?thesis using q cams(2) by (simp add: reload_def)
qed

text \<open>A run whose start fails has stopped every bridge it started.\<close>

lemma failed_start_stops:
  "run_begin start rt = (rt', acts, Some err) \<Longrightarrow>
     rt_stopping rt' \<and> (\<forall>st \<in> set (runtime_cameras rt'). \<not> ca_serving st) \<and> length acts = length (rt_cameras rt')"
  by (auto simp: run_begin_def Let_def stop_all_def runtime_cameras_def sup_serving_def split: sum.splits prod.splits)

end
