(* ===== verification/Device_Control.thy ===== *)
theory Device_Control
  imports Go_Text Go_Net "HOL-Library.AList"
begin

text \<open>
  The camera control protocol (internal/devicecontrol/protocol.go) and its client
  (internal/devicecontrol/client.go).  TLS and the socket are a script of outcomes.

  A temperature is kept in tenths of a degree, the integer the camera sends; the code divides
  it by ten in floating point when it hands it on.
\<close>

subsection \<open>Protocol lines\<close>

definition temperature_capability :: string where
  "temperature_capability = ''temperature_reading''"

definition blank_chars :: string where
  "blank_chars = [CHR 0x20, CHR 0x0D, CHR 0x0A, CHR 0x09]"

definition authentication_command :: "32 word \<Rightarrow> string \<Rightarrow> string option" where
  "authentication_command device_id token =
     (if device_id = 0 \<or> token = [] \<or> (\<exists>c \<in> set token. c \<in> set blank_chars) then None
      else Some (''app '' @ itoa (uint device_id) @ '' '' @ token @ [CHR 0x0A]))"

datatype auth_error = UnexpectedAuth | AuthRejected

definition parse_authentication :: "string \<Rightarrow> auth_error + unit" where
  "parse_authentication line =
     (let fs = str_fields line in
      if length fs < 2 \<or> fs ! 0 \<noteq> ''app'' then Inl UnexpectedAuth
      else case atoi (fs ! 1) of
        None \<Rightarrow> Inl AuthRejected
      | Some status \<Rightarrow> if status \<le> 0 then Inl AuthRejected else Inr ())"

text \<open>The capability list.  The code computes the expected number of fields in 64 bits and then
  indexes the fields without a further check: an index past the end is a panic.\<close>

datatype capability_result = Capable bool | CapUnexpected | CapMalformed | CapPanic

function capability_loop :: "string list \<Rightarrow> int \<Rightarrow> int \<Rightarrow> capability_result" where
  "capability_loop fs index count =
     (if count \<le> index then Capable False
      else let at = wrap64 (2 + wrap64 (index * 5)) in
        if at < 0 \<or> int (length fs) \<le> at then CapPanic
        else if fs ! nat at = temperature_capability then Capable True
        else capability_loop fs (index + 1) count)"
  by pat_completeness auto
termination
  by (relation "measure (\<lambda>(fs, index, count). nat (count - index))") auto

declare capability_loop.simps [simp del]

definition parse_temperature_capability :: "string \<Rightarrow> capability_result" where
  "parse_temperature_capability line =
     (let fs = str_fields line in
      if length fs < 2 \<or> fs ! 0 \<noteq> ''caplist'' then CapUnexpected
      else case atoi (fs ! 1) of
        None \<Rightarrow> CapMalformed
      | Some count \<Rightarrow>
          if count < 0 \<or> int (length fs) \<noteq> wrap64 (2 + wrap64 (count * 5)) then CapMalformed
          else capability_loop fs 0 count)"

datatype temperature_error = UnexpectedTemperature | TemperatureRange

definition parse_temperature :: "string \<Rightarrow> temperature_error + int" where
  "parse_temperature line =
     (let fs = str_fields line in
      if length fs \<noteq> 4 \<or> fs ! 0 \<noteq> ''get'' \<or> fs ! 1 \<noteq> ''1'' \<or> fs ! 2 \<noteq> temperature_capability
      then Inl UnexpectedTemperature
      else case atoi (fs ! 3) of
        None \<Rightarrow> Inl TemperatureRange
      | Some raw \<Rightarrow> if raw \<le> 0 \<or> 500 \<le> raw then Inl TemperatureRange else Inr raw)"

subsection \<open>The client\<close>

record dc_camera =
  dc_id :: string
  dc_device_id :: "32 word"
  dc_token :: string
  dc_host :: string
  dc_port :: int

datatype dc_act = DcOpened string | DcDeadline int | DcCleared | DcSent string | DcClosed

datatype dc_error =
    DcBadAddress
  | DcDialFailed string
  | DcNoCredentials
  | DcDeadlineFailed string
  | DcWriteFailed string
  | DcReadFailed string
  | DcAuth auth_error
  | DcCapability capability_result
  | DcTemperature temperature_error

text \<open>What the network does in one request, and in a connect.\<close>

record request_script =
  rq_deadline_err :: "string option"
  rq_write_err :: "string option"
  rq_line :: "string + string"

text \<open>\<open>request\<close>: the deadline is ten seconds from now or the context's, if that is earlier; it is
  cleared again on every path after it was set.\<close>

definition dc_request ::
  "int \<Rightarrow> int option \<Rightarrow> request_script \<Rightarrow> string \<Rightarrow> (string \<Rightarrow> dc_error + 'a) \<Rightarrow> (dc_error + 'a) \<times> dc_act list" where
  "dc_request now ctx_deadline s command parse =
     (let deadline = (case ctx_deadline of
            Some d \<Rightarrow> if d < now + 10 * 1000000000 then d else now + 10 * 1000000000
          | None \<Rightarrow> now + 10 * 1000000000) in
      case rq_deadline_err s of
        Some e \<Rightarrow> (Inl (DcDeadlineFailed e), [])
      | None \<Rightarrow>
      case rq_write_err s of
        Some e \<Rightarrow> (Inl (DcWriteFailed e), [DcDeadline deadline, DcCleared])
      | None \<Rightarrow>
      case rq_line s of
        Inl e \<Rightarrow> (Inl (DcReadFailed e), [DcDeadline deadline, DcSent command, DcCleared])
      | Inr line \<Rightarrow> (parse line, [DcDeadline deadline, DcSent command, DcCleared]))"

definition dc_auth :: "string \<Rightarrow> dc_error + unit" where
  "dc_auth line = (case parse_authentication line of Inl e \<Rightarrow> Inl (DcAuth e) | Inr u \<Rightarrow> Inr u)"

definition dc_connect ::
  "int \<Rightarrow> int option \<Rightarrow> string option \<Rightarrow> request_script \<Rightarrow> dc_camera \<Rightarrow> (dc_error + unit) \<times> dc_act list" where
  "dc_connect now ctx_deadline dial_err s cam =
     (if dc_host cam = [] \<or> dc_port cam < 1 \<or> 65535 < dc_port cam then (Inl DcBadAddress, [])
      else let address = join_host_port (dc_host cam) (itoa (dc_port cam)) in
      case dial_err of
        Some e \<Rightarrow> (Inl (DcDialFailed e), [])
      | None \<Rightarrow>
      case authentication_command (dc_device_id cam) (dc_token cam) of
        None \<Rightarrow> (Inl DcNoCredentials, [DcOpened address, DcClosed])
      | Some command \<Rightarrow>
         (case dc_request now ctx_deadline s command dc_auth of
            (Inl e, acts) \<Rightarrow> (Inl e, DcOpened address # acts @ [DcClosed])
          | (Inr u, acts) \<Rightarrow> (Inr u, DcOpened address # acts)))"

definition dc_supports ::
  "int \<Rightarrow> int option \<Rightarrow> request_script \<Rightarrow> (dc_error + bool) \<times> dc_act list" where
  "dc_supports now ctx_deadline s =
     dc_request now ctx_deadline s (''caplist'' @ [CHR 0x0A])
       (\<lambda>line. case parse_temperature_capability line of
           Capable v \<Rightarrow> Inr v | r \<Rightarrow> Inl (DcCapability r))"

definition dc_temperature ::
  "int \<Rightarrow> int option \<Rightarrow> request_script \<Rightarrow> (dc_error + int) \<times> dc_act list" where
  "dc_temperature now ctx_deadline s =
     dc_request now ctx_deadline s (''get 1 temperature_reading'' @ [CHR 0x0A])
       (\<lambda>line. case parse_temperature line of Inl e \<Rightarrow> Inl (DcTemperature e) | Inr v \<Rightarrow> Inr v)"

subsection \<open>What the protocol accepts\<close>

text \<open>The authentication line is a line of three fields the camera can split again.\<close>

lemma authentication_command_fields:
  assumes "authentication_command d tok = Some line" and "list_all printable tok"
  shows "str_fields line = [''app'', itoa (uint d), tok]"
proof -
  from assms(1) have l: "line = join_sp [''app'', itoa (uint d), tok] @ [CHR 0x0A]" and t: "tok \<noteq> []"
    by (auto simp: authentication_command_def split: if_splits)
  have "list_all word_field [''app'', itoa (uint d), tok]"
    using assms(2) t itoa_word_field by (simp add: word_field_def printable_def)
  then show ?thesis using fields_join_nl unfolding l by blast
qed

text \<open>The answer the camera sends for a reading.\<close>

definition temperature_line :: "int \<Rightarrow> string" where
  "temperature_line raw = join_sp [''get'', ''1'', temperature_capability, itoa raw] @ [CHR 0x0A]"

definition reading_ok :: "int \<Rightarrow> bool" where
  "reading_ok raw \<longleftrightarrow> 0 < raw \<and> raw < 500"

lemma temperature_line_fields:
  "str_fields (temperature_line raw) = [''get'', ''1'', temperature_capability, itoa raw]"
  unfolding temperature_line_def
  using itoa_word_field [of raw]
  by (intro fields_join_nl) (simp add: word_field_def temperature_capability_def printable_def)

lemma parse_temperature_line: "reading_ok raw \<Longrightarrow> parse_temperature (temperature_line raw) = Inr raw"
  using atoi_itoa [of raw]
  by (simp add: parse_temperature_def temperature_line_fields reading_ok_def)

interpretation temperature_wire: wire_format reading_ok temperature_line parse_temperature
  by unfold_locales (rule parse_temperature_line)

lemma parse_temperature_range: "parse_temperature line = Inr raw \<Longrightarrow> reading_ok raw"
  by (auto simp: parse_temperature_def Let_def reading_ok_def split: if_splits option.splits)

lemma atoi_itoa_only:
  assumes "atoi (itoa v) = Some w"
  shows "w = v"
proof (cases "v < 0")
  case True
  then show ?thesis using assms by (simp add: atoi_def itoa_def Let_def split: if_splits)
next
  case False
  then have "hd (itoa v) \<noteq> CHR ''-''" "hd (itoa v) \<noteq> CHR ''+''"
    using hd_digit_not_sign [OF dec_digits_digits dec_digits_nonempty] by (simp_all add: itoa_def)
  with False assms show ?thesis by (simp add: atoi_def itoa_def Let_def split: if_splits)
qed

text \<open>The temperature parser accepts a line exactly when it consists of the four expected
  fields with a number strictly between 0 and 500, and returns that number; every reading in
  that range the camera prints is read back.\<close>

theorem temperature_accepts:
  "(parse_temperature line = Inr raw) =
     (\<exists>f. str_fields line = [''get'', ''1'', temperature_capability, f] \<and> atoi f = Some raw \<and> reading_ok raw)
   \<and> (case parse_temperature (temperature_line v) of Inl _ \<Rightarrow> \<not> reading_ok v | Inr w \<Rightarrow> w = v \<and> reading_ok v)"
proof (rule conjI)
  have four: "length fs = 4 \<longleftrightarrow> (\<exists>a b c d. fs = [a, b, c, d])" for fs :: "string list"
    by (auto simp: length_Suc_conv numeral_eq_Suc)
  show "(parse_temperature line = Inr raw) = (\<exists>f. str_fields line = [''get'', ''1'', temperature_capability, f]
      \<and> atoi f = Some raw \<and> reading_ok raw)"
    unfolding parse_temperature_def Let_def
    by (cases "length (str_fields line) = 4")
      (auto simp: four reading_ok_def split: option.splits)
  show "case parse_temperature (temperature_line v) of Inl _ \<Rightarrow> \<not> reading_ok v | Inr w \<Rightarrow> w = v \<and> reading_ok v"
  proof (cases "reading_ok v")
    case True
    then show ?thesis by (simp add: parse_temperature_line)
  next
    case False
    have "parse_temperature (temperature_line v) \<noteq> Inr w" for w
    proof
      assume w: "parse_temperature (temperature_line v) = Inr w"
      then have "reading_ok w" by (rule parse_temperature_range)
      moreover have "atoi (itoa v) = Some w"
        using w by (simp add: parse_temperature_def temperature_line_fields split: option.splits if_splits)
      ultimately show False using atoi_itoa_only False by metis
    qed
    with False show ?thesis by (cases "parse_temperature (temperature_line v)") auto
  qed
qed

lemma capability_loop_within:
  assumes "0 \<le> index" and "2 + 5 * count \<le> int (length fs)" and "count < 2 ^ 60"
  shows "capability_loop fs index count =
     Capable (\<exists>i. index \<le> i \<and> i < count \<and> fs ! nat (2 + 5 * i) = temperature_capability)"
  using assms
proof (induction fs index count rule: capability_loop.induct)
  case (1 fs index count)
  show ?case
  proof (cases "count \<le> index")
    case True
    then show ?thesis by (subst capability_loop.simps) auto
  next
    case False
    have w: "wrap64 (2 + wrap64 (index * 5)) = 2 + 5 * index"
      using False "1.prems" by (simp add: wrap64_id mult.commute)
    have b: "\<not> (2 + 5 * index < 0 \<or> int (length fs) \<le> 2 + 5 * index)" using False "1.prems" by linarith
    show ?thesis
    proof (cases "fs ! nat (2 + 5 * index) = temperature_capability")
      case True
      then show ?thesis using False b by (subst capability_loop.simps) (auto simp: w Let_def)
    next
      case no: False
      have "capability_loop fs index count = capability_loop fs (index + 1) count"
        using False b no by (subst capability_loop.simps) (simp add: w Let_def)
      also have "\<dots> = Capable (\<exists>i. index + 1 \<le> i \<and> i < count \<and> fs ! nat (2 + 5 * i) = temperature_capability)"
        using "1.IH" [OF False refl] w b no "1.prems" by simp
      also have "(\<exists>i. index + 1 \<le> i \<and> i < count \<and> fs ! nat (2 + 5 * i) = temperature_capability)
          \<longleftrightarrow> (\<exists>i. index \<le> i \<and> i < count \<and> fs ! nat (2 + 5 * i) = temperature_capability)"
        using no by (metis add1_zle_eq order_le_less)
      finally show ?thesis .
    qed
  qed
qed

text \<open>For a capability list that announces fewer than 2^60 entries the parser never indexes
  past the fields: it accepts exactly a list with five fields per announced entry, and says
  whether one of the entries is the temperature reading.\<close>

theorem capability_accepts:
  assumes "str_fields line = ''caplist'' # n # rest" and "atoi n = Some count" and "count < 2 ^ 60"
  shows "parse_temperature_capability line =
     (if 0 \<le> count \<and> int (length rest) = 5 * count
      then Capable (\<exists>i. 0 \<le> i \<and> i < count \<and> rest ! nat (5 * i) = temperature_capability)
      else CapMalformed)"
proof (cases "0 \<le> count")
  case False
  then show ?thesis using assms by (simp add: parse_temperature_capability_def)
next
  case True
  have w: "wrap64 (2 + wrap64 (count * 5)) = 2 + 5 * count"
    using True assms(3) by (simp add: wrap64_id mult.commute)
  show ?thesis
  proof (cases "int (length rest) = 5 * count")
    case False
    then show ?thesis using True assms w by (simp add: parse_temperature_capability_def)
  next
    case len: True
    have "(''caplist'' # n # rest) ! nat (2 + 5 * i) = rest ! nat (5 * i)" if "0 \<le> i" for i :: int
      using that by (simp add: nat_add_distrib)
    then have "(\<exists>i. 0 \<le> i \<and> i < count \<and> (''caplist'' # n # rest) ! nat (2 + 5 * i) = temperature_capability)
        \<longleftrightarrow> (\<exists>i. 0 \<le> i \<and> i < count \<and> rest ! nat (5 * i) = temperature_capability)" by metis
    then show ?thesis
      using True assms w len capability_loop_within [of 0 count "''caplist'' # n # rest"]
      by (simp add: parse_temperature_capability_def)
  qed
qed

theorem capability_accepts_witness:
  "parse_temperature_capability (''caplist 1 temperature_reading 0 0 0 0'' @ [CHR 0x0A]) = Capable True"
proof -
  have f: "str_fields (''caplist 1 temperature_reading 0 0 0 0'' @ [CHR 0x0A])
      = ''caplist'' # ''1'' # [''temperature_reading'', ''0'', ''0'', ''0'', ''0'']" by code_simp
  have a: "atoi ''1'' = Some 1" by code_simp
  from capability_accepts [OF f a] show ?thesis
    by (auto simp: temperature_capability_def intro: exI [of _ 0])
qed

text \<open>A capability answer whose announced count times five wraps around at 64 bits passes the
  length check, and the loop then indexes past the fields: the parser panics instead of
  reporting a malformed answer.\<close>

theorem capability_overflow_panics:
  "parse_temperature_capability (''caplist 3689348814741910324 a b c d'' @ [CHR 0x0A]) = CapPanic"
proof -
  have f: "str_fields (''caplist 3689348814741910324 a b c d'' @ [CHR 0x0A])
      = [''caplist'', ''3689348814741910324'', ''a'', ''b'', ''c'', ''d'']" by code_simp
  have a: "atoi ''3689348814741910324'' = Some 3689348814741910324" by code_simp
  show ?thesis
    unfolding parse_temperature_capability_def Let_def f
    by (simp add: a wrap64_def)
      (subst capability_loop.simps, simp add: wrap64_def temperature_capability_def,
        subst capability_loop.simps, simp add: wrap64_def)
qed

text \<open>A connect that fails has closed the connection it opened; one that succeeds sent exactly
  the authentication command of the camera, got an accepting answer, and left the connection
  open without a deadline.\<close>

theorem connect_leaves_no_socket:
  "case dc_connect now ctx_deadline dial_err s cam of
     (Inl e, acts) \<Rightarrow> acts = [] \<or> last acts = DcClosed
   | (Inr u, acts) \<Rightarrow> \<exists>command deadline line. authentication_command (dc_device_id cam) (dc_token cam) = Some command
       \<and> rq_line s = Inr line \<and> parse_authentication line = Inr ()
       \<and> acts = [DcOpened (join_host_port (dc_host cam) (itoa (dc_port cam))), DcDeadline deadline,
                 DcSent command, DcCleared] \<and> deadline \<le> now + 10 * 1000000000"
  by (auto simp: dc_connect_def dc_request_def dc_auth_def Let_def
      split: option.split sum.split prod.split)

end
