(* ===== verification/Control_Supervisor.thy ===== *)
theory Control_Supervisor
  imports Device_Control
begin

text \<open>
  The supervisor of the camera control loops (internal/devicecontrol/supervisor.go): the table
  of workers that \<open>Reconcile\<close> brings in line with the cameras, and the workers as a step relation.
  A worker is a number (the pointer of the source) with the camera it serves.  A report to the
  sink is two steps, as in the code: the check under the lock that the worker still owns its
  camera, and the call on the sink after it.
\<close>

subsection \<open>Reconcile\<close>

record worker =
  wk_id :: nat
  wk_camera :: dc_camera

type_synonym worker_table = "(string \<times> worker) list \<times> nat"

definition usable_camera :: "dc_camera \<Rightarrow> bool" where
  "usable_camera c \<longleftrightarrow>
     \<not> (dc_id c = [] \<or> dc_device_id c = 0 \<or> dc_token c = [] \<or> dc_host c = [] \<or> dc_port c < 1)"

definition wanted_workers :: "dc_camera list \<Rightarrow> (string \<times> dc_camera) list" where
  "wanted_workers cams =
     fold (\<lambda>c m. if usable_camera c then AList.update (dc_id c) c m else m) cams []"

fun add_workers :: "(string \<times> dc_camera) list \<Rightarrow> worker_table \<Rightarrow> worker_table" where
  "add_workers [] t = t"
| "add_workers ((k, c) # cs) (tbl, next) =
     add_workers cs (AList.update k \<lparr>wk_id = next, wk_camera = c\<rparr> tbl, next + 1)"

text \<open>The new table, and the workers that were cancelled.\<close>

definition reconcile_workers :: "worker_table \<Rightarrow> dc_camera list \<Rightarrow> worker_table \<times> worker list" where
  "reconcile_workers t cams =
     (let wanted = wanted_workers cams;
          keep = (\<lambda>e. map_of wanted (fst e) = Some (wk_camera (snd e)));
          kept = filter keep (fst t)
      in (add_workers (filter (\<lambda>e. map_of kept (fst e) = None) wanted) (kept, snd t),
          map snd (filter (\<lambda>e. \<not> keep e) (fst t))))"

definition workers_ok :: "worker_table \<Rightarrow> bool" where
  "workers_ok t \<longleftrightarrow> distinct (map fst (fst t)) \<and> (\<forall>k w. map_of (fst t) k = Some w \<longrightarrow> wk_id w < snd t)"

lemma distinct_wanted: "distinct (map fst (wanted_workers cams))"
proof -
  have "distinct (map fst (fold (\<lambda>c m. if usable_camera c then AList.update (dc_id c) c m else m) cams al))"
    if "distinct (map fst al)" for al :: "(string \<times> dc_camera) list"
    using that by (induction cams arbitrary: al) (auto simp: AList.distinct_update)
  from this [of "[]"] show ?thesis by (simp add: wanted_workers_def)
qed

text \<open>Adding workers under keys the table does not have.\<close>

lemma add_workers_lookup:
  "add_workers cs t = t' \<Longrightarrow> distinct (map fst cs) \<Longrightarrow> workers_ok t \<Longrightarrow>
     workers_ok t' \<and> (\<forall>k. case map_of cs k of
         None \<Rightarrow> map_of (fst t') k = map_of (fst t) k
       | Some c \<Rightarrow> \<exists>i. snd t \<le> i \<and> map_of (fst t') k = Some \<lparr>wk_id = i, wk_camera = c\<rparr>) \<and> snd t \<le> snd t'"
proof (induction cs t arbitrary: t' rule: add_workers.induct)
  case (1 t)
  then show ?case by simp
next
  case (2 k c cs tbl n)
  let ?t = "(AList.update k \<lparr>wk_id = n, wk_camera = c\<rparr> tbl, n + 1)"
  have ok: "workers_ok ?t"
    using "2.prems"(3) by (auto simp: workers_ok_def AList.distinct_update AList.update_conv' less_Suc_eq
        split: if_splits)
  have ih: "workers_ok t'" "\<And>j. case map_of cs j of
         None \<Rightarrow> map_of (fst t') j = map_of (fst ?t) j
       | Some c \<Rightarrow> \<exists>i. snd ?t \<le> i \<and> map_of (fst t') j = Some \<lparr>wk_id = i, wk_camera = c\<rparr>" "snd ?t \<le> snd t'"
    using "2.IH" [of t'] "2.prems" ok by auto
  have kn: "map_of cs k = None" using "2.prems"(2) by (simp add: map_of_eq_None_iff)
  have "case map_of ((k, c) # cs) j of
         None \<Rightarrow> map_of (fst t') j = map_of tbl j
       | Some c \<Rightarrow> \<exists>i. n \<le> i \<and> map_of (fst t') j = Some \<lparr>wk_id = i, wk_camera = c\<rparr>" for j
  proof (cases "j = k")
    case True
    have "map_of (fst t') k = map_of (fst ?t) k" using ih(2) [of k] unfolding kn by simp
    then show ?thesis using True by (auto simp: AList.update_conv')
  next
    case False
    show ?thesis using ih(2) [of j] False by (cases "map_of cs j") (auto simp: AList.update_conv')
  qed
  then have "\<forall>j. case map_of ((k, c) # cs) j of
         None \<Rightarrow> map_of (fst t') j = map_of (fst (tbl, n)) j
       | Some c \<Rightarrow> \<exists>i. snd (tbl, n) \<le> i \<and> map_of (fst t') j = Some \<lparr>wk_id = i, wk_camera = c\<rparr>"
    unfolding fst_conv snd_conv by blast
  moreover have "snd (tbl, n) \<le> snd t'" using ih(3) by simp
  ultimately show ?case using ih(1) by blast
qed

lemma reconcile_workers_lookup:
  assumes ok: "workers_ok t" and run: "reconcile_workers t cams = (t', gone)"
  shows "workers_ok t'" and "snd t \<le> snd t'"
    and "case map_of (wanted_workers cams) k of
        None \<Rightarrow> map_of (fst t') k = None
      | Some c \<Rightarrow>
          (if map_option wk_camera (map_of (fst t) k) = Some c then map_of (fst t') k = map_of (fst t) k
           else \<exists>i. snd t \<le> i \<and> map_of (fst t') k = Some \<lparr>wk_id = i, wk_camera = c\<rparr>)"
proof -
  define wanted where "wanted = wanted_workers cams"
  define kept where "kept = filter (\<lambda>e. map_of wanted (fst e) = Some (wk_camera (snd e))) (fst t)"
  define cs where "cs = filter (\<lambda>e. map_of kept (fst e) = None) wanted"
  have t': "add_workers cs (kept, snd t) = t'"
    using run by (auto simp: reconcile_workers_def Let_def wanted_def kept_def cs_def)
  have d: "distinct (map fst (fst t))" using ok by (simp add: workers_ok_def)
  have kept_iff: "map_of kept j = Some w \<longleftrightarrow> map_of (fst t) j = Some w \<and> map_of wanted j = Some (wk_camera w)" for j w
    unfolding kept_def map_of_filter_distinct [OF d] fst_conv snd_conv by (rule guarded_some)
  have dk: "distinct (map fst kept)" unfolding kept_def using d by (induction "fst t" arbitrary: t) (auto simp: distinct_map_filter)
  have kok: "workers_ok (kept, snd t)"
    using ok dk unfolding workers_ok_def fst_conv snd_conv kept_iff by blast
  have dw: "distinct (map fst wanted)" unfolding wanted_def by (rule distinct_wanted)
  have dc: "distinct (map fst cs)" unfolding cs_def using dw by (simp add: distinct_map_filter)
  have look_cs: "map_of cs j = (case map_of wanted j of None \<Rightarrow> None
      | Some c \<Rightarrow> if map_of kept j = None then Some c else None)" for j
    unfolding cs_def map_of_filter_distinct [OF dw] fst_conv ..
  note res = add_workers_lookup [OF t' dc kok]
  show "workers_ok t'" "snd t \<le> snd t'" using res by simp_all
  have at_k: "case map_of cs k of
         None \<Rightarrow> map_of (fst t') k = map_of kept k
       | Some c \<Rightarrow> \<exists>i. snd t \<le> i \<and> map_of (fst t') k = Some \<lparr>wk_id = i, wk_camera = c\<rparr>"
    using spec [OF conjunct1 [OF conjunct2 [OF res]], of k] unfolding fst_conv snd_conv .
  show "case map_of (wanted_workers cams) k of
        None \<Rightarrow> map_of (fst t') k = None
      | Some c \<Rightarrow>
          (if map_option wk_camera (map_of (fst t) k) = Some c then map_of (fst t') k = map_of (fst t) k
           else \<exists>i. snd t \<le> i \<and> map_of (fst t') k = Some \<lparr>wk_id = i, wk_camera = c\<rparr>)"
  proof (cases "map_of wanted k")
    case None
    have "map_of kept k = None"
    proof (cases "map_of kept k")
      case (Some w)
      then show ?thesis using None kept_iff by (metis option.distinct(1))
    qed
    then show ?thesis using at_k None look_cs [of k] unfolding wanted_def by simp
  next
    case (Some c)
    show ?thesis
    proof (cases "map_option wk_camera (map_of (fst t) k) = Some c")
      case True
      then obtain w where w: "map_of (fst t) k = Some w" "wk_camera w = c" by blast
      then have kw: "map_of kept k = Some w" using Some kept_iff by blast
      then have "map_of cs k = None" using Some by (simp add: look_cs)
      then show ?thesis using at_k True kw w(1) Some unfolding wanted_def by simp
    next
      case False
      have "map_of kept k = None"
      proof (cases "map_of kept k")
        case (Some w)
        then show ?thesis using False \<open>map_of wanted k = Some c\<close> kept_iff
          by (metis option.inject option.simps(9))
      qed
      then have "map_of cs k = Some c" using Some by (simp add: look_cs)
      then show ?thesis using at_k False Some unfolding wanted_def by auto
    qed
  qed
qed

interpretation worker_table: keyed_table
    "\<lambda>t cams. fst (reconcile_workers t cams)" "\<lambda>t. map_of (fst t)" wk_camera
    "\<lambda>cams. map_of (wanted_workers cams)" workers_ok
proof
  fix t :: worker_table and cams k w
  obtain t' gone where r: "reconcile_workers t cams = (t', gone)" by fastforce
  assume ok: "workers_ok t"
  note look = reconcile_workers_lookup(3) [OF ok r, of k]
  show "workers_ok (fst (reconcile_workers t cams))" using reconcile_workers_lookup(1) [OF ok r] by (simp add: r)
  show "map_of (fst (fst (reconcile_workers t cams))) k = Some w"
    if "map_of (fst t) k = Some w" "map_of (wanted_workers cams) k = Some (wk_camera w)"
    using look that by (simp add: r)
  show "map_of (wanted_workers cams) k = Some (wk_camera w)"
    if w: "map_of (fst (fst (reconcile_workers t cams))) k = Some w"
  proof (cases "map_of (wanted_workers cams) k")
    case None
    then show ?thesis using look w by (simp add: r)
  next
    case (Some c)
    then have "wk_camera w = c" using look w by (auto simp: r split: if_splits)
    with Some show ?thesis by simp
  qed
qed

text \<open>A reconcile leaves the worker of every camera that is wanted as it was untouched, and after
  it every worker runs a camera of the list that can be controlled at all; every such camera
  has a worker, and one that is new has a number no worker had before.\<close>

theorem reconcile_workers_exact:
  assumes "reconcile_workers t cams = (t', gone)" and "workers_ok t"
  shows "workers_ok t' \<and> (\<forall>k. map_option wk_camera (map_of (fst t') k) = map_of (wanted_workers cams) k)
    \<and> (\<forall>k w. map_of (fst t) k = Some w \<longrightarrow>
         (map_of (fst t') k = Some w) = (map_of (wanted_workers cams) k = Some (wk_camera w)))"
proof -
  have "map_option wk_camera (map_of (fst t') k) = map_of (wanted_workers cams) k" for k
    using reconcile_workers_lookup(3) [OF assms(2,1), of k] by (auto split: option.splits if_splits)
  moreover have "(map_of (fst t') k = Some w) = (map_of (wanted_workers cams) k = Some (wk_camera w))"
    if "map_of (fst t) k = Some w" for k w
    using worker_table.survives_iff [OF assms(2) that, of cams] by (simp add: assms(1))
  ultimately show ?thesis using reconcile_workers_lookup(1) [OF assms(2,1)] by blast
qed

definition sample_cam :: dc_camera where
  "sample_cam = \<lparr>dc_id = ''U1'', dc_device_id = 7, dc_token = ''ab'', dc_host = ''h'', dc_port = 443\<rparr>"

theorem reconcile_workers_exact_witness:
  "map_option wk_camera (map_of (fst (fst (reconcile_workers
      ([(''U1'', \<lparr>wk_id = 0, wk_camera = sample_cam\<rparr>)], 1)
      [sample_cam\<lparr>dc_port := 444\<rparr>]))) ''U1'') = Some (sample_cam\<lparr>dc_port := 444\<rparr>)"
proof -
  let ?t = "([(''U1'', \<lparr>wk_id = 0, wk_camera = sample_cam\<rparr>)], 1) :: worker_table"
  let ?cams = "[sample_cam\<lparr>dc_port := 444\<rparr>]"
  obtain t' gone where r: "reconcile_workers ?t ?cams = (t', gone)" by fastforce
  have "workers_ok ?t" by (simp add: workers_ok_def)
  moreover have "map_of (wanted_workers ?cams) ''U1'' = Some (sample_cam\<lparr>dc_port := 444\<rparr>)" by code_simp
  ultimately have "map_option wk_camera (map_of (fst t') ''U1'') = Some (sample_cam\<lparr>dc_port := 444\<rparr>)"
    using reconcile_workers_exact [OF r] by metis
  then show ?thesis unfolding r fst_conv .
qed

subsection \<open>The workers\<close>

datatype report = Available bool | Supported bool | Reading int

text \<open>Where a worker is.  \<open>Announce\<close>, \<open>SayYes\<close>, \<open>SayNo\<close> and \<open>Publish\<close> have a report due, to be
  checked first; \<open>Passed\<close> has checked and is about to call the sink.\<close>

datatype spot =
    Announce
  | Connecting
  | Asking
  | SayYes
  | SayNo
  | ReadNext
  | Publish int
  | Polling
  | Retrying
  | Retiring
  | Passed report spot
  | Gone

fun due :: "spot \<Rightarrow> (report \<times> spot) option" where
  "due Announce = Some (Available False, Connecting)"
| "due SayYes = Some (Supported True, ReadNext)"
| "due SayNo = Some (Supported False, Retiring)"
| "due (Publish v) = Some (Reading v, Polling)"
| "due _ = None"

record control =
  ct_table :: worker_table
  ct_spot :: "nat \<Rightarrow> spot option"
  ct_camera :: "nat \<Rightarrow> string"
  ct_cancelled :: "nat set"
  ct_log :: "(nat \<times> string \<times> report) list"

definition go :: "nat \<Rightarrow> spot \<Rightarrow> control \<Rightarrow> control" where
  "go w p s = s\<lparr>ct_spot := (ct_spot s)(w \<mapsto> p)\<rparr>"

definition is_current :: "control \<Rightarrow> nat \<Rightarrow> bool" where
  "is_current s w \<longleftrightarrow> map_option wk_id (map_of (fst (ct_table s)) (ct_camera s w)) = Some w"

lemma go_simps [simp, frame_simps]:
  "ct_table (go w p s) = ct_table s" "ct_camera (go w p s) = ct_camera s"
  "ct_cancelled (go w p s) = ct_cancelled s" "ct_log (go w p s) = ct_log s"
  "ct_spot (go w p s) v = (if v = w then Some p else ct_spot s v)"
  by (simp_all add: go_def)

definition new_workers :: "worker_table \<Rightarrow> nat \<Rightarrow> worker list" where
  "new_workers t from = filter (\<lambda>w. from \<le> wk_id w) (map snd (fst t))"

text \<open>\<open>Reconcile\<close> on the running system: the workers it drops are cancelled, the new ones begin.\<close>

definition reconcile_control :: "dc_camera list \<Rightarrow> control \<Rightarrow> control" where
  "reconcile_control cams s =
     (let (t', gone) = reconcile_workers (ct_table s) cams;
          fresh = new_workers t' (snd (ct_table s))
      in s\<lparr>ct_table := t', ct_cancelled := ct_cancelled s \<union> set (map wk_id gone),
           ct_spot := (\<lambda>w. if w \<in> set (map wk_id fresh) then Some Announce else ct_spot s w),
           ct_camera := (\<lambda>w. case find (\<lambda>x. wk_id x = w) fresh of
               Some x \<Rightarrow> dc_id (wk_camera x) | None \<Rightarrow> ct_camera s w)\<rparr>)"

definition close_control :: "control \<Rightarrow> control" where
  "close_control s = s\<lparr>ct_table := ([], snd (ct_table s)),
     ct_cancelled := ct_cancelled s \<union> set (map (wk_id \<circ> snd) (fst (ct_table s)))\<rparr>"

inductive control_step :: "control \<Rightarrow> control \<Rightarrow> bool" where
  check_pass: "ct_spot s w = Some p \<Longrightarrow> due p = Some (r, q) \<Longrightarrow> is_current s w \<Longrightarrow>
     control_step s (go w (Passed r q) s)"
| check_fail: "ct_spot s w = Some p \<Longrightarrow> due p = Some (r, q) \<Longrightarrow> \<not> is_current s w \<Longrightarrow>
     control_step s (go w q s)"
| report: "ct_spot s w = Some (Passed r q) \<Longrightarrow>
     control_step s ((go w q s)\<lparr>ct_log := (w, ct_camera s w, r) # ct_log s\<rparr>)"
| connected: "ct_spot s w = Some Connecting \<Longrightarrow> control_step s (go w Asking s)"
| unreachable: "ct_spot s w = Some Connecting \<Longrightarrow> control_step s (go w Retrying s)"
| no_answer: "ct_spot s w = Some Asking \<Longrightarrow> control_step s (go w Retrying s)"
| capable: "ct_spot s w = Some Asking \<Longrightarrow> control_step s (go w SayYes s)"
| incapable: "ct_spot s w = Some Asking \<Longrightarrow> control_step s (go w SayNo s)"
| read: "ct_spot s w = Some ReadNext \<Longrightarrow> control_step s (go w (Publish v) s)"
| read_failed: "ct_spot s w = Some ReadNext \<Longrightarrow> control_step s (go w Retrying s)"
| poll: "ct_spot s w = Some Polling \<Longrightarrow> control_step s (go w ReadNext s)"
| poll_cancelled: "ct_spot s w = Some Polling \<Longrightarrow> w \<in> ct_cancelled s \<Longrightarrow> control_step s (go w Retiring s)"
| retry: "ct_spot s w = Some Retrying \<Longrightarrow> control_step s (go w Announce s)"
| retry_cancelled: "ct_spot s w = Some Retrying \<Longrightarrow> w \<in> ct_cancelled s \<Longrightarrow> control_step s (go w Retiring s)"
| retire: "ct_spot s w = Some Retiring \<Longrightarrow> is_current s w \<Longrightarrow>
     control_step s ((go w (Passed (Available False) Gone) s)
        \<lparr>ct_table := (AList.delete (ct_camera s w) (fst (ct_table s)), snd (ct_table s))\<rparr>)"
| retire_lost: "ct_spot s w = Some Retiring \<Longrightarrow> \<not> is_current s w \<Longrightarrow> control_step s (go w Gone s)"
| reconcile: "control_step s (reconcile_control cams s)"
| close: "control_step s (close_control s)"

inductive_cases control_stepE: "control_step s s'"

inductive_simps due_report: "control_step s s'"

text \<open>What a worker has said so far.\<close>

definition said :: "control \<Rightarrow> nat \<Rightarrow> (string \<times> report) list" where
  "said s w = map snd (filter (\<lambda>e. fst e = w) (ct_log s))"

text \<open>A worker that was started, and is no longer the current one of its camera.\<close>

definition stale :: "control \<Rightarrow> nat \<Rightarrow> bool" where
  "stale s w \<longleftrightarrow> w < snd (ct_table s) \<and> (\<forall>k x. map_of (fst (ct_table s)) k = Some x \<longrightarrow> wk_id x \<noteq> w)"

text \<open>The report it has checked already and will still make.\<close>

fun passed :: "spot option \<Rightarrow> report list" where
  "passed (Some (Passed r q)) = [r]"
| "passed _ = []"

definition pending :: "control \<Rightarrow> nat \<Rightarrow> (string \<times> report) list" where
  "pending s w = map (\<lambda>r. (ct_camera s w, r)) (passed (ct_spot s w))"

lemma passed_length: "length (passed p) \<le> 1"
  by (cases p rule: passed.cases) auto

lemma passed_not: "(\<And>r q. p \<noteq> Passed r q) \<Longrightarrow> passed (Some p) = []"
  by (cases p) auto

lemma pending_cong:
  "ct_spot s' w = ct_spot s w \<Longrightarrow> ct_camera s' w = ct_camera s w \<Longrightarrow> pending s' w = pending s w"
  by (simp add: pending_def)

definition control_ok :: "control \<Rightarrow> bool" where
  "control_ok s \<longleftrightarrow> workers_ok (ct_table s) \<and>
     (\<forall>w r q. ct_spot s w = Some (Passed r q) \<longrightarrow> (\<forall>r' q'. q \<noteq> Passed r' q'))"

lemma stale_not_current: "stale s w \<Longrightarrow> \<not> is_current s w"
  by (auto simp: stale_def is_current_def)

lemma due_not_passed: "due p = Some (r, q) \<Longrightarrow> q \<noteq> Passed r' q' \<and> p \<noteq> Passed r' q'"
  by (cases p) auto

lemma workers_ok_delete: "workers_ok t \<Longrightarrow> workers_ok (AList.delete k (fst t), snd t)"
  by (auto simp: workers_ok_def AList.distinct_delete AList.delete_conv' split: if_splits)

lemma workers_ok_empty: "workers_ok ([], n)"
  by (simp add: workers_ok_def)

lemma new_workers_range: "w \<in> wk_id ` set (new_workers t n) \<Longrightarrow> n \<le> w"
  by (auto simp: new_workers_def)

lemma find_new_workers: "w < n \<Longrightarrow> find (\<lambda>x. wk_id x = w) (new_workers t n) = None"
  by (auto simp: find_None_iff new_workers_def)

text \<open>One step keeps a stale worker stale and only moves its pending report to the log.\<close>

lemma reconcile_control_stale:
  assumes "control_ok s" and "stale s w"
  shows "stale (reconcile_control cams s) w" and "ct_spot (reconcile_control cams s) w = ct_spot s w"
    and "ct_camera (reconcile_control cams s) w = ct_camera s w"
    and "ct_log (reconcile_control cams s) = ct_log s"
proof -
  obtain t' gone where r: "reconcile_workers (ct_table s) cams = (t', gone)" by fastforce
  have ok: "workers_ok (ct_table s)" using assms(1) by (simp add: control_ok_def)
  have lt: "w < snd (ct_table s)" using assms(2) by (simp add: stale_def)
  have s': "reconcile_control cams s = s\<lparr>ct_table := t', ct_cancelled := ct_cancelled s \<union> set (map wk_id gone),
           ct_spot := (\<lambda>w. if w \<in> set (map wk_id (new_workers t' (snd (ct_table s)))) then Some Announce else ct_spot s w),
           ct_camera := (\<lambda>w. case find (\<lambda>x. wk_id x = w) (new_workers t' (snd (ct_table s))) of
               Some x \<Rightarrow> dc_id (wk_camera x) | None \<Rightarrow> ct_camera s w)\<rparr>"
    by (simp add: reconcile_control_def r Let_def)
  have "wk_id x \<noteq> w" if "map_of (fst t') k = Some x" for k x
    using reconcile_workers_lookup(3) [OF ok r, of k] that assms(2) lt
    by (auto simp: stale_def split: option.splits if_splits)
  moreover have "w < snd t'" using reconcile_workers_lookup(2) [OF ok r] lt by simp
  ultimately show "stale (reconcile_control cams s) w" by (simp add: s' stale_def)
  have "w \<notin> wk_id ` set (new_workers t' (snd (ct_table s)))" using new_workers_range lt by fastforce
  then show "ct_spot (reconcile_control cams s) w = ct_spot s w" by (simp add: s')
  show "ct_camera (reconcile_control cams s) w = ct_camera s w" using find_new_workers [OF lt] by (simp add: s')
  show "ct_log (reconcile_control cams s) = ct_log s" by (simp add: s')
qed

lemma reconcile_control_ok: "control_ok s \<Longrightarrow> control_ok (reconcile_control cams s)"
  using reconcile_workers_lookup(1) [of "ct_table s"]
  by (auto simp: control_ok_def reconcile_control_def Let_def split: prod.splits if_splits)

lemma control_ok_step:
  assumes "control_step s s'" and "control_ok s"
  shows "control_ok s'"
  using assms
proof cases
  case (reconcile cams)
  then show ?thesis using reconcile_control_ok assms(2) by simp
next
  case close
  then show ?thesis using assms(2) by (auto simp: control_ok_def close_control_def workers_ok_empty)
next
  case (retire w)
  then show ?thesis using assms(2) workers_ok_delete by (auto simp: control_ok_def split: if_splits)
next
  case (check_pass w p r q)
  then show ?thesis using assms(2) due_not_passed by (auto simp: control_ok_def split: if_splits)
next
  case (check_fail w p r q)
  then show ?thesis using assms(2) due_not_passed by (auto simp: control_ok_def split: if_splits)
next
  case (report w r q)
  then show ?thesis using assms(2) by (auto simp: control_ok_def split: if_splits)
qed (auto simp: control_ok_def split: if_splits)

lemma stale_step:
  assumes "control_step s s'" and "control_ok s" and "stale s w"
  shows "stale s' w \<and> pending s' w @ said s' w = pending s w @ said s w"
  using assms(1)
proof cases
  case (reconcile cams)
  note st = reconcile_control_stale [OF assms(2,3), of cams]
  have "pending s' w = pending s w" by (rule pending_cong) (simp_all add: reconcile st(2,3))
  moreover have "said s' w = said s w" unfolding said_def reconcile st(4) ..
  ultimately show ?thesis using st(1) reconcile by simp
next
  case close
  have "pending s' w = pending s w" by (rule pending_cong) (simp_all add: close close_control_def)
  moreover have "said s' w = said s w" by (simp add: close close_control_def said_def)
  ultimately show ?thesis using assms(3) by (simp add: close close_control_def stale_def)
next
  case (retire v)
  then have "v \<noteq> w" using stale_not_current [OF assms(3)] by auto
  with retire assms(3) show ?thesis
    by (auto simp: stale_def pending_def said_def AList.delete_conv' split: if_splits)
next
  case (check_pass v p r q)
  then have "v \<noteq> w" using stale_not_current [OF assms(3)] by auto
  with check_pass assms(3) show ?thesis by (simp add: stale_def pending_def said_def)
next
  case (check_fail v p r q)
  have "passed (Some q) = []" "passed (Some p) = []"
    using due_not_passed [OF check_fail(3)] by (auto intro!: passed_not)
  with check_fail assms(3) show ?thesis by (auto simp: stale_def pending_def said_def)
next
  case (report v r q)
  then have "q \<noteq> Passed r' q'" for r' q' using assms(2) by (auto simp: control_ok_def)
  then have "passed (Some q) = []" by (rule passed_not)
  with report assms(3) show ?thesis by (auto simp: stale_def pending_def said_def)
qed (use assms(3) in \<open>auto simp: stale_def pending_def said_def\<close>)

text \<open>C23: once a worker has been replaced or dropped, whatever happens next it makes no report but
  the one whose ownership check it had already passed.\<close>

theorem stale_worker_silent:
  assumes "control_step\<^sup>*\<^sup>* s s'" and "control_ok s" and "stale s w"
  shows "pending s' w @ said s' w = pending s w @ said s w \<and> length (said s' w) \<le> length (said s w) + 1"
proof -
  from assms have "control_ok s' \<and> stale s' w \<and> pending s' w @ said s' w = pending s w @ said s w"
  proof (induction rule: rtranclp_induct)
    case base
    then show ?case by simp
  next
    case (step y z)
    then show ?case using control_ok_step stale_step by metis
  qed
  moreover have "length (pending s w) \<le> 1" using passed_length by (simp add: pending_def)
  moreover from calculation have "length (pending s' w) + length (said s' w)
      = length (pending s w) + length (said s w)" by (metis length_append)
  ultimately show ?thesis by simp
qed

definition one_worker :: control where
  "one_worker = \<lparr>ct_table = ([(''U1'', \<lparr>wk_id = 0, wk_camera = sample_cam\<rparr>)], 1),
     ct_spot = (\<lambda>w. if w = 0 then Some Announce else None),
     ct_camera = (\<lambda>w. if w = 0 then ''U1'' else []), ct_cancelled = {}, ct_log = []\<rparr>"

definition race1 :: control where
  "race1 = go 0 (Passed (Available False) Connecting) one_worker"

definition race2 :: control where
  "race2 = reconcile_control [sample_cam\<lparr>dc_port := 444\<rparr>] race1"

definition race3 :: control where
  "race3 = go 1 (Passed (Available False) Connecting) race2"

definition race4 :: control where
  "race4 = (go 1 Connecting race3)\<lparr>ct_log := [(1, ''U1'', Available False)]\<rparr>"

definition race5 :: control where
  "race5 = (go 0 Connecting race4)\<lparr>ct_log := [(0, ''U1'', Available False), (1, ''U1'', Available False)]\<rparr>"

lemma race_facts:
  "fst (ct_table race2) = [(''U1'', \<lparr>wk_id = 1, wk_camera = sample_cam\<lparr>dc_port := 444\<rparr>\<rparr>)]"
  "snd (ct_table race2) = 2" "ct_spot race2 (Suc 0) = Some Announce" "ct_camera race2 (Suc 0) = ''U1''"
  "ct_spot race2 0 = Some (Passed (Available False) Connecting)" "ct_camera race2 0 = ''U1''"
  "ct_log race2 = []"
  by code_simp+

lemma one_worker_ok: "control_ok one_worker"
  by (simp add: control_ok_def workers_ok_def one_worker_def)

lemma race_start: "control_step one_worker race1"
  unfolding race1_def
  by (rule control_step.check_pass [of _ _ Announce]) (simp_all add: one_worker_def is_current_def)

lemma race_end: "control_step\<^sup>*\<^sup>* race2 race5"
proof -
  have 1: "control_step race2 race3"
    unfolding race3_def
    by (rule control_step.check_pass [of _ _ Announce]) (simp_all add: race_facts is_current_def)
  have 2: "control_step race3 race4"
    using control_step.report [of race3 1 "Available False" Connecting]
    by (simp add: race3_def race4_def race_facts)
  have 3: "control_step race4 race5"
    using control_step.report [of race4 0 "Available False" Connecting]
    by (simp add: race3_def race4_def race5_def race_facts)
  from 1 2 3 show ?thesis by (meson r_into_rtranclp rtranclp_trans)
qed

text \<open>The report a replaced worker still makes can land after its successor's: a run from one
  worker in which a reconcile replaces it between its check and its report, the successor
  reports first and the old worker's report is the last word.\<close>

theorem stale_report_can_land_last:
  "\<exists>s. control_step\<^sup>*\<^sup>* one_worker s \<and> stale s 0 \<and> is_current s 1
     \<and> ct_log s = [(0, ''U1'', Available False), (1, ''U1'', Available False)]"
proof -
  have "control_step race1 race2" unfolding race2_def by (rule control_step.reconcile)
  with race_start race_end have "control_step\<^sup>*\<^sup>* one_worker race5"
    by (meson r_into_rtranclp rtranclp_trans)
  moreover have "stale race5 0" "is_current race5 1"
    by (simp_all add: stale_def is_current_def race5_def race4_def race3_def race_facts)
  moreover have "ct_log race5 = [(0, ''U1'', Available False), (1, ''U1'', Available False)]"
    by (simp add: race5_def)
  ultimately show ?thesis by blast
qed

theorem stale_worker_silent_witness:
  "pending race5 0 @ said race5 0 = pending race2 0 @ said race2 0 \<and> said race5 0 = [(''U1'', Available False)]"
proof -
  have "control_ok race2"
    using control_ok_step [OF control_step.reconcile control_ok_step [OF race_start one_worker_ok]]
    by (simp add: race2_def)
  moreover have "stale race2 0" by (simp add: stale_def race_facts)
  ultimately have "pending race5 0 @ said race5 0 = pending race2 0 @ said race2 0"
    using stale_worker_silent [OF race_end] by blast
  moreover have "said race5 0 = [(''U1'', Available False)]" by (simp add: said_def race5_def)
  ultimately show ?thesis by blast
qed

subsection \<open>What reports go to\<close>

text \<open>
  The interface \<open>Sink\<close>: what takes the reports.  Its contract is that a report changes what is
  kept of its own camera, in a way that depends on nothing but what was kept of it, so the
  order in which the workers of different cameras get through does not matter.
\<close>

locale report_sink =
  fixes take_report :: "string \<Rightarrow> report \<Rightarrow> 's \<Rightarrow> 's"
    and view :: "'s \<Rightarrow> string \<Rightarrow> 'v"
    and change :: "report \<Rightarrow> 'v \<Rightarrow> 'v"
  assumes view_report: "view (take_report k r s) j = (if j = k then change r (view s k) else view s j)"
begin

lemma view_run:
  "view (fold (\<lambda>(k, r). take_report k r) log s) j
     = fold change (map snd (filter (\<lambda>e. fst e = j) log)) (view s j)"
  by (induction log arbitrary: s) (auto simp: view_report)

lemma interleaving_irrelevant:
  assumes "\<And>k. map snd (filter (\<lambda>e. fst e = k) log) = map snd (filter (\<lambda>e. fst e = k) log')"
  shows "view (fold (\<lambda>(k, r). take_report k r) log s) j = view (fold (\<lambda>(k, r). take_report k r) log' s) j"
  by (simp add: view_run assms)

end

end
