(* ===== verification/Still_Cache.thy ===== *)
theory Still_Cache
  imports Ingress
begin

text \<open>
  \<open>internal/snapshot\<close>: the still images Home Assistant fetches, and their cache.

  The Go cache is shared memory: a map from stream names to pointers to entries, and goroutines
  that hold such a pointer while they fetch.  Here \<open>ca_entries\<close> maps a name to an index into
  \<open>ca_heap\<close>, and \<open>ca_fetches\<close> lists the goroutines with the index and the done channel they hold;
  so an entry that \<open>SetStreams\<close> removed from the map is still there for its goroutine to write to.
  Channels are numbered in the order they are made, and \<open>ca_closed\<close> holds the closed ones.
  \<open>get\<close> unlocks while it waits, so it is two operations, \<open>get_start\<close> and \<open>get_finish\<close>, with
  anything in between.  Clock readings are arguments, as the upstream's behaviour is.
\<close>

definition default_fresh_for :: int where "default_fresh_for = 5 * second"
definition default_stale_for :: int where "default_stale_for = 5 * (60 * second)"
definition default_wait :: int where "default_wait = 7 * second"
definition default_fetch :: int where "default_fetch = 45 * second"
definition max_image_bytes :: nat where "max_image_bytes = 8 * 1048576"

record still_config =
  sc_upstream :: string
  sc_streams :: "string list"
  sc_warm :: "string list"
  sc_token :: string
  sc_trusted_cidrs :: "string list option"
  sc_fresh_for :: int
  sc_stale_for :: int
  sc_wait :: int
  sc_fetch :: int

datatype fetch_error =
    BadUpstream
  | RequestFailed string
  | BadStatus int string
  | EmptyReply
  | NotAnImage string
  | ReadFailed string
  | TooLarge nat
  | NotJpeg

datatype still_error = FetchFailed fetch_error | NoFrameYet | NotConfigured | UnknownStream string

record frame =
  fr_data :: string
  fr_at :: int

record entry =
  en_frame :: "frame option"
  en_in_flight :: "nat option"
  en_err :: "fetch_error option"

record fetch =
  fe_entry :: nat
  fe_source :: string
  fe_done :: nat

record cache =
  ca_config :: still_config
  ca_guard :: guard
  ca_streams :: "string set"
  ca_warm :: "string list"
  ca_entries :: "string \<Rightarrow> nat option"
  ca_heap :: "entry list"
  ca_fetches :: "fetch list"
  ca_chans :: nat
  ca_closed :: "nat set"

datatype cache_error = BadStillUpstream | BadNetwork string | NoStreamNames | WarmUnknown string

subsection \<open>New and SetStreams\<close>

fun warm_list :: "string set \<Rightarrow> string list \<Rightarrow> cache_error + string list" where
  "warm_list streams [] = Inr []"
| "warm_list streams (n # ns) =
     (if n \<notin> streams then Inl (WarmUnknown n)
      else bind_sum (warm_list streams ns) (\<lambda>w. Inr (n # w)))"

definition stream_sets :: "string list \<Rightarrow> string list \<Rightarrow> cache_error + (string set \<times> string list)" where
  "stream_sets names warm =
     (let streams = set (filter (\<lambda>n. n \<noteq> []) names)
      in if streams = {} then Inl NoStreamNames
         else bind_sum (warm_list streams warm) (\<lambda>w. Inr (streams, w)))"

definition positive_or :: "int \<Rightarrow> int \<Rightarrow> int" where
  "positive_or v d = (if v \<le> 0 then d else v)"

definition new_cache :: "(string \<Rightarrow> url option) \<Rightarrow> still_config \<Rightarrow> cache_error + cache" where
  "new_cache parse cfg =
     (if \<not> absolute_http (parse (sc_upstream cfg)) then Inl BadStillUpstream
      else (case new_guard (sc_trusted_cidrs cfg) of
          Inl v \<Rightarrow> Inl (BadNetwork v)
        | Inr g \<Rightarrow> bind_sum (stream_sets (sc_streams cfg) (sc_warm cfg)) (\<lambda>(streams, warm).
            Inr \<lparr> ca_config = cfg\<lparr>
                    sc_fresh_for := positive_or (sc_fresh_for cfg) default_fresh_for,
                    sc_stale_for := positive_or (sc_stale_for cfg) default_stale_for,
                    sc_wait := positive_or (sc_wait cfg) default_wait,
                    sc_fetch := positive_or (sc_fetch cfg) default_fetch \<rparr>,
                  ca_guard = g, ca_streams = streams, ca_warm = warm, ca_entries = (\<lambda>_. None),
                  ca_heap = [], ca_fetches = [], ca_chans = 0, ca_closed = {} \<rparr>)))"

definition replace_streams :: "string list \<Rightarrow> string list \<Rightarrow> cache \<Rightarrow> cache_error + cache" where
  "replace_streams names warm c =
     bind_sum (stream_sets names warm) (\<lambda>(streams, warmed).
       Inr (c\<lparr> ca_streams := streams, ca_warm := warmed,
               ca_entries := (\<lambda>n. if n \<in> streams then ca_entries c n else None) \<rparr>))"

definition cache_allows :: "cache \<Rightarrow> string \<Rightarrow> bool" where
  "cache_allows c name \<longleftrightarrow> name \<in> ca_streams c"

definition cache_token :: "cache option \<Rightarrow> string" where
  "cache_token c = (case c of None \<Rightarrow> [] | Some c \<Rightarrow> sc_token (ca_config c))"

subsection \<open>One fetch per entry\<close>

definition launch :: "nat \<Rightarrow> string \<Rightarrow> cache \<Rightarrow> nat \<times> cache" where
  "launch p source c =
     (ca_chans c,
      c\<lparr> ca_heap := (ca_heap c)[p := (ca_heap c ! p)\<lparr> en_in_flight := Some (ca_chans c) \<rparr>],
         ca_fetches := ca_fetches c @ [\<lparr> fe_entry = p, fe_source = source, fe_done = ca_chans c \<rparr>],
         ca_chans := Suc (ca_chans c) \<rparr>)"

definition start_locked :: "string \<Rightarrow> cache \<Rightarrow> nat \<times> cache" where
  "start_locked source c =
     (case ca_entries c source of
        Some p \<Rightarrow>
          (case en_in_flight (ca_heap c ! p) of
             Some ch \<Rightarrow> (ch, c)
           | None \<Rightarrow> launch p source c)
      | None \<Rightarrow>
          launch (length (ca_heap c)) source
            (c\<lparr> ca_entries := (ca_entries c)(source \<mapsto> length (ca_heap c)),
                ca_heap := ca_heap c @ [\<lparr> en_frame = None, en_in_flight = None, en_err = None \<rparr>] \<rparr>))"

text \<open>The end of the goroutine.\<close>

definition settle :: "fetch_error + string \<Rightarrow> int \<Rightarrow> entry \<Rightarrow> entry" where
  "settle r now e =
     (case r of
        Inl err \<Rightarrow> e\<lparr> en_in_flight := None, en_err := Some err \<rparr>
      | Inr img \<Rightarrow>
          e\<lparr> en_in_flight := None, en_err := None, en_frame := Some \<lparr> fr_data = img, fr_at = now \<rparr> \<rparr>)"

definition finish_fetch :: "fetch \<Rightarrow> fetch_error + string \<Rightarrow> int \<Rightarrow> cache \<Rightarrow> cache" where
  "finish_fetch f r now c =
     c\<lparr> ca_heap := (ca_heap c)[fe_entry f := settle r now (ca_heap c ! fe_entry f)],
        ca_fetches := remove1 f (ca_fetches c),
        ca_closed := insert (fe_done f) (ca_closed c) \<rparr>"

definition warm_cache :: "cache option \<Rightarrow> cache option" where
  "warm_cache c = map_option (\<lambda>c. fold (\<lambda>n c. snd (start_locked n c)) (ca_warm c) c) c"

subsection \<open>get\<close>

text \<open>A fresh frame with its age, or the channel to wait for.  \<open>t\<^sub>1\<close> and \<open>t\<^sub>2\<close> are the two
  readings of the clock.\<close>

definition fresh_frame :: "int \<Rightarrow> string \<Rightarrow> cache \<Rightarrow> frame option" where
  "fresh_frame t source c =
     (case ca_entries c source of
        None \<Rightarrow> None
      | Some p \<Rightarrow>
          (case en_frame (ca_heap c ! p) of
             None \<Rightarrow> None
           | Some fr \<Rightarrow> if t - fr_at fr < sc_fresh_for (ca_config c) then Some fr else None))"

definition get_start :: "int \<Rightarrow> int \<Rightarrow> string \<Rightarrow> cache \<Rightarrow> (string \<times> int) + (nat \<times> cache)" where
  "get_start t1 t2 source c =
     (case fresh_frame t1 source c of
        Some fr \<Rightarrow> Inl (fr_data fr, t2 - fr_at fr)
      | None \<Rightarrow> Inr (start_locked source c))"

definition get_finish :: "int \<Rightarrow> string \<Rightarrow> cache \<Rightarrow> still_error + (string \<times> int)" where
  "get_finish now source c =
     (case ca_entries c source of
        None \<Rightarrow> Inl NoFrameYet
      | Some p \<Rightarrow>
          (let e = ca_heap c ! p;
               failed = Inl (case en_err e of None \<Rightarrow> NoFrameYet | Some err \<Rightarrow> FetchFailed err)
           in case en_frame e of
                None \<Rightarrow> failed
              | Some fr \<Rightarrow>
                  if now - fr_at fr \<le> sc_stale_for (ca_config c)
                  then Inr (fr_data fr, now - fr_at fr) else failed))"

text \<open>\<open>Frame\<close> before it waits: the error it returns at once, or what \<open>get\<close> does.\<close>

definition frame_start :: "int \<Rightarrow> int \<Rightarrow> string \<Rightarrow> cache option \<Rightarrow> still_error + ((string \<times> int) + (nat \<times> cache))" where
  "frame_start t1 t2 source c =
     (case c of
        None \<Rightarrow> Inl NotConfigured
      | Some c \<Rightarrow> if cache_allows c source then Inr (get_start t1 t2 source c) else Inl (UnknownStream source))"

subsection \<open>fetch\<close>

text \<open>An upstream reply: the body until it ends or fails.\<close>

record http_reply =
  rp_status :: int
  rp_type :: string
  rp_body :: string
  rp_broken :: "string option"

text \<open>\<open>io.ReadAll\<close> behind \<open>io.LimitReader\<close>: past the limit a failure is never seen.\<close>

definition read_limited :: "nat \<Rightarrow> http_reply \<Rightarrow> string + string" where
  "read_limited n rp =
     (if n \<le> length (rp_body rp) then Inr (take n (rp_body rp))
      else (case rp_broken rp of None \<Rightarrow> Inr (rp_body rp) | Some e \<Rightarrow> Inl e))"

definition jpeg_magic :: "string \<Rightarrow> bool" where
  "jpeg_magic img \<longleftrightarrow> take 2 img = [CHR 0xFF, CHR 0xD8]"

definition check_reply :: "http_reply \<Rightarrow> fetch_error + string" where
  "check_reply rp =
     (if rp_status rp \<noteq> 200 then Inl (BadStatus (rp_status rp) (trim_space (take 256 (rp_body rp))))
      else if rp_type rp = [] then Inl EmptyReply
      else if \<not> has_prefix ''image/'' (rp_type rp) then Inl (NotAnImage (rp_type rp))
      else (case read_limited (max_image_bytes + 1) rp of
          Inl e \<Rightarrow> Inl (ReadFailed e)
        | Inr img \<Rightarrow>
            if length img > max_image_bytes then Inl (TooLarge max_image_bytes)
            else if \<not> jpeg_magic img then Inl NotJpeg
            else Inr img))"

text \<open>\<open>ask\<close> is the HTTP client: the reply to a GET of a URL with a query, or its error.\<close>

type_synonym client = "url \<Rightarrow> string \<Rightarrow> string + http_reply"

definition fetch_still :: "(string \<Rightarrow> url option) \<Rightarrow> client \<Rightarrow> still_config \<Rightarrow> string \<Rightarrow> fetch_error + string" where
  "fetch_still parse ask cfg source =
     (case parse (sc_upstream cfg) of
        None \<Rightarrow> Inl BadUpstream
      | Some u \<Rightarrow>
          (case ask (u\<lparr> url_path := trim_suffix ''/'' (url_path u) @ ''/api/frame.jpeg'' \<rparr>)
                  (encode_query [(''src'', source)]) of
             Inl e \<Rightarrow> Inl (RequestFailed e)
           | Inr rp \<Rightarrow> check_reply rp))"

subsection \<open>The handler and the URL\<close>

definition snapshot_path :: string where "snapshot_path = ''/snapshot''"

text \<open>The URL and its query; keys in the order \<open>Values.Encode\<close> sorts them.\<close>

definition snapshot_url :: "(string \<Rightarrow> url option) \<Rightarrow> string \<Rightarrow> string \<Rightarrow> string \<Rightarrow> (url \<times> string) option" where
  "snapshot_url parse base stream token =
     (if base = [] \<or> stream = [] then None
      else (case parse base of
          None \<Rightarrow> None
        | Some u \<Rightarrow>
            if url_host u = [] then None
            else Some (u\<lparr> url_path := trim_suffix ''/'' (url_path u) @ snapshot_path \<rparr>,
                       encode_query ((''src'', stream) # (if token \<noteq> [] then [(''token'', token)] else [])))))"

text \<open>What the handler decides before it asks the cache: a refusal, or the stream.\<close>

definition still_gate :: "bool \<Rightarrow> cache \<Rightarrow> http_request \<Rightarrow> (nat \<times> string) + string" where
  "still_gate require_token c r =
     (let q = parse_query (req_query r)
      in if \<not> guard_allow (Some (ca_guard c)) (req_remote r) then Inl (403, ''forbidden'')
         else if req_method r \<noteq> ''GET'' \<and> req_method r \<noteq> ''HEAD'' then Inl (405, ''method not allowed'')
         else if require_token \<and> sc_token (ca_config c) \<noteq> []
              \<and> query_get q ''token'' \<noteq> sc_token (ca_config c)
         then Inl (401, ''unauthorized'')
         else if \<not> cache_allows c (query_get q ''src'') then Inl (404, ''unknown camera'')
         else Inr (query_get q ''src''))"

record still_reply =
  sr_header :: header
  sr_body :: string

definition whole_seconds :: "int \<Rightarrow> int" where
  "whole_seconds d = (if d < 0 then - ((- d) div second) else d div second)"

definition still_respond :: "string \<Rightarrow> still_error + (string \<times> int) \<Rightarrow> still_reply answer" where
  "still_respond verb res =
     (case res of
        Inl _ \<Rightarrow> Http_error 503 ''snapshot unavailable''
      | Inr (img, age) \<Rightarrow> Next \<lparr>
          sr_header = header_set ''X-Snapshot-Age'' (itoa (whole_seconds age))
            (header_set ''X-Content-Type-Options'' ''nosniff''
              (header_set ''Cache-Control'' ''no-store''
                (header_set ''Content-Length'' (itoa (int (length img)))
                  (header_set ''Content-Type'' ''image/jpeg'' (\<lambda>_. []))))),
          sr_body = (if verb \<noteq> ''HEAD'' then img else []) \<rparr>)"

subsection \<open>The token\<close>

datatype token_error = TokenRead string | TokenRandom string | TokenDirectory string | TokenWrite string

definition new_token :: "string + bytes \<Rightarrow> token_error + string" where
  "new_token random = (case random of Inl e \<Rightarrow> Inl (TokenRandom e) | Inr bs \<Rightarrow> Inr (hex_encode bs))"

text \<open>The token, and what was written to the file, if anything: \<open>mkdir\<close> and \<open>store\<close> are the
  errors of making the directory and writing the file.\<close>

definition load_or_create_token ::
    "string \<Rightarrow> file_read \<Rightarrow> string + bytes \<Rightarrow> string option \<Rightarrow> string option \<Rightarrow> (token_error + string) \<times> string option" where
  "load_or_create_token path file random mkdir store =
     (let create = (case new_token random of
          Inl e \<Rightarrow> (Inl e, None)
        | Inr token \<Rightarrow>
            (case mkdir of
               Some e \<Rightarrow> (Inl (TokenDirectory e), None)
             | None \<Rightarrow>
                 (case store of
                    Some e \<Rightarrow> (Inl (TokenWrite e), None)
                  | None \<Rightarrow> (Inr token, Some (token @ [CHR 0x0A])))))
      in if path = [] then (new_token random, None)
         else (case file of
             FileText s \<Rightarrow> if length (trim_space s) \<ge> 32 then (Inr (trim_space s), None) else create
           | FileMissing \<Rightarrow> create
           | FileError e \<Rightarrow> (Inl (TokenRead e), None)))"

subsection \<open>Steps\<close>

text \<open>What can happen to the shared cache: a request (or \<open>Warm\<close>) asks for a stream that has no
  fresh frame, a running fetch comes back with what the upstream gave it, a reload replaces the
  streams.  The requests that are waiting hold no lock, so they do not appear.\<close>

datatype cache_event =
    Demand string
  | Deliver fetch "fetch_error + string" int
  | Replace "string list" "string list"

inductive cache_step :: "(string \<Rightarrow> url option) \<Rightarrow> cache \<Rightarrow> cache_event \<Rightarrow> cache \<Rightarrow> bool"
  for parse where
  demand: "cache_step parse c (Demand n) (snd (start_locked n c))"
| deliver: "f \<in> set (ca_fetches c) \<Longrightarrow> fetch_still parse ask (ca_config c) (fe_source f) = r \<Longrightarrow>
    cache_step parse c (Deliver f r now) (finish_fetch f r now c)"
| replace: "replace_streams ns ws c = Inr c' \<Longrightarrow> cache_step parse c (Replace ns ws) c'"

inductive cache_run :: "(string \<Rightarrow> url option) \<Rightarrow> cache \<Rightarrow> cache_event list \<Rightarrow> cache \<Rightarrow> bool"
  for parse where
  stop: "cache_run parse c [] c"
| step: "cache_run parse c evs d \<Longrightarrow> cache_step parse d ev e \<Longrightarrow> cache_run parse c (evs @ [ev]) e"

inductive_simps demand_iff [go_simps]: "cache_step parse c (Demand n) c'"
inductive_cases deliverE: "cache_step parse c (Deliver f r now) c'"
inductive_cases replaceE: "cache_step parse c (Replace ns ws) c'"

subsection \<open>The shape of the cache\<close>

definition good_image :: "string \<Rightarrow> bool" where
  "good_image img \<longleftrightarrow> jpeg_magic img \<and> length img \<le> max_image_bytes"

definition entries_ok :: "cache \<Rightarrow> bool" where
  "entries_ok c \<longleftrightarrow>
     (\<forall>n p. ca_entries c n = Some p \<longrightarrow> p < length (ca_heap c))
   \<and> (\<forall>m n p. ca_entries c m = Some p \<longrightarrow> ca_entries c n = Some p \<longrightarrow> m = n)"

definition fetches_ok :: "cache \<Rightarrow> bool" where
  "fetches_ok c \<longleftrightarrow>
     distinct (map fe_done (ca_fetches c))
   \<and> (\<forall>f \<in> set (ca_fetches c). fe_entry f < length (ca_heap c)
        \<and> en_in_flight (ca_heap c ! fe_entry f) = Some (fe_done f)
        \<and> (\<forall>n. ca_entries c n = Some (fe_entry f) \<longrightarrow> n = fe_source f))
   \<and> (\<forall>p < length (ca_heap c). \<forall>ch. en_in_flight (ca_heap c ! p) = Some ch \<longrightarrow>
        (\<exists>f \<in> set (ca_fetches c). fe_entry f = p \<and> fe_done f = ch))"

definition channels_ok :: "cache \<Rightarrow> bool" where
  "channels_ok c \<longleftrightarrow>
     ca_closed c \<union> fe_done ` set (ca_fetches c) = {..<ca_chans c}
   \<and> ca_closed c \<inter> fe_done ` set (ca_fetches c) = {}"

definition frames_ok :: "cache \<Rightarrow> bool" where
  "frames_ok c \<longleftrightarrow> (\<forall>e \<in> set (ca_heap c). \<forall>fr. en_frame e = Some fr \<longrightarrow> good_image (fr_data fr))"

definition cache_ok :: "cache \<Rightarrow> bool" where
  "cache_ok c \<longleftrightarrow> entries_ok c \<and> fetches_ok c \<and> channels_ok c \<and> frames_ok c"

lemma frames_ok_update:
  "frames_ok c \<Longrightarrow> p < length (ca_heap c) \<Longrightarrow>
     (\<And>fr. en_frame e = Some fr \<Longrightarrow> en_frame (ca_heap c ! p) = Some fr \<or> good_image (fr_data fr)) \<Longrightarrow>
     ca_heap d = (ca_heap c)[p := e] \<Longrightarrow> frames_ok d"
  unfolding frames_ok_def by (metis in_set_conv_nth insertE set_update_subset_insert subsetD)

lemma launch_ok:
  assumes ok: "cache_ok c" and p: "p < length (ca_heap c)" "en_in_flight (ca_heap c ! p) = None"
    and own: "\<And>n. ca_entries c n = Some p \<Longrightarrow> n = source"
  shows "cache_ok (snd (launch p source c))"
proof -
  let ?d = "snd (launch p source c)"
  let ?f = "\<lparr> fe_entry = p, fe_source = source, fe_done = ca_chans c \<rparr>"
  have h: "ca_heap ?d = (ca_heap c)[p := (ca_heap c ! p)\<lparr> en_in_flight := Some (ca_chans c) \<rparr>]"
    and e: "ca_entries ?d = ca_entries c" and k: "ca_closed ?d = ca_closed c"
    and f: "ca_fetches ?d = ca_fetches c @ [?f]" and n: "ca_chans ?d = Suc (ca_chans c)"
    by (simp_all add: launch_def)
  have other: "fe_entry g \<noteq> p" if "g \<in> set (ca_fetches c)" for g
    using ok p that by (auto simp: cache_ok_def fetches_ok_def)
  have fresh: "fe_done g < ca_chans c" if "g \<in> set (ca_fetches c)" for g
    using ok that by (auto simp: cache_ok_def channels_ok_def)
  have "entries_ok ?d" using ok by (simp add: cache_ok_def entries_ok_def h e)
  moreover have "fetches_ok ?d" unfolding fetches_ok_def
  proof (intro conjI)
    show "distinct (map fe_done (ca_fetches ?d))"
      using ok by (auto simp: cache_ok_def fetches_ok_def f dest!: fresh)
    show "\<forall>g \<in> set (ca_fetches ?d). fe_entry g < length (ca_heap ?d)
        \<and> en_in_flight (ca_heap ?d ! fe_entry g) = Some (fe_done g)
        \<and> (\<forall>n. ca_entries ?d n = Some (fe_entry g) \<longrightarrow> n = fe_source g)"
      using ok p own other by (auto simp: cache_ok_def fetches_ok_def f h e nth_list_update)
    show "\<forall>q < length (ca_heap ?d). \<forall>ch. en_in_flight (ca_heap ?d ! q) = Some ch \<longrightarrow>
        (\<exists>g \<in> set (ca_fetches ?d). fe_entry g = q \<and> fe_done g = ch)"
      using ok p by (auto simp: cache_ok_def fetches_ok_def f h nth_list_update split: if_splits)
  qed
  moreover have "channels_ok ?d"
  proof -
    have "ca_chans c \<notin> ca_closed c" using ok by (auto simp: cache_ok_def channels_ok_def)
    then show ?thesis using ok by (auto simp: cache_ok_def channels_ok_def f k n)
  qed
  moreover have "frames_ok ?d"
    using ok p by (auto intro!: frames_ok_update [OF _ p(1) _ h] simp: cache_ok_def)
  ultimately show ?thesis by (simp add: cache_ok_def)
qed

lemma add_entry_ok:
  assumes ok: "cache_ok c" and "ca_entries c source = None"
  shows "cache_ok (c\<lparr> ca_entries := (ca_entries c)(source \<mapsto> length (ca_heap c)),
     ca_heap := ca_heap c @ [\<lparr> en_frame = None, en_in_flight = None, en_err = None \<rparr>] \<rparr>)"
    (is "cache_ok ?d")
proof -
  have "entries_ok ?d" using ok by (auto simp: cache_ok_def entries_ok_def less_SucI split: if_splits)
  moreover have "fetches_ok ?d"
    using ok by (auto simp: cache_ok_def fetches_ok_def nth_append less_Suc_eq split: if_splits)
  moreover have "channels_ok ?d" using ok by (simp add: cache_ok_def channels_ok_def)
  moreover have "frames_ok ?d" using ok by (auto simp: cache_ok_def frames_ok_def)
  ultimately show ?thesis by (simp add: cache_ok_def)
qed

lemma launch_new_ok:
  assumes ok: "cache_ok c" and none: "ca_entries c source = None"
  shows "cache_ok (snd (launch (length (ca_heap c)) source
     (c\<lparr> ca_entries := (ca_entries c)(source \<mapsto> length (ca_heap c)),
         ca_heap := ca_heap c @ [\<lparr> en_frame = None, en_in_flight = None, en_err = None \<rparr>] \<rparr>)))"
proof (rule launch_ok [OF add_entry_ok [OF ok none]])
  have "ca_entries c n \<noteq> Some (length (ca_heap c))" for n
    using ok by (auto simp: cache_ok_def entries_ok_def)
  then show "n = source"
    if "ca_entries (c\<lparr> ca_entries := (ca_entries c)(source \<mapsto> length (ca_heap c)),
         ca_heap := ca_heap c @ [\<lparr> en_frame = None, en_in_flight = None, en_err = None \<rparr>] \<rparr>) n
       = Some (length (ca_heap c))" for n
    using that by (simp split: if_splits)
qed simp_all

lemma launch_old_ok:
  assumes ok: "cache_ok c" and some: "ca_entries c source = Some p"
    and "en_in_flight (ca_heap c ! p) = None"
  shows "cache_ok (snd (launch p source c))"
proof (rule launch_ok [OF ok _ assms(3)])
  show "p < length (ca_heap c)" using ok some by (simp add: cache_ok_def entries_ok_def)
  show "n = source" if "ca_entries c n = Some p" for n
    using ok some that by (simp add: cache_ok_def entries_ok_def)
qed

lemma start_cases:
  obtains (join) p ch where "ca_entries c source = Some p" "en_in_flight (ca_heap c ! p) = Some ch"
      "start_locked source c = (ch, c)"
  | (old) p where "ca_entries c source = Some p" "en_in_flight (ca_heap c ! p) = None"
      "start_locked source c = launch p source c"
  | (fresh) "ca_entries c source = None"
      "start_locked source c = launch (length (ca_heap c)) source
         (c\<lparr> ca_entries := (ca_entries c)(source \<mapsto> length (ca_heap c)),
             ca_heap := ca_heap c @ [\<lparr> en_frame = None, en_in_flight = None, en_err = None \<rparr>] \<rparr>)"
proof (cases "ca_entries c source")
  case None
  then show ?thesis by (intro fresh) (simp_all add: start_locked_def)
next
  case (Some p)
  then show ?thesis
    by (cases "en_in_flight (ca_heap c ! p)") (simp_all add: start_locked_def join old)
qed

lemma start_ok: "cache_ok c \<Longrightarrow> cache_ok (snd (start_locked source c))"
  by (cases rule: start_cases [of c source]) (simp_all add: launch_new_ok launch_old_ok)

lemma good_fetch: "fetch_still parse ask cfg source = Inr img \<Longrightarrow> good_image img"
  by (auto simp: fetch_still_def check_reply_def good_image_def split: option.splits sum.splits if_splits)

lemma finish_ok:
  assumes ok: "cache_ok c" and f: "f \<in> set (ca_fetches c)"
    and r: "\<And>img. r = Inr img \<Longrightarrow> good_image img"
  shows "cache_ok (finish_fetch f r now c)"
proof -
  let ?d = "finish_fetch f r now c"
  have h: "ca_heap ?d = (ca_heap c)[fe_entry f := settle r now (ca_heap c ! fe_entry f)]"
    and e: "ca_entries ?d = ca_entries c" and k: "ca_closed ?d = insert (fe_done f) (ca_closed c)"
    and n: "ca_chans ?d = ca_chans c" and fs: "ca_fetches ?d = remove1 f (ca_fetches c)"
    by (simp_all add: finish_fetch_def)
  have dist: "distinct (map fe_done (ca_fetches c))" using ok by (simp add: cache_ok_def fetches_ok_def)
  then have set_fs: "set (ca_fetches ?d) = set (ca_fetches c) - {f}"
    by (simp add: fs distinct_map)
  have same: "g = f" if "g \<in> set (ca_fetches c)" "fe_done g = fe_done f" for g
    using dist f that by (auto simp: distinct_map inj_on_def)
  have lone: "fe_entry g \<noteq> fe_entry f" if "g \<in> set (ca_fetches c)" "g \<noteq> f" for g
  proof
    assume "fe_entry g = fe_entry f"
    moreover have "en_in_flight (ca_heap c ! fe_entry x) = Some (fe_done x)" if "x \<in> set (ca_fetches c)" for x
      using ok that by (simp add: cache_ok_def fetches_ok_def)
    ultimately have "Some (fe_done g) = Some (fe_done f)" using f that(1) by metis
    with same that show False by simp
  qed
  have p: "fe_entry f < length (ca_heap c)" using ok f by (simp add: cache_ok_def fetches_ok_def)
  have idle: "en_in_flight (settle r now x) = None" for x by (simp add: settle_def split: sum.split)
  have "entries_ok ?d" using ok by (simp add: cache_ok_def entries_ok_def h e)
  moreover have "fetches_ok ?d" unfolding fetches_ok_def
  proof (intro conjI)
    show "distinct (map fe_done (ca_fetches ?d))"
      using dist by (simp add: fs distinct_map inj_on_def)
    show "\<forall>g \<in> set (ca_fetches ?d). fe_entry g < length (ca_heap ?d)
        \<and> en_in_flight (ca_heap ?d ! fe_entry g) = Some (fe_done g)
        \<and> (\<forall>n. ca_entries ?d n = Some (fe_entry g) \<longrightarrow> n = fe_source g)"
    proof
      fix g assume "g \<in> set (ca_fetches ?d)"
      then have g: "g \<in> set (ca_fetches c)" "g \<noteq> f" by (auto simp: set_fs)
      then show "fe_entry g < length (ca_heap ?d)
        \<and> en_in_flight (ca_heap ?d ! fe_entry g) = Some (fe_done g)
        \<and> (\<forall>n. ca_entries ?d n = Some (fe_entry g) \<longrightarrow> n = fe_source g)"
        using ok lone [OF g] by (simp add: cache_ok_def fetches_ok_def h e)
    qed
    show "\<forall>q < length (ca_heap ?d). \<forall>ch. en_in_flight (ca_heap ?d ! q) = Some ch \<longrightarrow>
        (\<exists>g \<in> set (ca_fetches ?d). fe_entry g = q \<and> fe_done g = ch)"
    proof (intro allI impI)
      fix q ch assume q: "q < length (ca_heap ?d)" "en_in_flight (ca_heap ?d ! q) = Some ch"
      then have nq: "q \<noteq> fe_entry f" using p by (auto simp: h idle)
      with q have "q < length (ca_heap c)" "en_in_flight (ca_heap c ! q) = Some ch" by (simp_all add: h)
      with ok obtain g where "g \<in> set (ca_fetches c)" "fe_entry g = q" "fe_done g = ch"
        unfolding cache_ok_def fetches_ok_def by blast
      then show "\<exists>g \<in> set (ca_fetches ?d). fe_entry g = q \<and> fe_done g = ch"
        using nq by (auto simp: set_fs)
    qed
  qed
  moreover have "channels_ok ?d"
  proof -
    have im: "fe_done ` set (ca_fetches ?d) = fe_done ` set (ca_fetches c) - {fe_done f}"
      using same by (auto simp: set_fs)
    have "fe_done f \<in> fe_done ` set (ca_fetches c)" using f by simp
    moreover have "channels_ok c" using ok by (simp add: cache_ok_def)
    ultimately show ?thesis unfolding channels_ok_def k n im by blast
  qed
  moreover have "frames_ok ?d"
    using ok r by (intro frames_ok_update [OF _ p _ h]) (auto simp: cache_ok_def settle_def split: sum.splits)
  ultimately show ?thesis by (simp add: cache_ok_def)
qed

lemma replace_streams_iff:
  "replace_streams ns ws c = Inr c' \<longleftrightarrow>
     (\<exists>streams warmed. stream_sets ns ws = Inr (streams, warmed) \<and>
        c' = c\<lparr> ca_streams := streams, ca_warm := warmed,
               ca_entries := (\<lambda>n. if n \<in> streams then ca_entries c n else None) \<rparr>)"
  by (auto simp: replace_streams_def bind_sum_Inr_iff)

lemma replace_ok: "cache_ok c \<Longrightarrow> replace_streams ns ws c = Inr c' \<Longrightarrow> cache_ok c'"
proof -
  assume ok: "cache_ok c" and "replace_streams ns ws c = Inr c'"
  then obtain streams warmed where c': "c' = c\<lparr> ca_streams := streams, ca_warm := warmed,
      ca_entries := (\<lambda>n. if n \<in> streams then ca_entries c n else None) \<rparr>"
    unfolding replace_streams_iff by blast
  have "entries_ok c'" using ok by (simp add: c' cache_ok_def entries_ok_def)
  moreover have "fetches_ok c'" using ok by (simp add: c' cache_ok_def fetches_ok_def)
  ultimately show ?thesis using ok by (simp add: c' cache_ok_def channels_ok_def frames_ok_def)
qed

lemma step_ok: "cache_step parse c ev c' \<Longrightarrow> cache_ok c \<Longrightarrow> cache_ok c'"
  by (induction rule: cache_step.induct)
    (auto intro: start_ok replace_ok finish_ok dest: good_fetch)

lemma new_cache_ok: "new_cache parse cfg = Inr c \<Longrightarrow> cache_ok c"
  by (auto simp: new_cache_def Inr_iffs cache_ok_def entries_ok_def fetches_ok_def channels_ok_def
      frames_ok_def split: sum.splits if_splits)

lemma run_ok: "cache_run parse c evs d \<Longrightarrow> cache_ok c \<Longrightarrow> cache_ok d"
  by (induction rule: cache_run.induct) (auto intro: step_ok)

subsection \<open>What the cache promises: one shelf per stream\<close>

text \<open>The specification knows no pointers and no goroutines: per stream the last frame, the last
  error and whether a fetch is under way.\<close>

type_synonym shelf = "string \<Rightarrow> (frame option \<times> fetch_error option \<times> bool) option"

definition shelf_of :: "cache \<Rightarrow> shelf" where
  "shelf_of c n =
     map_option (\<lambda>p. let e = ca_heap c ! p in (en_frame e, en_err e, en_in_flight e \<noteq> None)) (ca_entries c n)"

definition spec_demand :: "string \<Rightarrow> shelf \<Rightarrow> shelf" where
  "spec_demand n s =
     s(n \<mapsto> (case s n of None \<Rightarrow> (None, None, True) | Some (fr, err, _) \<Rightarrow> (fr, err, True)))"

definition spec_deliver :: "string \<Rightarrow> fetch_error + string \<Rightarrow> int \<Rightarrow> shelf \<Rightarrow> shelf" where
  "spec_deliver n r now s =
     s(n \<mapsto> (case r of
        Inl err \<Rightarrow> (case s n of None \<Rightarrow> None | Some (fr, _, _) \<Rightarrow> fr, Some err, False)
      | Inr img \<Rightarrow> (Some \<lparr> fr_data = img, fr_at = now \<rparr>, None, False)))"

definition spec_keep :: "string list \<Rightarrow> shelf \<Rightarrow> shelf" where
  "spec_keep ns s = (\<lambda>n. if n \<noteq> [] \<and> n \<in> set ns then s n else None)"

definition spec_answer :: "int \<Rightarrow> int \<Rightarrow> (frame option \<times> fetch_error option \<times> bool) option \<Rightarrow> still_error + (string \<times> int)" where
  "spec_answer stale_for now x =
     (case x of
        Some (Some fr, err, _) \<Rightarrow>
          if now - fr_at fr \<le> stale_for then Inr (fr_data fr, now - fr_at fr)
          else Inl (case err of None \<Rightarrow> NoFrameYet | Some e \<Rightarrow> FetchFailed e)
      | Some (None, err, _) \<Rightarrow> Inl (case err of None \<Rightarrow> NoFrameYet | Some e \<Rightarrow> FetchFailed e)
      | None \<Rightarrow> Inl NoFrameYet)"

text \<open>A fetch whose entry is still in the map.\<close>

definition attached :: "cache \<Rightarrow> fetch \<Rightarrow> bool" where
  "attached c f \<longleftrightarrow> ca_entries c (fe_source f) = Some (fe_entry f)"

lemma shelf_launch:
  assumes ok: "entries_ok c" and p: "ca_entries c n = Some p"
  shows "shelf_of (snd (launch p n c)) = spec_demand n (shelf_of c)"
proof
  fix m
  have len: "p < length (ca_heap c)" using ok p by (simp add: entries_ok_def)
  show "shelf_of (snd (launch p n c)) m = spec_demand n (shelf_of c) m"
  proof (cases "m = n")
    case True
    then show ?thesis using p len by (simp add: shelf_of_def spec_demand_def launch_def Let_def)
  next
    case False
    then have "ca_entries c m \<noteq> Some p" using ok p by (auto simp: entries_ok_def)
    with False show ?thesis
      by (cases "ca_entries c m") (simp_all add: shelf_of_def spec_demand_def launch_def Let_def nth_list_update)
  qed
qed

lemma shelf_start: "cache_ok c \<Longrightarrow> shelf_of (snd (start_locked n c)) = spec_demand n (shelf_of c)"
proof (cases rule: start_cases [of c n])
  case (join p ch)
  then show ?thesis by (auto simp: shelf_of_def spec_demand_def Let_def)
next
  case (old p)
  moreover assume "cache_ok c"
  ultimately show ?thesis by (simp add: shelf_launch cache_ok_def)
next
  case fresh
  assume ok: "cache_ok c"
  let ?c = "c\<lparr> ca_entries := (ca_entries c)(n \<mapsto> length (ca_heap c)),
               ca_heap := ca_heap c @ [\<lparr> en_frame = None, en_in_flight = None, en_err = None \<rparr>] \<rparr>"
  have "entries_ok ?c" using add_entry_ok [OF ok fresh(1)] by (simp add: cache_ok_def)
  then have "shelf_of (snd (start_locked n c)) = spec_demand n (shelf_of ?c)"
    unfolding fresh(2) by (rule shelf_launch) simp
  also have "\<dots> = spec_demand n (shelf_of c)"
  proof
    fix m
    show "spec_demand n (shelf_of ?c) m = spec_demand n (shelf_of c) m"
    proof (cases "m = n")
      case True
      then show ?thesis using fresh(1) by (simp add: shelf_of_def spec_demand_def Let_def)
    next
      case False
      have "ca_entries c m = Some q \<Longrightarrow> q < length (ca_heap c)" for q
        using ok by (simp add: cache_ok_def entries_ok_def)
      with False show ?thesis
        by (cases "ca_entries c m") (simp_all add: shelf_of_def spec_demand_def Let_def nth_append)
    qed
  qed
  finally show ?thesis .
qed

lemma shelf_finish:
  assumes ok: "cache_ok c" and f: "f \<in> set (ca_fetches c)"
  shows "shelf_of (finish_fetch f r now c) =
     (if attached c f then spec_deliver (fe_source f) r now (shelf_of c) else shelf_of c)"
proof
  fix m
  have p: "fe_entry f < length (ca_heap c)"
    and own: "\<And>n. ca_entries c n = Some (fe_entry f) \<Longrightarrow> n = fe_source f"
    using ok f by (auto simp: cache_ok_def fetches_ok_def)
  show "shelf_of (finish_fetch f r now c) m =
     (if attached c f then spec_deliver (fe_source f) r now (shelf_of c) else shelf_of c) m"
  proof (cases "ca_entries c m = Some (fe_entry f)")
    case True
    with own have m: "m = fe_source f" by blast
    with True have "attached c f" by (simp add: attached_def)
    with m True p show ?thesis
      by (cases r) (simp_all add: shelf_of_def spec_deliver_def finish_fetch_def settle_def Let_def)
  next
    case False
    then have "m \<noteq> fe_source f \<or> \<not> attached c f" by (auto simp: attached_def)
    with False show ?thesis
      by (cases "ca_entries c m")
        (auto simp: shelf_of_def spec_deliver_def finish_fetch_def Let_def nth_list_update)
  qed
qed

lemma stream_sets_names: "stream_sets ns ws = Inr (streams, warmed) \<Longrightarrow> streams = {n \<in> set ns. n \<noteq> []}"
  by (auto simp: stream_sets_def Let_def bind_sum_Inr_iff split: if_splits)

lemma shelf_replace: "replace_streams ns ws c = Inr c' \<Longrightarrow> shelf_of c' = spec_keep ns (shelf_of c)"
  by (auto simp: replace_streams_iff spec_keep_def shelf_of_def fun_eq_iff dest!: stream_sets_names)

lemma shelf_answer:
  "get_finish now n c = spec_answer (sc_stale_for (ca_config c)) now (shelf_of c n)"
  by (auto simp: get_finish_def spec_answer_def shelf_of_def Let_def split: option.split)

subsection \<open>The properties\<close>

text \<open>A running example for the witnesses.\<close>

definition sample_url :: "string \<Rightarrow> url option" where
  "sample_url _ = Some \<lparr> url_scheme = ''http'', url_host = ''127.0.0.1:1984'', url_path = ''/'' \<rparr>"

definition sample_still :: still_config where
  "sample_still = \<lparr> sc_upstream = ''http://127.0.0.1:1984/'', sc_streams = [''nursery'', ''lounge''],
     sc_warm = [''nursery''], sc_token = ''secret'', sc_trusted_cidrs = None, sc_fresh_for = 0,
     sc_stale_for = 0, sc_wait = 0, sc_fetch = 0 \<rparr>"

definition sample_cache :: cache where
  "sample_cache = (case new_cache sample_url sample_still of Inr c \<Rightarrow> c | Inl _ \<Rightarrow> undefined)"

lemma sample_cache: "new_cache sample_url sample_still = Inr sample_cache"
proof -
  have "is_Inr (new_cache sample_url sample_still)" by code_simp
  then show ?thesis by (auto simp: sample_cache_def is_Inr_def split: sum.splits)
qed

lemma sample_cache_eq:
  "sample_cache = \<lparr> ca_config = sample_still\<lparr> sc_fresh_for := default_fresh_for,
       sc_stale_for := default_stale_for, sc_wait := default_wait, sc_fetch := default_fetch \<rparr>,
     ca_guard = supervisor_networks, ca_streams = {''nursery'', ''lounge''}, ca_warm = [''nursery''],
     ca_entries = (\<lambda>_. None), ca_heap = [], ca_fetches = [], ca_chans = 0, ca_closed = {} \<rparr>"
  unfolding sample_cache_def new_cache_def
  by (simp add: sample_still_def sample_url_def absolute_http_def new_guard_supervisor
      stream_sets_def Let_def positive_or_def)

definition sample_reply :: http_reply where
  "sample_reply = \<lparr> rp_status = 200, rp_type = ''image/jpeg'', rp_body = [CHR 0xFF, CHR 0xD8, CHR 0x41],
     rp_broken = None \<rparr>"

text \<open>C35: whatever requests, fetches and stream reloads do to a new cache in whatever order, it
  keeps its shape: the map is injective into the heap; an entry has a channel exactly while one
  goroutine fetches for it, and that goroutine holds this channel and the entry's own stream
  name; every channel ever made is closed or belongs to exactly one running fetch; and every
  frame kept is a JPEG of at most 8 MiB.\<close>

theorem still_cache_shape:
  "new_cache parse cfg = Inr c \<Longrightarrow> cache_run parse c evs d \<Longrightarrow> cache_ok d"
  using new_cache_ok run_ok by blast

lemma sample_run: "cache_run sample_url sample_cache [Demand ''nursery''] (snd (start_locked ''nursery'' sample_cache))"
  using cache_run.step [OF cache_run.stop cache_step.demand, of sample_url sample_cache "''nursery''"]
  by simp

theorem still_cache_shape_witness: "cache_ok (snd (start_locked ''nursery'' sample_cache))"
  by (rule still_cache_shape [OF sample_cache sample_run])

text \<open>C29: seen from outside, the heap of entries and the goroutines that point into it behave as one
  shelf per stream.  A request marks its stream as being fetched and changes nothing else; a
  fetch whose entry is still in the map puts its result on its own stream's shelf, where a fetch
  was under way, and a fetch whose entry a reload removed changes no shelf; a reload keeps
  exactly the shelves of the names it lists; and the answer to a request is a function of its
  shelf and the clock.\<close>

theorem still_cache_refines:
  assumes ok: "cache_ok c"
  shows "shelf_of (snd (start_locked n c)) = spec_demand n (shelf_of c)
   \<and> (f \<in> set (ca_fetches c) \<longrightarrow>
        shelf_of (finish_fetch f r now c) =
          (if attached c f then spec_deliver (fe_source f) r now (shelf_of c) else shelf_of c)
      \<and> (attached c f \<longrightarrow> (\<exists>fr err. shelf_of c (fe_source f) = Some (fr, err, True))))
   \<and> (replace_streams ns ws c = Inr c' \<longrightarrow> shelf_of c' = spec_keep ns (shelf_of c))
   \<and> get_finish now n c = spec_answer (sc_stale_for (ca_config c)) now (shelf_of c n)"
proof (intro conjI impI)
  assume "f \<in> set (ca_fetches c)" and a: "attached c f"
  then have "en_in_flight (ca_heap c ! fe_entry f) = Some (fe_done f)"
    using ok by (simp add: cache_ok_def fetches_ok_def)
  then show "\<exists>fr err. shelf_of c (fe_source f) = Some (fr, err, True)"
    using a by (simp add: shelf_of_def attached_def Let_def)
qed (simp_all add: ok shelf_start shelf_finish shelf_replace shelf_answer)

theorem still_cache_refines_witness:
  "get_finish 0 ''nursery'' sample_cache = spec_answer default_stale_for 0 (shelf_of sample_cache ''nursery'')
   \<and> shelf_of (snd (start_locked ''nursery'' sample_cache)) = spec_demand ''nursery'' (shelf_of sample_cache)"
proof -
  have "sc_stale_for (ca_config sample_cache) = default_stale_for" by (simp add: sample_cache_eq)
  then show ?thesis
    using still_cache_refines [OF new_cache_ok [OF sample_cache], of "''nursery''" undefined undefined 0 "[]" "[]" undefined]
    by simp
qed

text \<open>What a stream's shelf holds was fetched for that very stream.\<close>

lemma config_kept: "cache_step parse c ev d \<Longrightarrow> ca_config d = ca_config c"
proof (induction rule: cache_step.induct)
  case (demand c n)
  then show ?case by (cases rule: start_cases [of c n]) (simp_all add: launch_def)
next
  case (deliver f c ask r now)
  then show ?case by (simp add: finish_fetch_def)
next
  case (replace ns ws c c')
  then show ?case by (auto simp: replace_streams_iff)
qed

definition provenance :: "(string \<Rightarrow> url option) \<Rightarrow> still_config \<Rightarrow> cache_event list \<Rightarrow> shelf \<Rightarrow> bool" where
  "provenance parse cfg evs s \<longleftrightarrow> (\<forall>n fr x. s n = Some (Some fr, x) \<longrightarrow>
     (\<exists>f ask. Deliver f (Inr (fr_data fr)) (fr_at fr) \<in> set evs \<and> fe_source f = n
        \<and> fetch_still parse ask cfg n = Inr (fr_data fr)))"

lemma provenance_step:
  assumes s: "cache_step parse c ev d" and ok: "cache_ok c" and p: "provenance parse (ca_config c) evs (shelf_of c)"
  shows "provenance parse (ca_config d) (evs @ [ev]) (shelf_of d)"
proof -
  have k: "ca_config d = ca_config c" using config_kept [OF s] .
  have more: "provenance parse (ca_config c) (evs @ [ev]) (shelf_of c)"
    using p unfolding provenance_def by fastforce
  from s ok more show ?thesis unfolding k
  proof (cases rule: cache_step.cases)
    case (demand n)
    have "spec_demand n (shelf_of c) m = Some (Some fr, x) \<Longrightarrow> \<exists>y. shelf_of c m = Some (Some fr, y)" for m fr x
      by (auto simp: spec_demand_def split: if_splits option.splits)
    then show "provenance parse (ca_config c) (evs @ [ev]) (shelf_of d)"
      using more unfolding demand shelf_start [OF ok] provenance_def by blast
  next
    case (deliver f ask r now)
    have here: "Deliver f r now \<in> set (evs @ [ev])" using deliver by simp
    have old: "m \<noteq> fe_source f \<or> is_Inr r = False \<Longrightarrow> spec_deliver (fe_source f) r now (shelf_of c) m = Some (Some fr, x)
        \<Longrightarrow> \<exists>y. shelf_of c m = Some (Some fr, y)" for m fr x
      by (cases r) (auto simp: spec_deliver_def split: if_splits option.splits)
    have new: "spec_deliver (fe_source f) (Inr img) now (shelf_of c) (fe_source f) =
        Some (Some \<lparr> fr_data = img, fr_at = now \<rparr>, None, False)" for img
      by (simp add: spec_deliver_def)
    have "provenance parse (ca_config c) (evs @ [ev]) (spec_deliver (fe_source f) r now (shelf_of c))"
      unfolding provenance_def
    proof (intro allI impI)
      fix n fr x assume a: "spec_deliver (fe_source f) r now (shelf_of c) n = Some (Some fr, x)"
      show "\<exists>f ask. Deliver f (Inr (fr_data fr)) (fr_at fr) \<in> set (evs @ [ev]) \<and> fe_source f = n
          \<and> fetch_still parse ask (ca_config c) n = Inr (fr_data fr)"
      proof (cases "n = fe_source f \<and> is_Inr r")
        case True
        then obtain img where img: "r = Inr img" by (cases r) auto
        with a True new have "fr = \<lparr> fr_data = img, fr_at = now \<rparr>" by simp
        with True img here deliver show ?thesis by auto
      next
        case False
        with old a obtain y where "shelf_of c n = Some (Some fr, y)" by blast
        with more show ?thesis unfolding provenance_def by blast
      qed
    qed
    with more deliver shelf_finish [OF ok, of f r now]
    show "provenance parse (ca_config c) (evs @ [ev]) (shelf_of d)" by simp
  next
    case (replace ns ws)
    have "spec_keep ns (shelf_of c) m = Some y \<Longrightarrow> shelf_of c m = Some y" for m y
      by (simp add: spec_keep_def split: if_splits)
    then show "provenance parse (ca_config c) (evs @ [ev]) (shelf_of d)"
      using more shelf_replace [OF replace(2)] unfolding provenance_def by metis
  qed
qed

lemma provenance_run:
  "cache_run parse c evs d \<Longrightarrow> cache_ok c \<Longrightarrow> shelf_of c = (\<lambda>_. None) \<Longrightarrow>
     provenance parse (ca_config d) evs (shelf_of d)"
proof (induction rule: cache_run.induct)
  case (stop c)
  then show ?case by (simp add: provenance_def)
next
  case (step c evs d ev e)
  then show ?case using provenance_step run_ok by blast
qed

lemma new_cache_shelf: "new_cache parse cfg = Inr c \<Longrightarrow> shelf_of c = (\<lambda>_. None)"
  by (auto simp: new_cache_def Inr_iffs shelf_of_def fun_eq_iff split: sum.splits if_splits)

lemma get_finish_shelf:
  "get_finish now n c = Inr (img, age) \<Longrightarrow>
     \<exists>fr x. shelf_of c n = Some (Some fr, x) \<and> fr_data fr = img \<and> now - fr_at fr = age
        \<and> age \<le> sc_stale_for (ca_config c)"
  by (auto simp: get_finish_def shelf_of_def Let_def split: option.splits if_splits)

text \<open>C28: an image the cache answers with after waiting is no older than the configured limit, is a
  JPEG of at most 8 MiB, and is what the upstream gave for this very stream to a fetch that
  came back exactly \<open>age\<close> before the answer; no interleaving of requests, fetches and reloads
  serves one camera's picture under another's name.\<close>

theorem still_image_honest:
  assumes "new_cache parse cfg = Inr c" and "cache_run parse c evs d"
    and "get_finish now n d = Inr (img, age)"
  shows "age \<le> sc_stale_for (ca_config d) \<and> jpeg_magic img \<and> length img \<le> max_image_bytes
    \<and> (\<exists>f ask. Deliver f (Inr img) (now - age) \<in> set evs \<and> fe_source f = n
         \<and> fetch_still parse ask (ca_config d) n = Inr img)"
proof -
  obtain fr x where fr: "shelf_of d n = Some (Some fr, x)" "fr_data fr = img" "now - fr_at fr = age"
    "age \<le> sc_stale_for (ca_config d)"
    using get_finish_shelf [OF assms(3)] by blast
  have "provenance parse (ca_config d) evs (shelf_of d)"
    using provenance_run assms(1,2) new_cache_ok new_cache_shelf by blast
  with fr(1,2) obtain f ask where f: "Deliver f (Inr img) (fr_at fr) \<in> set evs" "fe_source f = n"
    "fetch_still parse ask (ca_config d) n = Inr img"
    unfolding provenance_def by blast
  have "fr_at fr = now - age" using fr(3) by simp
  moreover have "good_image img" using good_fetch [OF f(3)] .
  ultimately show ?thesis using f fr(4) unfolding good_image_def by auto
qed

text \<open>One whole exchange: the request that starts the fetch, and the fetch that comes back.\<close>

definition sample_fetch :: fetch where
  "sample_fetch = \<lparr> fe_entry = 0, fe_source = ''nursery'', fe_done = 0 \<rparr>"

definition sample_filled :: cache where
  "sample_filled = finish_fetch sample_fetch (Inr (rp_body sample_reply)) 10
     (snd (start_locked ''nursery'' sample_cache))"

lemma sample_start:
  "ca_fetches (snd (start_locked ''nursery'' sample_cache)) = [sample_fetch]"
  by (simp add: sample_cache_eq start_locked_def launch_def sample_fetch_def)

lemma sample_fetched:
  "fetch_still sample_url (\<lambda>_ _. Inr sample_reply) cfg n = Inr (rp_body sample_reply)"
proof -
  have "check_reply sample_reply = Inr (rp_body sample_reply)" by code_simp
  then show ?thesis by (simp add: fetch_still_def sample_url_def)
qed

lemma sample_run2:
  "cache_run sample_url sample_cache
     ([Demand ''nursery''] @ [Deliver sample_fetch (Inr (rp_body sample_reply)) 10]) sample_filled"
  unfolding sample_filled_def
  by (rule cache_run.step [OF sample_run cache_step.deliver [OF _ sample_fetched]]) (simp add: sample_start)

theorem still_image_honest_witness:
  "get_finish 12 ''nursery'' sample_filled = Inr (rp_body sample_reply, 2) \<and> jpeg_magic (rp_body sample_reply)"
proof -
  have g: "get_finish 12 ''nursery'' sample_filled = Inr (rp_body sample_reply, 2)"
    by (simp add: sample_filled_def finish_fetch_def sample_fetch_def start_locked_def launch_def
        sample_cache_eq settle_def get_finish_def default_stale_for_def second_def)
  then show ?thesis using still_image_honest [OF sample_cache sample_run2 g] by blast
qed

text \<open>A request that finds no fresh frame waits for exactly one fetch.  It gets the channel of a
  running fetch for its stream; among the fetches whose entry is in the map no other one runs
  for that stream; and it started a new one only when none was running.\<close>

theorem demand_joins_flight:
  assumes ok: "cache_ok c" and s: "start_locked n c = (ch, d)"
  shows "\<exists>f \<in> set (ca_fetches d). fe_done f = ch \<and> fe_source f = n \<and> attached d f
    \<and> (\<forall>g \<in> set (ca_fetches d). attached d g \<and> fe_source g = n \<longrightarrow> g = f)
    \<and> (d = c \<or> ca_fetches d = ca_fetches c @ [f] \<and> (\<forall>g \<in> set (ca_fetches c). \<not> (attached c g \<and> fe_source g = n)))"
proof -
  have okd: "cache_ok d" using start_ok [OF ok, of n] by (simp add: s)
  have one: "g = f" if "f \<in> set (ca_fetches d)" "g \<in> set (ca_fetches d)" "attached d f" "attached d g"
      "fe_source f = fe_source g" for f g
  proof -
    have "fe_entry f = fe_entry g" using that by (simp add: attached_def)
    moreover have "en_in_flight (ca_heap d ! fe_entry x) = Some (fe_done x)" if "x \<in> set (ca_fetches d)" for x
      using okd that by (simp add: cache_ok_def fetches_ok_def)
    ultimately have "fe_done f = fe_done g" using that(1,2) by (metis option.inject)
    then show ?thesis using that(1,2) okd by (auto simp: cache_ok_def fetches_ok_def distinct_map inj_on_def)
  qed
  have busy: "en_in_flight (ca_heap c ! p) \<noteq> None"
    if "g \<in> set (ca_fetches c)" "attached c g" "fe_source g = n" "ca_entries c n = Some p" for g p
    using that ok by (auto simp: cache_ok_def fetches_ok_def attached_def)
  show ?thesis
  proof (cases rule: start_cases [of c n])
    case (join p q)
    then have d: "d = c" "q = ch" using s by auto
    have "p < length (ca_heap c)" using ok join(1) by (simp add: cache_ok_def entries_ok_def)
    then obtain f where f: "f \<in> set (ca_fetches c)" "fe_entry f = p" "fe_done f = ch"
      using ok join(2) d unfolding cache_ok_def fetches_ok_def by blast
    then have "fe_source f = n" using ok join(1) by (auto simp: cache_ok_def fetches_ok_def)
    then have "attached d f" using f(2) join(1) d by (simp add: attached_def)
    then show ?thesis using f d one \<open>fe_source f = n\<close> by blast
  next
    case (old p)
    let ?f = "\<lparr> fe_entry = p, fe_source = n, fe_done = ca_chans c \<rparr>"
    have d: "ca_fetches d = ca_fetches c @ [?f]" "ca_entries d = ca_entries c" "ch = ca_chans c"
      using old(3) s by (auto simp: launch_def)
    then have a: "?f \<in> set (ca_fetches d)" "attached d ?f" using old(1) by (simp_all add: attached_def)
    have "\<forall>g \<in> set (ca_fetches c). \<not> (attached c g \<and> fe_source g = n)" using busy old(1,2) by blast
    with a d(1,3) one [OF a(1) _ a(2)] show ?thesis by (intro bexI [of _ ?f]) auto
  next
    case fresh
    let ?f = "\<lparr> fe_entry = length (ca_heap c), fe_source = n, fe_done = ca_chans c \<rparr>"
    have d: "ca_fetches d = ca_fetches c @ [?f]" "ca_entries d n = Some (length (ca_heap c))" "ch = ca_chans c"
      using fresh(2) s by (auto simp: launch_def)
    then have a: "?f \<in> set (ca_fetches d)" "attached d ?f" by (simp_all add: attached_def)
    have "\<forall>g \<in> set (ca_fetches c). \<not> (attached c g \<and> fe_source g = n)"
      using fresh(1) by (auto simp: attached_def)
    with a d(1,3) one [OF a(1) _ a(2)] show ?thesis by (intro bexI [of _ ?f]) auto
  qed
qed

theorem demand_joins_flight_witness:
  "\<exists>f \<in> set (ca_fetches (snd (start_locked ''lounge'' sample_filled))). fe_source f = ''lounge''"
proof -
  have "start_locked ''lounge'' sample_filled = (fst (start_locked ''lounge'' sample_filled), snd (start_locked ''lounge'' sample_filled))"
    by simp
  from demand_joins_flight [OF run_ok [OF sample_run2 new_cache_ok [OF sample_cache]] this]
  show ?thesis by blast
qed

text \<open>Across a reload that drops a stream and one that brings it back, two fetches for one
  camera run at the same time, the first of them for an entry no request can reach any more.\<close>

theorem two_flights_after_reload:
  "\<exists>evs d. cache_run sample_url sample_cache evs d
     \<and> map fe_source (ca_fetches d) = [''nursery'', ''nursery'']
     \<and> map (attached d) (ca_fetches d) = [False, True]"
proof -
  let ?c1 = "snd (start_locked ''nursery'' sample_cache)"
  let ?c2 = "?c1\<lparr> ca_streams := {''lounge''}, ca_warm := [], ca_entries := (\<lambda>n. if n = ''lounge'' then ca_entries ?c1 n else None) \<rparr>"
  let ?c3 = "?c2\<lparr> ca_streams := {''nursery''}, ca_warm := [], ca_entries := (\<lambda>n. if n = ''nursery'' then ca_entries ?c2 n else None) \<rparr>"
  let ?c4 = "snd (start_locked ''nursery'' ?c3)"
  have s1: "cache_step sample_url ?c1 (Replace [''lounge''] []) ?c2"
    by (rule cache_step.replace) (simp add: replace_streams_def stream_sets_def Let_def)
  have s2: "cache_step sample_url ?c2 (Replace [''nursery''] []) ?c3"
    by (rule cache_step.replace) (simp add: replace_streams_def stream_sets_def Let_def)
  have run: "cache_run sample_url sample_cache
      ((([Demand ''nursery''] @ [Replace [''lounge''] []]) @ [Replace [''nursery''] []]) @ [Demand ''nursery'']) ?c4"
    by (intro cache_run.step [OF _ cache_step.demand] cache_run.step [OF _ s2] cache_run.step [OF sample_run s1])
  have "map fe_source (ca_fetches ?c4) = [''nursery'', ''nursery'']"
      "map (attached ?c4) (ca_fetches ?c4) = [False, True]"
    by (simp_all add: sample_cache_eq start_locked_def launch_def attached_def)
  then show ?thesis by (intro exI conjI) (rule run)
qed

subsection \<open>Requests\<close>

text \<open>The handler asks the cache for a stream exactly when the peer is trusted, the method is GET
  or HEAD, the token matches where one is set and demanded, and \<open>src\<close> names a stream that may be
  requested; otherwise it answers 403, 405, 401 or 404 in this order of checks.\<close>

theorem still_gate_exact:
  "still_gate require_token c r =
     (let q = parse_query (req_query r); trusted = guard_allow (Some (ca_guard c)) (req_remote r);
          reading = req_method r = ''GET'' \<or> req_method r = ''HEAD'';
          known = require_token = False \<or> sc_token (ca_config c) = [] \<or> query_get q ''token'' = sc_token (ca_config c)
      in if trusted \<and> reading \<and> known \<and> query_get q ''src'' \<in> ca_streams c then Inr (query_get q ''src'')
         else if trusted \<and> reading \<and> known then Inl (404, ''unknown camera'')
         else if trusted \<and> reading then Inl (401, ''unauthorized'')
         else if trusted then Inl (405, ''method not allowed'')
         else Inl (403, ''forbidden''))"
  by (simp add: still_gate_def cache_allows_def Let_def)

lemma query_get_url:
  "query_get ((''src'', s) # (if k \<noteq> [] then [(''token'', k)] else [])) ''src'' = s"
  "query_get ((''src'', s) # (if k \<noteq> [] then [(''token'', k)] else [])) ''token'' = k"
  by (simp_all add: query_get_def query_values_def)

text \<open>The URL published for a stream works: whatever bytes the stream's name and the token
  contain, a GET of the URL's query from a trusted peer passes the handler's token check and
  asks the cache for exactly that stream, as long as the stream may be requested.\<close>

theorem snapshot_url_accepted:
  assumes "snapshot_url parse base stream (cache_token (Some c)) = Some (u, q)"
    and "guard_allow (Some (ca_guard c)) (req_remote r)" and "stream \<in> ca_streams c"
    and "req_method r = ''GET''" and "req_query r = q"
  shows "still_gate True c r = Inr stream"
proof -
  define p where "p = (''src'', stream) #
      (if sc_token (ca_config c) \<noteq> [] then [(''token'', sc_token (ca_config c))] else [])"
  have "q = encode_query p"
    using assms(1) by (simp add: snapshot_url_def cache_token_def p_def split: if_splits option.splits)
  then have p: "parse_query (req_query r) = p" by (simp only: assms(5) parse_encode_query)
  have "query_get p ''src'' = stream" "query_get p ''token'' = sc_token (ca_config c)"
    unfolding p_def by (rule query_get_url)+
  then show ?thesis using assms(2,3,4) by (simp add: still_gate_exact p Let_def)
qed

theorem snapshot_url_accepted_witness:
  "still_gate True sample_cache (sample_request\<lparr> req_query := ''src=nursery&token=secret'' \<rparr>) = Inr ''nursery''"
proof (rule snapshot_url_accepted)
  have "encode_query [(''src'', ''nursery''), (''token'', ''secret'')] = ''src=nursery&token=secret''" by code_simp
  then show "snapshot_url sample_url ''http://addon:8099'' ''nursery'' (cache_token (Some sample_cache)) =
      Some (\<lparr> url_scheme = ''http'', url_host = ''127.0.0.1:1984'', url_path = ''/snapshot'' \<rparr>, ''src=nursery&token=secret'')"
    by (simp add: snapshot_url_def cache_token_def sample_cache_eq sample_still_def sample_url_def
        trim_suffix_def snapshot_path_def)
  have "guard_allow (Some supervisor_networks) (req_remote sample_request)" by code_simp
  then show "guard_allow (Some (ca_guard sample_cache)) (req_remote (sample_request\<lparr> req_query := ''src=nursery&token=secret'' \<rparr>))"
    by (simp add: sample_cache_eq)
qed (simp_all add: sample_cache_eq sample_request_def)

text \<open>The allow list of the cache, with \<open>SetStreams\<close> that fails on an empty list leaving it alone.\<close>

definition set_cache_streams :: "string list \<Rightarrow> cache \<Rightarrow> cache" where
  "set_cache_streams ns c = (case replace_streams ns [] c of Inl _ \<Rightarrow> c | Inr d \<Rightarrow> d)"

interpretation cache_streams: allow_list set_cache_streams cache_allows "\<lambda>ns. \<exists>n \<in> set ns. n \<noteq> []"
  by unfold_locales (auto simp: set_cache_streams_def replace_streams_def stream_sets_def cache_allows_def
      Let_def filter_empty_conv)

subsection \<open>The token survives a restart\<close>

lemma hex_encode_printable: "list_all printable (hex_encode bs)"
proof -
  have "hex_char c \<Longrightarrow> printable c" for c by (auto simp: hex_char_def is_digit_def printable_def)
  then show ?thesis using hex_encode_chars [of bs] by (auto simp: list_all_iff)
qed

lemma trim_space_line:
  assumes "list_all printable s" and "s \<noteq> []"
  shows "trim_space (s @ [CHR 0x0A]) = s"
proof -
  have r: "list_all printable (rev s)" "rev s \<noteq> []" using assms by (simp_all add: list_all_iff)
  have "space_width (s @ [CHR 0x0A]) = 0"
    using assms by (cases s) (auto intro!: space_width_ascii dest: printable_ascii printable_not_space)
  moreover have "rev_space_width (rev s) = 0"
    using r by (cases "rev s") (auto intro!: rev_space_width_ascii dest: printable_ascii printable_not_space)
  moreover have "rev_space_width (CHR 0x0A # rev s) = 1" by (simp add: rev_space_width_def)
  ultimately show ?thesis
    by (simp add: trim_space_def drop_spaces_stop) (simp add: drop_spaces.simps)
qed

text \<open>A token that was created and written is read back by the next start, whatever the random
  source, the directory and the file system would do then: the file is not written again, and
  the URL Home Assistant holds stays valid.\<close>

theorem token_survives_restart:
  assumes "load_or_create_token path file (Inr bs) mkdir store = (Inr token, Some text)" and "length bs = 32"
  shows "token = hex_encode bs \<and> length token = 64
    \<and> load_or_create_token path (FileText text) random' mkdir' store' = (Inr token, None)"
proof -
  have t: "token = hex_encode bs" "text = token @ [CHR 0x0A]" "path \<noteq> []"
    using assms(1) by (auto simp: load_or_create_token_def new_token_def Let_def
        split: if_splits file_read.splits option.splits)
  have len: "length token = 64" using t(1) assms(2) by (simp add: length_hex_encode)
  then have "trim_space text = token"
    using t(1,2) trim_space_line [OF hex_encode_printable, of bs] by fastforce
  then show ?thesis using t len by (simp add: load_or_create_token_def Let_def)
qed

theorem token_survives_restart_witness:
  "load_or_create_token ''/data/token'' (FileText (hex_encode (replicate 32 7) @ [CHR 0x0A])) (Inl ''no entropy'') None None
     = (Inr (hex_encode (replicate 32 7)), None)"
proof -
  have "load_or_create_token ''/data/token'' FileMissing (Inr (replicate 32 7)) None None =
      (Inr (hex_encode (replicate 32 7)), Some (hex_encode (replicate 32 7) @ [CHR 0x0A]))"
    by (simp add: load_or_create_token_def new_token_def Let_def)
  from token_survives_restart [OF this, of "Inl ''no entropy''" None None] show ?thesis by simp
qed

end
