(* ===== verification/Mqtt_Discovery.thy ===== *)
theory Mqtt_Discovery
  imports Ingress Registry Control_Supervisor
begin

text \<open>
  \<open>internal/mqttdiscovery/service.go\<close>: the cameras and their state as Home Assistant discovers
  them over MQTT.

  The service keeps its own picture of the cameras under a mutex and publishes outside it.  An
  operation is therefore its effect on the picture and a list of \<open>work\<close> to be done after the
  unlock; \<open>publishCamera\<close> reads the picture again when its turn comes, so it stays one item
  (\<open>CameraWork\<close>) until then.  A payload is a text or a discovery message, the structure that
  \<open>encoding/json\<close> prints; every message is retained.  The MQTT client library is outside the
  model but for the options it is given; a temperature is in tenths of a degree, as in
  \<open>Device_Control\<close>.
\<close>

subsection \<open>Data\<close>

definition default_base_topic :: string where
  "default_base_topic = ''motorola-nursery-bridge''"

definition bridge_object_id :: string where
  "bridge_object_id = ''motorola_nursery_bridge''"

record discovery_config =
  mc_host :: string
  mc_port :: int
  mc_username :: string
  mc_password :: string
  mc_prefix :: string
  mc_client_id :: string
  mc_tls :: bool
  mc_base :: string
  mc_bridge_name :: string
  mc_version :: string
  mc_url :: string
  mc_frames :: bool

record mqtt_camera =
  mq_id :: string
  mq_name :: string
  mq_model :: string
  mq_stream_url :: string
  mq_snapshot_url :: string

record mqtt_status =
  ms_sessions :: int
  ms_reconnects :: nat

record availability_block =
  ab_topic :: string
  ab_available :: string
  ab_unavailable :: string

record discovery_device =
  dv_identifiers :: "string list"
  dv_name :: string
  dv_manufacturer :: string
  dv_model :: string
  dv_version :: string
  dv_url :: string
  dv_via :: string

record entity =
  et_name :: string
  et_unique_id :: string
  et_state_topic :: string
  et_url_topic :: string
  et_topic :: string
  et_device_class :: string
  et_state_class :: string
  et_unit :: string
  et_on :: string
  et_off :: string
  et_icon :: string
  et_category :: string
  et_availability :: "availability_block list"
  et_availability_mode :: string
  et_device :: discovery_device

text \<open>An entity with the keys every one has; the others are left out of the message.\<close>

definition plain_entity :: "string \<Rightarrow> string \<Rightarrow> discovery_device \<Rightarrow> entity" where
  "plain_entity name uid d =
     \<lparr>et_name = name, et_unique_id = uid, et_state_topic = [], et_url_topic = [], et_topic = [],
      et_device_class = [], et_state_class = [], et_unit = [], et_on = [], et_off = [], et_icon = [],
      et_category = [], et_availability = [], et_availability_mode = [], et_device = d\<rparr>"

datatype payload = Text string | Discovery entity

record mqtt_service =
  mqs_config :: discovery_config
  mqs_connected :: bool
  mqs_cameras :: "(string \<times> mqtt_camera) list"
  mqs_available :: "string \<Rightarrow> bool option"
  mqs_temp_supported :: "string \<Rightarrow> bool option"
  mqs_temp_available :: "string \<Rightarrow> bool option"
  mqs_status :: mqtt_status

text \<open>Reading a Go \<open>map[string]bool\<close>: a missing key reads as false.\<close>

definition flag :: "(string \<Rightarrow> bool option) \<Rightarrow> string \<Rightarrow> bool" where
  "flag m k \<longleftrightarrow> m k = Some True"

subsection \<open>Topics\<close>

fun object_loop :: "unicode \<Rightarrow> nat list \<Rightarrow> string" where
  "object_loop u [] = []"
| "object_loop u (r # rs) =
     (if rune_alnum u r \<or> r = 45 \<or> r = 95 then map char_of (encode_rune r) else ''_'') @ object_loop u rs"

definition object_id :: "unicode \<Rightarrow> string \<Rightarrow> string" where
  "object_id u i =
     (let result = trim ''_'' (object_loop u (to_lower_runes u i))
      in if result = [] then ''camera'' else result)"

definition discovery_topic :: "discovery_config \<Rightarrow> string \<Rightarrow> string \<Rightarrow> string" where
  "discovery_topic cfg component object =
     mc_prefix cfg @ ''/'' @ component @ ''/'' @ object @ ''/config''"

definition camera_topic :: "unicode \<Rightarrow> discovery_config \<Rightarrow> string \<Rightarrow> string \<Rightarrow> string" where
  "camera_topic u cfg i leaf = mc_base cfg @ ''/camera/'' @ object_id u i @ ''/'' @ leaf"

definition availability_topic :: "discovery_config \<Rightarrow> string" where
  "availability_topic cfg = mc_base cfg @ ''/availability''"

definition status_topic :: "discovery_config \<Rightarrow> string \<Rightarrow> string" where
  "status_topic cfg leaf = mc_base cfg @ ''/status/'' @ leaf"

definition availability_payload :: "bool \<Rightarrow> string" where
  "availability_payload available = (if available then ''online'' else ''offline'')"

definition online_block :: "string \<Rightarrow> availability_block" where
  "online_block t = \<lparr>ab_topic = t, ab_available = ''online'', ab_unavailable = ''offline''\<rparr>"

definition bridge_availability :: "discovery_config \<Rightarrow> availability_block list" where
  "bridge_availability cfg = [online_block (availability_topic cfg)]"

definition camera_availability_blocks :: "unicode \<Rightarrow> discovery_config \<Rightarrow> string \<Rightarrow> availability_block list" where
  "camera_availability_blocks u cfg i =
     bridge_availability cfg @ [online_block (camera_topic u cfg i ''availability'')]"

subsection \<open>The discovery messages\<close>

definition bridge_device :: "discovery_config \<Rightarrow> discovery_device" where
  "bridge_device cfg =
     \<lparr>dv_identifiers = [bridge_object_id], dv_name = mc_bridge_name cfg, dv_manufacturer = ''Motorola'',
      dv_model = ''Nursery Bridge'', dv_version = mc_version cfg, dv_url = mc_url cfg, dv_via = []\<rparr>"

definition camera_device :: "mqtt_camera \<Rightarrow> discovery_device" where
  "camera_device c =
     \<lparr>dv_identifiers = [mq_id c], dv_name = mq_name c, dv_manufacturer = ''Motorola'',
      dv_model = (if mq_model c = [] then ''Nursery Camera'' else mq_model c),
      dv_version = [], dv_url = [], dv_via = bridge_object_id\<rparr>"

definition link_entity :: "unicode \<Rightarrow> discovery_config \<Rightarrow> mqtt_camera \<Rightarrow> entity" where
  "link_entity u cfg c =
     (plain_entity ''Link'' (mq_id c @ ''_link'') (camera_device c))
       \<lparr>et_state_topic := camera_topic u cfg (mq_id c) ''availability'', et_device_class := ''connectivity'',
        et_on := ''online'', et_off := ''offline'', et_availability := [online_block (availability_topic cfg)],
        et_category := ''diagnostic''\<rparr>"

definition image_entity :: "unicode \<Rightarrow> discovery_config \<Rightarrow> mqtt_camera \<Rightarrow> entity" where
  "image_entity u cfg c =
     (plain_entity ''Snapshot'' (mq_id c @ ''_snapshot'') (camera_device c))
       \<lparr>et_url_topic := camera_topic u cfg (mq_id c) ''snapshot_url'',
        et_availability := camera_availability_blocks u cfg (mq_id c), et_availability_mode := ''all''\<rparr>"

definition camera_entity :: "unicode \<Rightarrow> discovery_config \<Rightarrow> mqtt_camera \<Rightarrow> entity" where
  "camera_entity u cfg c =
     (plain_entity ''Camera'' (mq_id c @ ''_camera'') (camera_device c))
       \<lparr>et_topic := camera_topic u cfg (mq_id c) ''image'',
        et_availability := camera_availability_blocks u cfg (mq_id c), et_availability_mode := ''all'',
        et_icon := ''mdi:cctv''\<rparr>"

definition degree_celsius :: string where
  "degree_celsius = [CHR 0xC2, CHR 0xB0, CHR ''C'']"

definition temperature_entity :: "unicode \<Rightarrow> discovery_config \<Rightarrow> mqtt_camera \<Rightarrow> entity" where
  "temperature_entity u cfg c =
     (plain_entity ''Temperature'' (mq_id c @ ''_temperature'') (camera_device c))
       \<lparr>et_state_topic := camera_topic u cfg (mq_id c) ''temperature'', et_device_class := ''temperature'',
        et_state_class := ''measurement'', et_unit := degree_celsius,
        et_availability := bridge_availability cfg
          @ [online_block (camera_topic u cfg (mq_id c) ''temperature_availability'')],
        et_availability_mode := ''all''\<rparr>"

text \<open>The three entities of the bridge itself, each with its component and object.\<close>

definition bridge_entities :: "discovery_config \<Rightarrow> (string \<times> string \<times> entity) list" where
  "bridge_entities cfg =
     (let d = bridge_device cfg; av = bridge_availability cfg;
          i = (\<lambda>suffix. bridge_object_id @ suffix) in
      [(''binary_sensor'', i ''_connection'',
        (plain_entity ''Connection'' (i ''_connection'') d)
          \<lparr>et_state_topic := availability_topic cfg, et_device_class := ''connectivity'',
           et_on := ''online'', et_off := ''offline'', et_category := ''diagnostic''\<rparr>),
       (''sensor'', i ''_active_sessions'',
        (plain_entity ''Active sessions'' (i ''_active_sessions'') d)
          \<lparr>et_state_topic := status_topic cfg ''active_sessions'', et_state_class := ''measurement'',
           et_unit := ''sessions'', et_icon := ''mdi:video-account'', et_category := ''diagnostic'',
           et_availability := av\<rparr>),
       (''sensor'', i ''_reconnects'',
        (plain_entity ''Bridge restarts'' (i ''_reconnects'') d)
          \<lparr>et_state_topic := status_topic cfg ''reconnects'', et_state_class := ''total_increasing'',
           et_icon := ''mdi:restart-alert'', et_category := ''diagnostic'', et_availability := av\<rparr>)])"

subsection \<open>What is published\<close>

type_synonym publish = "string \<times> payload"

definition publish_entity :: "discovery_config \<Rightarrow> string \<Rightarrow> string \<Rightarrow> entity \<Rightarrow> publish" where
  "publish_entity cfg component object e = (discovery_topic cfg component object, Discovery e)"

definition publish_bridge :: "discovery_config \<Rightarrow> publish list" where
  "publish_bridge cfg = map (\<lambda>(component, object, e). publish_entity cfg component object e) (bridge_entities cfg)"

definition publish_temperature :: "unicode \<Rightarrow> discovery_config \<Rightarrow> mqtt_camera \<Rightarrow> bool \<Rightarrow> bool \<Rightarrow> publish list" where
  "publish_temperature u cfg c supported available =
     (let object = object_id u (mq_id c) in
      if \<not> supported then
        [(discovery_topic cfg ''sensor'' (object @ ''_temperature''), Text []),
         (camera_topic u cfg (mq_id c) ''temperature'', Text []),
         (camera_topic u cfg (mq_id c) ''temperature_availability'', Text [])]
      else
        [publish_entity cfg ''sensor'' (object @ ''_temperature'') (temperature_entity u cfg c),
         (camera_topic u cfg (mq_id c) ''temperature_availability'', Text (availability_payload available))])"

definition publish_camera :: "unicode \<Rightarrow> mqtt_service \<Rightarrow> mqtt_camera \<Rightarrow> publish list" where
  "publish_camera u s c =
     (let cfg = mqs_config s; object = object_id u (mq_id c); available = flag (mqs_available s) (mq_id c) in
      [publish_entity cfg ''binary_sensor'' (object @ ''_link'') (link_entity u cfg c),
       (camera_topic u cfg (mq_id c) ''availability'', Text (availability_payload available))]
      @ (if mq_snapshot_url c \<noteq> [] then
           [publish_entity cfg ''image'' object (image_entity u cfg c),
            (camera_topic u cfg (mq_id c) ''snapshot_url'', Text (mq_snapshot_url c))]
         else [(discovery_topic cfg ''image'' object, Text [])])
      @ (if mc_frames cfg then [publish_entity cfg ''camera'' object (camera_entity u cfg c)]
         else [(discovery_topic cfg ''camera'' object, Text []),
               (camera_topic u cfg (mq_id c) ''image'', Text [])])
      @ publish_temperature u cfg c (flag (mqs_temp_supported s) (mq_id c)) (flag (mqs_temp_available s) (mq_id c)))"

definition publish_status :: "discovery_config \<Rightarrow> mqtt_status \<Rightarrow> publish list" where
  "publish_status cfg st =
     [(status_topic cfg ''active_sessions'', Text (itoa (ms_sessions st))),
      (status_topic cfg ''reconnects'', Text (dec_digits (ms_reconnects st)))]"

text \<open>\<open>strconv.FormatFloat\<close> of a number of tenths: as few digits as tell it from its neighbours.\<close>

definition format_tenths :: "int \<Rightarrow> string" where
  "format_tenths t = itoa (t div 10) @ (if t mod 10 = 0 then [] else ''.'' @ itoa (t mod 10))"

subsection \<open>The operations\<close>

datatype mqtt_error =
    NoCameraIdentity | BadStreamUrl | BadSnapshotUrl | CameraUnknown | TemperatureUnknown
  | TemperatureOutOfRange | FrameNotJpeg | BadBroker

datatype work = Notify bool | Send publish | CameraWork mqtt_camera

type_synonym mqtt_result = "mqtt_error + mqtt_service \<times> work list"

definition when_connected :: "mqtt_service \<Rightarrow> work list \<Rightarrow> mqtt_service \<times> work list" where
  "when_connected s ws = (s, if mqs_connected s then ws else [])"

definition new_service :: "discovery_config \<Rightarrow> mqtt_service" where
  "new_service config =
     (let c1 = config\<lparr>mc_prefix := trim ''/'' (mc_prefix config)\<rparr>;
          c2 = (if mc_base c1 = [] then c1\<lparr>mc_base := default_base_topic\<rparr> else c1);
          c3 = c2\<lparr>mc_base := trim ''/'' (mc_base c2)\<rparr>;
          c4 = (if mc_bridge_name c3 = [] then c3\<lparr>mc_bridge_name := ''Motorola Nursery Homeassistant Bridge''\<rparr> else c3)
      in \<lparr>mqs_config = c4, mqs_connected = False, mqs_cameras = [], mqs_available = (\<lambda>_. None),
          mqs_temp_supported = (\<lambda>_. None), mqs_temp_available = (\<lambda>_. None),
          mqs_status = \<lparr>ms_sessions = 0, ms_reconnects = 0\<rparr>\<rparr>)"

definition start_check :: "mqtt_service \<Rightarrow> mqtt_error option" where
  "start_check s =
     (let cfg = mqs_config s in
      if mc_host cfg = [] \<or> mc_port cfg < 1 \<or> 65535 < mc_port cfg \<or> mc_prefix cfg = []
      then Some BadBroker else None)"

definition set_temperature_supported :: "unicode \<Rightarrow> string \<Rightarrow> bool \<Rightarrow> mqtt_service \<Rightarrow> mqtt_result" where
  "set_temperature_supported u i supported s =
     (case map_of (mqs_cameras s) i of
        None \<Rightarrow> Inl TemperatureUnknown
      | Some c \<Rightarrow>
          (let s = s\<lparr>mqs_temp_supported := (mqs_temp_supported s)(i \<mapsto> supported)\<rparr>;
               s = (if supported then s
                    else s\<lparr>mqs_temp_available := (mqs_temp_available s)(i := None)\<rparr>)
           in Inr (when_connected s
                (map Send (publish_temperature u (mqs_config s) c supported (flag (mqs_temp_available s) i))))))"

definition set_temperature_available :: "unicode \<Rightarrow> string \<Rightarrow> bool \<Rightarrow> mqtt_service \<Rightarrow> mqtt_result" where
  "set_temperature_available u i available s =
     (let registered = map_of (mqs_cameras s) i \<noteq> None;
          supported = flag (mqs_temp_supported s) i;
          previous = mqs_temp_available s i;
          s = (if registered then s\<lparr>mqs_temp_available := (mqs_temp_available s)(i \<mapsto> available)\<rparr> else s)
      in if \<not> registered \<or> \<not> supported \<or> \<not> mqs_connected s \<or> previous = Some available then Inr (s, [])
         else Inr (s, [Send (camera_topic u (mqs_config s) i ''temperature_availability'',
                             Text (availability_payload available))]))"

definition publish_reading :: "unicode \<Rightarrow> string \<Rightarrow> int \<Rightarrow> mqtt_service \<Rightarrow> mqtt_result" where
  "publish_reading u i tenths s =
     (if tenths \<le> 0 \<or> 500 \<le> tenths then Inl TemperatureOutOfRange
      else let registered = map_of (mqs_cameras s) i \<noteq> None;
               supported = flag (mqs_temp_supported s) i;
               s = (if registered then s\<lparr>mqs_temp_available := (mqs_temp_available s)(i \<mapsto> True)\<rparr> else s)
           in if \<not> registered \<or> \<not> supported \<or> \<not> mqs_connected s then Inr (s, [])
              else Inr (s, [Send (camera_topic u (mqs_config s) i ''temperature'', Text (format_tenths tenths)),
                            Send (camera_topic u (mqs_config s) i ''temperature_availability'', Text ''online'')]))"

definition upsert_camera :: "(string \<Rightarrow> url option) \<Rightarrow> mqtt_camera \<Rightarrow> mqtt_service \<Rightarrow> mqtt_result" where
  "upsert_camera parse c s =
     (if mq_id c = [] \<or> mq_name c = [] then Inl NoCameraIdentity
      else if mq_stream_url c \<noteq> [] \<and> (case parse (mq_stream_url c) of None \<Rightarrow> True
                | Some p \<Rightarrow> url_scheme p \<noteq> ''rtsp'' \<or> url_host p = []) then Inl BadStreamUrl
      else if mq_snapshot_url c \<noteq> [] \<and> \<not> absolute_http (parse (mq_snapshot_url c)) then Inl BadSnapshotUrl
      else let s = s\<lparr>mqs_cameras := AList.update (mq_id c) c (mqs_cameras s)\<rparr>;
               s = (if mqs_available s (mq_id c) = None
                    then s\<lparr>mqs_available := (mqs_available s)(mq_id c \<mapsto> True)\<rparr> else s)
           in Inr (when_connected s [CameraWork c]))"

definition set_camera_available :: "unicode \<Rightarrow> string \<Rightarrow> bool \<Rightarrow> mqtt_service \<Rightarrow> mqtt_result" where
  "set_camera_available u i available s =
     (let previous = mqs_available s i;
          s = s\<lparr>mqs_available := (mqs_available s)(i \<mapsto> available)\<rparr>
      in if \<not> mqs_connected s \<or> previous = Some available then Inr (s, [])
         else Inr (s, [Send (camera_topic u (mqs_config s) i ''availability'', Text (availability_payload available))]))"

definition publish_frame :: "unicode \<Rightarrow> string \<Rightarrow> string \<Rightarrow> mqtt_service \<Rightarrow> mqtt_result" where
  "publish_frame u i jpeg s =
     (if length jpeg < 2 \<or> jpeg ! 0 \<noteq> CHR 0xFF \<or> jpeg ! 1 \<noteq> CHR 0xD8 then Inl FrameNotJpeg
      else if map_of (mqs_cameras s) i = None then Inl CameraUnknown
      else if \<not> mqs_connected s \<or> \<not> mc_frames (mqs_config s) then Inr (s, [])
      else Inr (s, [Send (camera_topic u (mqs_config s) i ''image'', Text jpeg)]))"

definition publish_status_op :: "mqtt_status \<Rightarrow> mqtt_service \<Rightarrow> mqtt_result" where
  "publish_status_op st s =
     (let s = s\<lparr>mqs_status := st\<rparr> in Inr (when_connected s (map Send (publish_status (mqs_config s) st))))"

definition removal_topics :: "unicode \<Rightarrow> discovery_config \<Rightarrow> string \<Rightarrow> string list" where
  "removal_topics u cfg i =
     (let object = object_id u i in
      [discovery_topic cfg ''image'' object, discovery_topic cfg ''camera'' object,
       discovery_topic cfg ''binary_sensor'' (object @ ''_link''),
       discovery_topic cfg ''sensor'' (object @ ''_temperature''),
       camera_topic u cfg i ''image'', camera_topic u cfg i ''temperature'',
       camera_topic u cfg i ''temperature_availability''])"

definition remove_camera :: "unicode \<Rightarrow> string \<Rightarrow> mqtt_service \<Rightarrow> mqtt_result" where
  "remove_camera u i s =
     (let s = s\<lparr>mqs_cameras := AList.delete i (mqs_cameras s),
               mqs_available := (mqs_available s)(i := None),
               mqs_temp_supported := (mqs_temp_supported s)(i := None),
               mqs_temp_available := (mqs_temp_available s)(i := None)\<rparr>
      in Inr (when_connected s (map (\<lambda>t. Send (t, Text [])) (removal_topics u (mqs_config s) i))))"

definition close_service :: "mqtt_service \<Rightarrow> mqtt_result" where
  "close_service s =
     Inr (s\<lparr>mqs_connected := False\<rparr>,
          if mqs_connected s then [Send (availability_topic (mqs_config s), Text ''offline'')] else [])"

definition on_connect :: "mqtt_service \<Rightarrow> mqtt_result" where
  "on_connect s =
     (let s = s\<lparr>mqs_connected := True\<rparr>; cameras = sort_key mq_id (map snd (mqs_cameras s)) in
      Inr (s, [Notify True, Send (availability_topic (mqs_config s), Text ''online'')]
              @ map Send (publish_bridge (mqs_config s))
              @ map CameraWork cameras
              @ map Send (publish_status (mqs_config s) (mqs_status s))))"

definition on_connection_lost :: "mqtt_service \<Rightarrow> mqtt_result" where
  "on_connection_lost s = Inr (s\<lparr>mqs_connected := False\<rparr>, [Notify False])"

subsection \<open>The client library's part\<close>

record client_options =
  po_broker :: string
  po_client_id :: string
  po_username :: string
  po_password :: string
  po_retry_interval :: int
  po_max_reconnect :: int
  po_keep_alive :: int
  po_ping_timeout :: int
  po_will :: "string \<times> string \<times> nat \<times> bool"

definition broker_url :: "bool \<Rightarrow> string \<Rightarrow> int \<Rightarrow> string" where
  "broker_url tls host port = (if tls then ''ssl://'' else ''tcp://'') @ host @ '':'' @ itoa port"

definition client_options_of :: "mqtt_service \<Rightarrow> client_options" where
  "client_options_of s =
     (let cfg = mqs_config s in
      \<lparr>po_broker = broker_url (mc_tls cfg) (mc_host cfg) (mc_port cfg),
       po_client_id = (if mc_client_id cfg = [] then ''motorola-nursery-bridge'' else mc_client_id cfg),
       po_username = mc_username cfg, po_password = mc_password cfg,
       po_retry_interval = 5 * second, po_max_reconnect = 60 * second,
       po_keep_alive = 30 * second, po_ping_timeout = 10 * second,
       po_will = (availability_topic cfg, ''offline'', 1, True)\<rparr>)"

text \<open>\<open>waitToken\<close>: the time left on the context when it has a deadline, the context's own error
  then, how long the token takes and its error.\<close>

datatype wait_error = ContextError string | OperationTimedOut | TokenError string

definition wait_token :: "int option \<Rightarrow> string option \<Rightarrow> int \<Rightarrow> string option \<Rightarrow> wait_error option" where
  "wait_token left ctx_err takes token_err =
     (let timeout = (case left of None \<Rightarrow> 10 * second | Some d \<Rightarrow> d) in
      if timeout \<le> 0 then map_option ContextError ctx_err
      else if timeout < takes then Some OperationTimedOut
      else map_option TokenError token_err)"

end
