(* ===== verification/Mqtt_Mirror.thy ===== *)
theory Mqtt_Mirror
  imports Mqtt_Discovery
begin

text \<open>
  What the broker shows of the service (internal/mqttdiscovery/service.go).  The broker is what it
  retains: an empty message removes what the topic had, as MQTT has it.  \<open>perform\<close> does an
  operation's work in one go, every publish acknowledged: then the broker mirrors the service's
  picture (\<open>mirrored\<close>).  \<open>mqtt_step\<close> interleaves the work of concurrent operations and lets
  publishes fail: then it need not.
\<close>

subsection \<open>The broker\<close>

type_synonym broker = "string \<Rightarrow> payload option"

definition stored :: "payload \<Rightarrow> payload option" where
  "stored p = (if p = Text [] then None else Some p)"

definition deliver :: "publish list \<Rightarrow> broker \<Rightarrow> broker" where
  "deliver ps b = fold (\<lambda>(t, p) b. b(t := stored p)) ps b"

fun work_publishes :: "unicode \<Rightarrow> mqtt_service \<Rightarrow> work \<Rightarrow> publish list" where
  "work_publishes u s (Notify c) = []"
| "work_publishes u s (Send p) = [p]"
| "work_publishes u s (CameraWork c) = publish_camera u s c"

definition perform :: "unicode \<Rightarrow> mqtt_service \<Rightarrow> work list \<Rightarrow> broker \<Rightarrow> broker" where
  "perform u s ws b = deliver (concat (map (work_publishes u s) ws)) b"

datatype mqtt_op =
    Upsert mqtt_camera
  | Remove string
  | CameraUp string bool
  | Report string report
  | Frame string string
  | Status mqtt_status
  | Connect
  | Lose
  | Close

fun apply_op :: "unicode \<Rightarrow> (string \<Rightarrow> url option) \<Rightarrow> mqtt_op \<Rightarrow> mqtt_service \<Rightarrow> mqtt_result" where
  "apply_op u parse (Upsert c) s = upsert_camera parse c s"
| "apply_op u parse (Remove i) s = remove_camera u i s"
| "apply_op u parse (CameraUp i up) s = set_camera_available u i up s"
| "apply_op u parse (Report i (Available b)) s = set_temperature_available u i b s"
| "apply_op u parse (Report i (Supported b)) s = set_temperature_supported u i b s"
| "apply_op u parse (Report i (Reading t)) s = publish_reading u i t s"
| "apply_op u parse (Frame i jpeg) s = publish_frame u i jpeg s"
| "apply_op u parse (Status st) s = publish_status_op st s"
| "apply_op u parse Connect s = on_connect s"
| "apply_op u parse Lose s = on_connection_lost s"
| "apply_op u parse Close s = close_service s"

text \<open>One operation after the other, every publish acknowledged.\<close>

definition do_op :: "unicode \<Rightarrow> (string \<Rightarrow> url option) \<Rightarrow> mqtt_op \<Rightarrow> mqtt_service \<times> broker \<Rightarrow> mqtt_service \<times> broker" where
  "do_op u parse op sb =
     (case apply_op u parse op (fst sb) of
        Inl e \<Rightarrow> sb
      | Inr (s', ws) \<Rightarrow> (s', perform u s' ws (snd sb)))"

definition run_mqtt :: "unicode \<Rightarrow> (string \<Rightarrow> url option) \<Rightarrow> mqtt_op list \<Rightarrow> mqtt_service \<times> broker \<Rightarrow> mqtt_service \<times> broker" where
  "run_mqtt u parse ops sb = fold (do_op u parse) ops sb"

lemma deliver_Nil [simp]: "deliver [] b = b"
  by (simp add: deliver_def)

lemma deliver_Cons [simp]: "deliver ((t, p) # ps) b = deliver ps (b(t := stored p))"
  by (simp add: deliver_def)

lemma deliver_append [simp]: "deliver (ps @ qs) b = deliver qs (deliver ps b)"
  by (simp add: deliver_def)

lemma deliver_other: "t \<notin> fst ` set ps \<Longrightarrow> deliver ps b t = b t"
  by (induction ps arbitrary: b) (auto simp: deliver_def)

lemma stored_simps [simp]:
  "stored (Text []) = None" "stored (Text (x # xs)) = Some (Text (x # xs))"
  "stored (Discovery e) = Some (Discovery e)" "xs \<noteq> [] \<Longrightarrow> stored (Text xs) = Some (Text xs)"
  by (simp_all add: stored_def)

subsection \<open>Topics are told apart\<close>

definition plain_level :: "string \<Rightarrow> bool" where
  "plain_level e \<longleftrightarrow> CHR ''/'' \<notin> set e"

lemma plain_level_simps [simp]:
  "plain_level []" "plain_level (c # e) \<longleftrightarrow> c \<noteq> CHR ''/'' \<and> plain_level e"
  "plain_level (e @ f) \<longleftrightarrow> plain_level e \<and> plain_level f"
  by (auto simp: plain_level_def)

lemma level_cut:
  assumes "plain_level e" and "plain_level f" and "x @ CHR ''/'' # e = y @ CHR ''/'' # f"
  shows "x = y \<and> e = f"
proof -
  have t: "takeWhile (\<lambda>c. c \<noteq> CHR ''/'') (rev (z @ CHR ''/'' # g)) = rev g" if "plain_level g" for z g
    using that by (simp add: plain_level_def takeWhile_append)
  from t [OF assms(1), of x] t [OF assms(2), of y] assms(3) have "rev e = rev f" by simp
  with assms(3) show ?thesis by simp
qed

lemma encode_rune_high: "128 \<le> r \<Longrightarrow> n \<in> set (encode_rune r) \<Longrightarrow> 128 \<le> n \<and> n < 256"
  by (auto simp: encode_rune_def split: if_splits)

text \<open>What an object id is made of: no level separator and no wildcard of MQTT.\<close>

definition topic_char :: "char \<Rightarrow> bool" where
  "topic_char c \<longleftrightarrow> 128 \<le> ord c \<or> 48 \<le> ord c \<and> ord c \<le> 57 \<or> 65 \<le> ord c \<and> ord c \<le> 90
     \<or> 97 \<le> ord c \<and> ord c \<le> 122 \<or> c = CHR ''-'' \<or> c = CHR ''_''"

lemma dash_and_underscore [simp]: "char_of (45 :: nat) = CHR ''-''" "char_of (95 :: nat) = CHR ''_''"
  by code_simp+

lemma object_loop_chars: "list_all topic_char (object_loop u rs)"
proof (induction rs)
  case Nil
  then show ?case by simp
next
  case (Cons r rs)
  have "list_all topic_char (map char_of (encode_rune r))" if "rune_alnum u r \<or> r = 45 \<or> r = 95"
  proof (cases "128 \<le> r")
    case True
    then show ?thesis using encode_rune_high by (auto simp: list_all_iff topic_char_def)
  next
    case False
    then show ?thesis using that by (auto simp: encode_rune_def rune_alnum_def topic_char_def)
  qed
  moreover have "topic_char CHR ''_''" by (simp add: topic_char_def)
  ultimately show ?case using Cons.IH by auto
qed

lemma set_trim: "set (trim cs s) \<subseteq> set s"
proof -
  have "set (trim_right cs t) \<subseteq> set t" for t
    using trim_right_prefix [of t cs] by (metis Un_upper1 set_append)
  then show ?thesis
    unfolding trim_def trim_left_def by (meson dual_order.trans set_dropWhileD subsetI)
qed

lemma object_id_chars: "object_id u i \<noteq> [] \<and> list_all topic_char (object_id u i)"
proof -
  have "list_all topic_char (trim ''_'' (object_loop u rs))" for rs
    using object_loop_chars [of u rs] set_trim by (auto simp: list_all_iff)
  moreover have "list_all topic_char ''camera''" by (simp add: topic_char_def)
  ultimately show ?thesis by (simp add: object_id_def Let_def)
qed

lemma plain_object_id [simp]: "plain_level (object_id u i)"
  using object_id_chars [of u i] by (auto simp: plain_level_def list_all_iff topic_char_def)

lemma camera_topic_eq [simp]:
  assumes "plain_level l" and "plain_level l'"
  shows "camera_topic u cfg i l = camera_topic u cfg i' l' \<longleftrightarrow> object_id u i = object_id u i' \<and> l = l'"
proof
  assume "camera_topic u cfg i l = camera_topic u cfg i' l'"
  then have e: "(mc_base cfg @ ''/camera/'' @ object_id u i) @ CHR ''/'' # l
      = (mc_base cfg @ ''/camera/'' @ object_id u i') @ CHR ''/'' # l'"
    by (simp add: camera_topic_def)
  from level_cut [OF assms e] show "object_id u i = object_id u i' \<and> l = l'" by simp
qed (simp add: camera_topic_def)

lemma discovery_topic_eq [simp]:
  assumes "plain_level k" "plain_level k'" "plain_level o1" "plain_level o2"
  shows "discovery_topic cfg k o1 = discovery_topic cfg k' o2 \<longleftrightarrow> k = k' \<and> o1 = o2"
proof
  assume "discovery_topic cfg k o1 = discovery_topic cfg k' o2"
  then have e: "(mc_prefix cfg @ CHR ''/'' # k) @ CHR ''/'' # o1 = (mc_prefix cfg @ CHR ''/'' # k') @ CHR ''/'' # o2"
    by (simp add: discovery_topic_def)
  from level_cut [OF assms(3,4) e] have "mc_prefix cfg @ CHR ''/'' # k = mc_prefix cfg @ CHR ''/'' # k'" "o1 = o2"
    by blast+
  with level_cut [OF assms(1,2) this(1)] show "k = k' \<and> o1 = o2" by simp
qed simp

lemma other_level:
  assumes "plain_level l" and "plain_level m" and "l \<noteq> m"
  shows "x @ CHR ''/'' # l \<noteq> y @ CHR ''/'' # m"
  using level_cut [OF assms(1,2)] assms(3) by blast

lemma discovery_not_state [simp]:
  assumes "plain_level l" and "l \<noteq> ''config''"
  shows "discovery_topic cfg k x \<noteq> camera_topic u cfg i l" and "camera_topic u cfg i l \<noteq> discovery_topic cfg k x"
proof -
  have "plain_level ''config''" by simp
  from other_level [OF this assms(1) assms(2) [symmetric], of "mc_prefix cfg @ ''/'' @ k @ ''/'' @ x"
      "mc_base cfg @ ''/camera/'' @ object_id u i"]
  show "discovery_topic cfg k x \<noteq> camera_topic u cfg i l" by (simp add: discovery_topic_def camera_topic_def)
  then show "camera_topic u cfg i l \<noteq> discovery_topic cfg k x" by simp
qed

text \<open>The topics of the bridge itself.\<close>

lemma bridge_topics_apart [simp]:
  "availability_topic cfg \<noteq> camera_topic u cfg i l" "camera_topic u cfg i l \<noteq> availability_topic cfg"
  "availability_topic cfg \<noteq> status_topic cfg l" "status_topic cfg l \<noteq> availability_topic cfg"
  "status_topic cfg l \<noteq> camera_topic u cfg i m" "camera_topic u cfg i m \<noteq> status_topic cfg l"
  "status_topic cfg l = status_topic cfg m \<longleftrightarrow> l = m"
  by (auto simp: availability_topic_def camera_topic_def status_topic_def)

lemma discovery_not_bridge [simp]:
  shows "availability_topic cfg \<noteq> discovery_topic cfg k x" "discovery_topic cfg k x \<noteq> availability_topic cfg"
    and "plain_level l \<Longrightarrow> l \<noteq> ''config'' \<Longrightarrow> status_topic cfg l \<noteq> discovery_topic cfg k x"
    and "plain_level l \<Longrightarrow> l \<noteq> ''config'' \<Longrightarrow> discovery_topic cfg k x \<noteq> status_topic cfg l"
proof -
  have c: "plain_level ''config''" and a: "plain_level ''availability''" by simp_all
  define d where "d = mc_prefix cfg @ ''/'' @ k @ ''/'' @ x"
  have t: "discovery_topic cfg k x = d @ CHR ''/'' # ''config''" by (simp add: d_def discovery_topic_def)
  show 1: "availability_topic cfg \<noteq> discovery_topic cfg k x"
    using other_level [OF a c, of "mc_base cfg" d] by (simp add: t availability_topic_def)
  then show "discovery_topic cfg k x \<noteq> availability_topic cfg" by simp
  assume "plain_level l" "l \<noteq> ''config''"
  from other_level [OF this(1) c this(2), of "mc_base cfg @ ''/status''" d]
  show "status_topic cfg l \<noteq> discovery_topic cfg k x" by (simp add: t status_topic_def)
  then show "discovery_topic cfg k x \<noteq> status_topic cfg l" by simp
qed

lemma suffix_apart [simp]:
  "x @ ''_link'' \<noteq> y @ ''_connection''" "y @ ''_connection'' \<noteq> x @ ''_link''"
  "x @ ''_temperature'' \<noteq> y @ ''_active_sessions''" "y @ ''_active_sessions'' \<noteq> x @ ''_temperature''"
  "x @ ''_temperature'' \<noteq> y @ ''_reconnects''" "y @ ''_reconnects'' \<noteq> x @ ''_temperature''"
  by (auto dest: arg_cong [where f = last])

lemma plain_bridge_object [simp]: "plain_level bridge_object_id"
  by (simp add: bridge_object_id_def)

lemma availability_payload_nonempty [simp]: "availability_payload b \<noteq> []"
  by (simp add: availability_payload_def)

subsection \<open>What the broker ought to show\<close>

definition wanted_camera :: "unicode \<Rightarrow> mqtt_service \<Rightarrow> mqtt_camera \<Rightarrow> (string \<times> payload option) list" where
  "wanted_camera u s c =
     (let cfg = mqs_config s; i = mq_id c; object = object_id u i in
      [(discovery_topic cfg ''binary_sensor'' (object @ ''_link''), Some (Discovery (link_entity u cfg c))),
       (camera_topic u cfg i ''availability'', Some (Text (availability_payload (flag (mqs_available s) i)))),
       (discovery_topic cfg ''image'' object,
         if mq_snapshot_url c = [] then None else Some (Discovery (image_entity u cfg c))),
       (discovery_topic cfg ''camera'' object,
         if mc_frames cfg then Some (Discovery (camera_entity u cfg c)) else None)]
      @ (if mq_snapshot_url c = [] then []
         else [(camera_topic u cfg i ''snapshot_url'', Some (Text (mq_snapshot_url c)))])
      @ (if mc_frames cfg then [] else [(camera_topic u cfg i ''image'', None)])
      @ (if flag (mqs_temp_supported s) i then
           [(discovery_topic cfg ''sensor'' (object @ ''_temperature''), Some (Discovery (temperature_entity u cfg c))),
            (camera_topic u cfg i ''temperature_availability'',
              Some (Text (availability_payload (flag (mqs_temp_available s) i))))]
         else
           [(discovery_topic cfg ''sensor'' (object @ ''_temperature''), None),
            (camera_topic u cfg i ''temperature'', None),
            (camera_topic u cfg i ''temperature_availability'', None)]))"

definition wanted_bridge :: "mqtt_service \<Rightarrow> (string \<times> payload option) list" where
  "wanted_bridge s =
     (availability_topic (mqs_config s), Some (Text ''online''))
     # map (\<lambda>(t, p). (t, Some p)) (publish_bridge (mqs_config s))
     @ map (\<lambda>(t, p). (t, Some p)) (publish_status (mqs_config s) (mqs_status s))"

definition holds_at :: "broker \<Rightarrow> (string \<times> payload option) list \<Rightarrow> bool" where
  "holds_at b tps \<longleftrightarrow> list_all (\<lambda>(t, p). b t = p) tps"

lemma holds_at_simps [simp]:
  "holds_at b []" "holds_at b ((t, p) # tps) \<longleftrightarrow> b t = p \<and> holds_at b tps"
  "holds_at b (xs @ ys) \<longleftrightarrow> holds_at b xs \<and> holds_at b ys"
  "holds_at b (if P then xs else ys) \<longleftrightarrow> (P \<longrightarrow> holds_at b xs) \<and> (\<not> P \<longrightarrow> holds_at b ys)"
  by (simp_all add: holds_at_def)

lemma holds_at_other:
  "fst ` set tps \<inter> fst ` set ps = {} \<Longrightarrow> holds_at (deliver ps b) tps \<longleftrightarrow> holds_at b tps"
  unfolding holds_at_def list_all_iff by (fastforce simp: deliver_other disjoint_iff image_iff)

lemma deliver_distinct: "distinct (map fst ps) \<Longrightarrow> (t, p) \<in> set ps \<Longrightarrow> deliver ps b t = stored p"
proof (induction ps arbitrary: b)
  case Nil
  then show ?case by simp
next
  case (Cons x ps)
  obtain t' p' where x: "x = (t', p')" by fastforce
  show ?case
  proof (cases "(t, p) = x")
    case True
    then have "t \<notin> fst ` set ps" using Cons.prems(1) x by simp
    then show ?thesis using True x by (simp add: deliver_other)
  next
    case False
    then have "(t, p) \<in> set ps" using Cons.prems(2) by auto
    then show ?thesis using Cons x by simp
  qed
qed

lemma plain_leaves [simp]:
  "plain_level ''availability''" "plain_level ''snapshot_url''" "plain_level ''image''"
  "plain_level ''temperature''" "plain_level ''temperature_availability''" "plain_level ''camera''"
  "plain_level ''sensor''" "plain_level ''binary_sensor''" "plain_level ''_link''"
  "plain_level ''_temperature''" "plain_level ''active_sessions''" "plain_level ''reconnects''"
  by simp_all

lemma publish_camera_distinct: "distinct (map fst (publish_camera u s c))"
  by (simp add: publish_camera_def publish_temperature_def publish_entity_def Let_def)

lemma holds_at_deliver:
  assumes "distinct (map fst ps)" and "set tps \<subseteq> (\<lambda>(t, p). (t, stored p)) ` set ps"
  shows "holds_at (deliver ps b) tps"
  using assms deliver_distinct [OF assms(1)] by (fastforce simp: holds_at_def list_all_iff)

lemma wanted_camera_published:
  "set (wanted_camera u s c) \<subseteq> (\<lambda>(t, p). (t, stored p)) ` set (publish_camera u s c)"
  unfolding wanted_camera_def publish_camera_def publish_temperature_def publish_entity_def Let_def
  by (cases "mq_snapshot_url c = []"; cases "mc_frames (mqs_config s)";
      cases "flag (mqs_temp_supported s) (mq_id c)") simp_all

text \<open>Publishing a camera leaves exactly what is wanted of it, whatever was there before.\<close>

lemma publish_camera_holds: "holds_at (deliver (publish_camera u s c) b) (wanted_camera u s c)"
  by (rule holds_at_deliver [OF publish_camera_distinct wanted_camera_published])

text \<open>The topics a camera owns, and that no other one touches.\<close>

definition owned :: "unicode \<Rightarrow> discovery_config \<Rightarrow> string \<Rightarrow> string list" where
  "owned u cfg i =
     (let object = object_id u i in
      [discovery_topic cfg ''binary_sensor'' (object @ ''_link''), discovery_topic cfg ''image'' object,
       discovery_topic cfg ''camera'' object, discovery_topic cfg ''sensor'' (object @ ''_temperature'')]
      @ map (camera_topic u cfg i)
          [''availability'', ''snapshot_url'', ''image'', ''temperature'', ''temperature_availability''])"

lemma owned_apart: "object_id u i \<noteq> object_id u j \<Longrightarrow> set (owned u cfg i) \<inter> set (owned u cfg j) = {}"
  by (simp add: owned_def Let_def)

lemma publish_camera_owned: "fst ` set (publish_camera u s c) \<subseteq> set (owned u (mqs_config s) (mq_id c))"
  by (simp add: publish_camera_def publish_temperature_def publish_entity_def owned_def Let_def)

lemma wanted_camera_owned: "fst ` set (wanted_camera u s c) \<subseteq> set (owned u (mqs_config s) (mq_id c))"
  by (simp add: wanted_camera_def owned_def Let_def)

lemma bridge_owned:
  "fst ` set (wanted_bridge s) \<inter> set (owned u (mqs_config s) i) = {}"
  by (simp add: wanted_bridge_def publish_bridge_def bridge_entities_def publish_entity_def
      publish_status_def owned_def Let_def)

subsection \<open>The broker mirrors the service\<close>

definition service_ok :: "string set \<Rightarrow> mqtt_service \<Rightarrow> bool" where
  "service_ok ids s \<longleftrightarrow> distinct (map fst (mqs_cameras s))
     \<and> (\<forall>i c. map_of (mqs_cameras s) i = Some c \<longrightarrow> mq_id c = i \<and> i \<in> ids)"

definition mirrored :: "unicode \<Rightarrow> mqtt_service \<Rightarrow> broker \<Rightarrow> bool" where
  "mirrored u s b \<longleftrightarrow> mqs_connected s \<longrightarrow>
     holds_at b (wanted_bridge s)
     \<and> (\<forall>i c. map_of (mqs_cameras s) i = Some c \<longrightarrow> holds_at b (wanted_camera u s c))"

lemma wanted_camera_cong:
  assumes "mqs_config s' = mqs_config s" and "flag (mqs_available s') (mq_id c) = flag (mqs_available s) (mq_id c)"
    and "flag (mqs_temp_supported s') (mq_id c) = flag (mqs_temp_supported s) (mq_id c)"
    and "flag (mqs_temp_available s') (mq_id c) = flag (mqs_temp_available s) (mq_id c)"
  shows "wanted_camera u s' c = wanted_camera u s c"
  by (simp add: wanted_camera_def Let_def assms)

lemma wanted_bridge_cong:
  "mqs_config s' = mqs_config s \<Longrightarrow> mqs_status s' = mqs_status s \<Longrightarrow> wanted_bridge s' = wanted_bridge s"
  by (simp add: wanted_bridge_def)

text \<open>The fields of another camera.\<close>

definition same_for :: "mqtt_service \<Rightarrow> mqtt_service \<Rightarrow> string \<Rightarrow> bool" where
  "same_for s s' j \<longleftrightarrow> map_of (mqs_cameras s') j = map_of (mqs_cameras s) j
     \<and> mqs_available s' j = mqs_available s j \<and> mqs_temp_supported s' j = mqs_temp_supported s j
     \<and> mqs_temp_available s' j = mqs_temp_available s j"

text \<open>An operation that changes one camera and publishes on that camera's topics only.\<close>

lemma mirrored_update:
  assumes inj: "inj_on (object_id u) ids" and i: "i \<in> ids"
    and ok: "service_ok ids s" "service_ok ids s'"
    and m: "mirrored u s b" and con: "mqs_connected s' = mqs_connected s"
    and conf: "mqs_config s' = mqs_config s" "mqs_status s' = mqs_status s"
    and own: "fst ` set ps \<subseteq> set (owned u (mqs_config s) i)"
    and others: "\<And>j. j \<noteq> i \<Longrightarrow> same_for s s' j"
    and this_one: "\<And>c. mqs_connected s \<Longrightarrow> map_of (mqs_cameras s') i = Some c \<Longrightarrow>
      holds_at (deliver ps b) (wanted_camera u s' c)"
  shows "mirrored u s' (deliver ps b)"
proof (cases "mqs_connected s")
  case False
  then show ?thesis by (simp add: mirrored_def con)
next
  case True
  have wb: "wanted_bridge s' = wanted_bridge s" by (rule wanted_bridge_cong [OF conf])
  have "fst ` set (wanted_bridge s) \<inter> fst ` set ps = {}" using own bridge_owned [of s u i] by blast
  then have "holds_at (deliver ps b) (wanted_bridge s')"
    using m True by (simp add: holds_at_other mirrored_def wb)
  moreover have "holds_at (deliver ps b) (wanted_camera u s' c)" if c: "map_of (mqs_cameras s') j = Some c" for j c
  proof (cases "j = i")
    case True
    then show ?thesis using this_one c \<open>mqs_connected s\<close> by simp
  next
    case False
    have jc: "mq_id c = j" "j \<in> ids" using c ok(2) by (auto simp: service_ok_def)
    from others [OF False] have same: "same_for s s' j" .
    then have "map_of (mqs_cameras s) j = Some c" using c by (simp add: same_for_def)
    then have h: "holds_at b (wanted_camera u s' c)"
      using m True same jc(1) wanted_camera_cong [of s' s c u] conf(1)
      by (auto simp: mirrored_def same_for_def flag_def)
    have "object_id u j \<noteq> object_id u i" using inj i jc(2) False by (auto dest: inj_onD)
    from owned_apart [OF this, of "mqs_config s"] have "fst ` set (wanted_camera u s' c) \<inter> fst ` set ps = {}"
      using own wanted_camera_owned [of u s' c] jc(1) conf(1) by (auto simp: disjoint_iff)
    with h show ?thesis by (simp add: holds_at_other)
  qed
  ultimately show ?thesis by (auto simp: mirrored_def)
qed

text \<open>All cameras at once, as after a connection.\<close>

lemma publish_cameras_hold:
  assumes "inj_on (object_id u) (mq_id ` set cs)" and "distinct (map mq_id cs)"
  shows "list_all (\<lambda>c. holds_at (deliver (concat (map (publish_camera u s) cs)) b) (wanted_camera u s c)) cs"
  using assms
proof (induction cs arbitrary: b)
  case Nil
  then show ?case by simp
next
  case (Cons c cs)
  let ?rest = "concat (map (publish_camera u s) cs)"
  have apart: "fst ` set (wanted_camera u s c) \<inter> fst ` set (publish_camera u s d) = {}" if "d \<in> set cs" for d
  proof -
    have "mq_id c \<noteq> mq_id d" using Cons.prems(2) that by auto
    then have "object_id u (mq_id c) \<noteq> object_id u (mq_id d)"
      using inj_onD [OF Cons.prems(1), of "mq_id c" "mq_id d"] that by auto
    from owned_apart [OF this, of "mqs_config s"] show ?thesis
      using wanted_camera_owned [of u s c] publish_camera_owned [of u s d] by blast
  qed
  have "fst ` set (wanted_camera u s c) \<inter> fst ` set ?rest = {}"
    using apart by (simp add: image_Union Int_UN_distrib UN_subset_iff)
  then have "holds_at (deliver ?rest (deliver (publish_camera u s c) b)) (wanted_camera u s c)"
    by (simp add: holds_at_other publish_camera_holds)
  moreover have "inj_on (object_id u) (mq_id ` set cs)" by (rule inj_on_subset [OF Cons.prems(1)]) auto
  ultimately show ?case using Cons.IH Cons.prems(2) by simp
qed

definition step_fine :: "unicode \<Rightarrow> string set \<Rightarrow> broker \<Rightarrow> mqtt_result \<Rightarrow> bool" where
  "step_fine u ids b r =
     (case r of Inl e \<Rightarrow> True
      | Inr (s', ws) \<Rightarrow> service_ok ids s' \<and> mirrored u s' (perform u s' ws b))"

lemma service_ok_cameras: "mqs_cameras s' = mqs_cameras s \<Longrightarrow> service_ok ids s' = service_ok ids s"
  by (simp add: service_ok_def)

lemma service_ok_update:
  "service_ok ids s \<Longrightarrow> mq_id c \<in> ids \<Longrightarrow> mqs_cameras s' = AList.update (mq_id c) c (mqs_cameras s)
     \<Longrightarrow> service_ok ids s'"
  by (auto simp: service_ok_def AList.distinct_update AList.update_conv')

lemma service_ok_delete:
  "service_ok ids s \<Longrightarrow> mqs_cameras s' = AList.delete i (mqs_cameras s) \<Longrightarrow> service_ok ids s'"
  by (auto simp: service_ok_def AList.distinct_delete AList.delete_conv')

lemma perform_sends [simp]: "perform u s (map Send ps) b = deliver ps b"
  by (simp add: perform_def comp_def)

lemma perform_simps [simp]:
  "perform u s [] b = b" "perform u s (Send (t, p) # ws) b = perform u s ws (b(t := stored p))"
  "perform u s (Notify x # ws) b = perform u s ws b"
  "perform u s (CameraWork c # ws) b = perform u s ws (deliver (publish_camera u s c) b)"
  "perform u s (vs @ ws) b = perform u s ws (perform u s vs b)"
  by (simp_all add: perform_def)

lemma step_fine_update:
  assumes "inj_on (object_id u) ids" "i \<in> ids" "service_ok ids s" "service_ok ids s'" "mirrored u s b"
    and "mqs_connected s' = mqs_connected s" "mqs_config s' = mqs_config s" "mqs_status s' = mqs_status s"
    and "perform u s' ws b = deliver ps b" "fst ` set ps \<subseteq> set (owned u (mqs_config s) i)"
    and "\<And>j. j \<noteq> i \<Longrightarrow> same_for s s' j"
    and "\<And>c. mqs_connected s \<Longrightarrow> map_of (mqs_cameras s') i = Some c \<Longrightarrow>
      holds_at (deliver ps b) (wanted_camera u s' c)"
  shows "step_fine u ids b (Inr (s', ws))"
proof -
  have "mirrored u s' (deliver ps b)" by (rule mirrored_update [OF assms(1-8,10-12)])
  then show ?thesis using assms(4,9) by (simp only: step_fine_def sum.case prod.case simp_thms)
qed

text \<open>What one publish on a camera's state topic does to what it shows.\<close>

lemma hold_availability:
  "holds_at b (wanted_camera u s c) \<Longrightarrow> i = mq_id c \<Longrightarrow>
     holds_at (b(camera_topic u (mqs_config s) i ''availability'' := Some (Text (availability_payload up))))
       (wanted_camera u (s\<lparr>mqs_available := (mqs_available s)(i \<mapsto> up)\<rparr>) c)"
  by (simp add: wanted_camera_def Let_def flag_def)

lemma hold_temperature:
  "holds_at b (wanted_camera u s c) \<Longrightarrow> i = mq_id c \<Longrightarrow> flag (mqs_temp_supported s) i \<Longrightarrow>
     holds_at (b(camera_topic u (mqs_config s) i ''temperature_availability'' := Some (Text (availability_payload up))))
       (wanted_camera u (s\<lparr>mqs_temp_available := (mqs_temp_available s)(i \<mapsto> up)\<rparr>) c)"
  by (simp add: wanted_camera_def Let_def flag_def)

lemma hold_reading:
  "holds_at b (wanted_camera u s c) \<Longrightarrow> i = mq_id c \<Longrightarrow> flag (mqs_temp_supported s) i \<Longrightarrow>
     holds_at (b(camera_topic u (mqs_config s) i ''temperature'' := p)) (wanted_camera u s c)"
  by (simp add: wanted_camera_def Let_def)

lemma hold_image:
  "holds_at b (wanted_camera u s c) \<Longrightarrow> mc_frames (mqs_config s) \<Longrightarrow>
     holds_at (b(camera_topic u (mqs_config s) i ''image'' := p)) (wanted_camera u s c)"
  by (simp add: wanted_camera_def Let_def)

lemma hold_entity:
  assumes "holds_at b (wanted_camera u s c)" and "i = mq_id c"
    and "mqs_config s' = mqs_config s" and "flag (mqs_available s') i = flag (mqs_available s) i"
  shows "holds_at (deliver (publish_temperature u (mqs_config s) c (flag (mqs_temp_supported s') i)
      (flag (mqs_temp_available s') i)) b) (wanted_camera u s' c)"
  using assms by (simp add: wanted_camera_def publish_temperature_def publish_entity_def Let_def)

lemma owned_leaves [simp]:
  "camera_topic u cfg i ''availability'' \<in> set (owned u cfg i)"
  "camera_topic u cfg i ''image'' \<in> set (owned u cfg i)"
  "camera_topic u cfg i ''temperature'' \<in> set (owned u cfg i)"
  "camera_topic u cfg i ''temperature_availability'' \<in> set (owned u cfg i)"
  by (simp_all add: owned_def Let_def)

lemma publish_temperature_owned:
  "fst ` set (publish_temperature u cfg c x y) \<subseteq> set (owned u cfg (mq_id c))"
  by (simp add: publish_temperature_def publish_entity_def owned_def Let_def)

lemma removal_owned: "set (removal_topics u cfg i) \<subseteq> set (owned u cfg i)"
  by (simp add: removal_topics_def owned_def Let_def)

text \<open>Every operation keeps the mirror; first those about one camera.\<close>

lemma camera_up_fine:
  assumes "inj_on (object_id u) ids" "i \<in> ids" "service_ok ids s" "mirrored u s b"
  shows "step_fine u ids b (set_camera_available u i up s)"
proof -
  define s' where "s' = s\<lparr>mqs_available := (mqs_available s)(i \<mapsto> up)\<rparr>"
  define ps where "ps = (if \<not> mqs_connected s \<or> mqs_available s i = Some up then []
      else [(camera_topic u (mqs_config s) i ''availability'', Text (availability_payload up))])"
  have r: "set_camera_available u i up s = Inr (s', map Send ps)"
    by (simp add: set_camera_available_def s'_def ps_def Let_def)
  have "holds_at (deliver ps b) (wanted_camera u s' c)"
    if "mqs_connected s" "map_of (mqs_cameras s') i = Some c" for c
  proof -
    from that have c: "map_of (mqs_cameras s) i = Some c" by (simp add: s'_def)
    then have i: "i = mq_id c" using assms(3) by (simp add: service_ok_def)
    have h: "holds_at b (wanted_camera u s c)" using assms(4) that(1) c by (simp add: mirrored_def)
    show ?thesis
    proof (cases "mqs_available s i = Some up")
      case True
      then have "wanted_camera u s' c = wanted_camera u s c"
        by (intro wanted_camera_cong) (auto simp: s'_def flag_def)
      with h True show ?thesis by (simp add: ps_def)
    next
      case False
      then show ?thesis using hold_availability [OF h i] that(1) by (simp add: ps_def s'_def)
    qed
  qed
  moreover have "service_ok ids s'" using assms(3) by (simp add: s'_def service_ok_def)
  ultimately show ?thesis unfolding r
    by (intro step_fine_update [where ps = ps, OF assms(1,2,3) _ assms(4)]) (auto simp: s'_def ps_def same_for_def)
qed

lemma temperature_up_fine:
  assumes "inj_on (object_id u) ids" "i \<in> ids" "service_ok ids s" "mirrored u s b"
  shows "step_fine u ids b (set_temperature_available u i up s)"
proof (cases "map_of (mqs_cameras s) i")
  case None
  then show ?thesis using assms(3,4) by (simp add: set_temperature_available_def step_fine_def Let_def)
next
  case (Some c)
  define s' where "s' = s\<lparr>mqs_temp_available := (mqs_temp_available s)(i \<mapsto> up)\<rparr>"
  define ps where "ps = (if \<not> flag (mqs_temp_supported s) i \<or> \<not> mqs_connected s \<or> mqs_temp_available s i = Some up
      then [] else [(camera_topic u (mqs_config s) i ''temperature_availability'', Text (availability_payload up))])"
  have r: "set_temperature_available u i up s = Inr (s', map Send ps)"
    using Some by (simp add: set_temperature_available_def s'_def ps_def Let_def)
  have i: "i = mq_id c" using assms(3) Some by (simp add: service_ok_def)
  have "holds_at (deliver ps b) (wanted_camera u s' c)" if "mqs_connected s"
  proof -
    have h: "holds_at b (wanted_camera u s c)" using assms(4) that Some by (simp add: mirrored_def)
    consider "\<not> flag (mqs_temp_supported s) i" | "flag (mqs_temp_supported s) i" "mqs_temp_available s i = Some up"
      | "flag (mqs_temp_supported s) i" "mqs_temp_available s i \<noteq> Some up" by blast
    then show ?thesis
    proof cases
      case 1
      then have "wanted_camera u s' c = wanted_camera u s c"
        using i by (simp add: wanted_camera_def Let_def s'_def)
      with h 1 show ?thesis by (simp add: ps_def)
    next
      case 2
      then have "wanted_camera u s' c = wanted_camera u s c"
        by (intro wanted_camera_cong) (auto simp: s'_def flag_def)
      with h 2 show ?thesis by (simp add: ps_def)
    next
      case 3
      then show ?thesis using hold_temperature [OF h i 3(1)] that by (simp add: ps_def s'_def)
    qed
  qed
  moreover have "service_ok ids s'" using assms(3) by (simp add: s'_def service_ok_def)
  moreover have "map_of (mqs_cameras s') i = Some c" using Some by (simp add: s'_def)
  ultimately show ?thesis unfolding r
    by (intro step_fine_update [where ps = ps, OF assms(1,2,3) _ assms(4)]) (auto simp: s'_def ps_def same_for_def)
qed

lemma reading_fine:
  assumes "inj_on (object_id u) ids" "i \<in> ids" "service_ok ids s" "mirrored u s b"
  shows "step_fine u ids b (publish_reading u i t s)"
proof (cases "t \<le> 0 \<or> 500 \<le> t \<or> map_of (mqs_cameras s) i = None")
  case True
  then show ?thesis using assms(3,4) by (auto simp: publish_reading_def step_fine_def Let_def)
next
  case False
  then obtain c where c: "map_of (mqs_cameras s) i = Some c" by auto
  define s' where "s' = s\<lparr>mqs_temp_available := (mqs_temp_available s)(i \<mapsto> True)\<rparr>"
  define ps where "ps = (if \<not> flag (mqs_temp_supported s) i \<or> \<not> mqs_connected s then []
      else [(camera_topic u (mqs_config s) i ''temperature'', Text (format_tenths t)),
            (camera_topic u (mqs_config s) i ''temperature_availability'', Text (availability_payload True))])"
  have r: "publish_reading u i t s = Inr (s', map Send ps)"
    using False c by (simp add: publish_reading_def s'_def ps_def Let_def availability_payload_def)
  have i: "i = mq_id c" using assms(3) c by (simp add: service_ok_def)
  have "holds_at (deliver ps b) (wanted_camera u s' c)" if "mqs_connected s"
  proof -
    have h: "holds_at b (wanted_camera u s c)" using assms(4) that c by (simp add: mirrored_def)
    show ?thesis
    proof (cases "flag (mqs_temp_supported s) i")
      case False
      then have "wanted_camera u s' c = wanted_camera u s c"
        using i by (simp add: wanted_camera_def Let_def s'_def)
      with h False show ?thesis by (simp add: ps_def)
    next
      case True
      from hold_temperature [OF hold_reading [OF h i True] i True, of "stored (Text (format_tenths t))" True]
      show ?thesis using that True by (simp add: ps_def s'_def)
    qed
  qed
  moreover have "service_ok ids s'" using assms(3) by (simp add: s'_def service_ok_def)
  moreover have "map_of (mqs_cameras s') i = Some c" using c by (simp add: s'_def)
  ultimately show ?thesis unfolding r
    by (intro step_fine_update [where ps = ps, OF assms(1,2,3) _ assms(4)]) (auto simp: s'_def ps_def same_for_def)
qed

lemma supported_fine:
  assumes "inj_on (object_id u) ids" "i \<in> ids" "service_ok ids s" "mirrored u s b"
  shows "step_fine u ids b (set_temperature_supported u i yes s)"
proof (cases "map_of (mqs_cameras s) i")
  case None
  then show ?thesis by (simp add: set_temperature_supported_def step_fine_def)
next
  case (Some c)
  define s1 where "s1 = s\<lparr>mqs_temp_supported := (mqs_temp_supported s)(i \<mapsto> yes)\<rparr>"
  define s' where "s' = (if yes then s1 else s1\<lparr>mqs_temp_available := (mqs_temp_available s1)(i := None)\<rparr>)"
  define ps where "ps = (if mqs_connected s then publish_temperature u (mqs_config s) c
      (flag (mqs_temp_supported s') i) (flag (mqs_temp_available s') i) else [])"
  have r: "set_temperature_supported u i yes s = Inr (s', map Send ps)"
    using Some by (simp add: set_temperature_supported_def when_connected_def s'_def s1_def ps_def flag_def Let_def)
  have i: "i = mq_id c" using assms(3) Some by (simp add: service_ok_def)
  have "holds_at (deliver ps b) (wanted_camera u s' c)" if "mqs_connected s"
  proof -
    have h: "holds_at b (wanted_camera u s c)" using assms(4) that Some by (simp add: mirrored_def)
    have "mqs_config s' = mqs_config s" "flag (mqs_available s') i = flag (mqs_available s) i"
      by (simp_all add: s'_def s1_def)
    from hold_entity [OF h i this] that show ?thesis by (simp add: ps_def)
  qed
  moreover have "service_ok ids s'" using assms(3) by (simp add: s'_def s1_def service_ok_def)
  moreover have "map_of (mqs_cameras s') i = Some c" using Some by (simp add: s'_def s1_def)
  moreover have "fst ` set ps \<subseteq> set (owned u (mqs_config s) i)"
    by (cases "mqs_connected s") (simp_all add: ps_def publish_temperature_owned i)
  ultimately show ?thesis unfolding r
    by (intro step_fine_update [where ps = ps, OF assms(1,2,3) _ assms(4)])
      (auto simp: s'_def s1_def same_for_def)
qed

lemma frame_fine:
  assumes "inj_on (object_id u) ids" "i \<in> ids" "service_ok ids s" "mirrored u s b"
  shows "step_fine u ids b (publish_frame u i jpeg s)"
proof -
  let ?r = "publish_frame u i jpeg s" and ?p = "(camera_topic u (mqs_config s) i ''image'', Text jpeg)"
  have "(\<exists>e. ?r = Inl e) \<or> ?r = Inr (s, map Send []) \<or> ?r = Inr (s, map Send [?p]) \<and> mc_frames (mqs_config s)"
    by (simp add: publish_frame_def)
  then consider e where "?r = Inl e" | "?r = Inr (s, map Send [])"
    | "?r = Inr (s, map Send [?p])" "mc_frames (mqs_config s)" by blast
  then show ?thesis
  proof cases
    case 3
    have "holds_at (b(camera_topic u (mqs_config s) i ''image'' := stored (Text jpeg))) (wanted_camera u s c)"
      if "mqs_connected s" "map_of (mqs_cameras s) i = Some c" for c
      using hold_image [OF _ 3(2)] assms(4) that by (simp add: mirrored_def)
    then show ?thesis unfolding 3(1)
      by (intro step_fine_update [where ps = "[(camera_topic u (mqs_config s) i ''image'', Text jpeg)]",
            OF assms(1,2,3) assms(3) assms(4)]) (auto simp: same_for_def)
  qed (use assms(3,4) in \<open>simp_all add: step_fine_def\<close>)
qed

lemma upsert_fine:
  assumes "inj_on (object_id u) ids" "mq_id c \<in> ids" "service_ok ids s" "mirrored u s b"
  shows "step_fine u ids b (upsert_camera parse c s)"
proof -
  define s1 where "s1 = s\<lparr>mqs_cameras := AList.update (mq_id c) c (mqs_cameras s)\<rparr>"
  define s' where "s' = (if mqs_available s (mq_id c) = None
      then s1\<lparr>mqs_available := (mqs_available s)(mq_id c \<mapsto> True)\<rparr> else s1)"
  define ws where "ws = (if mqs_connected s then [CameraWork c] else [])"
  define ps where "ps = (if mqs_connected s then publish_camera u s' c else [])"
  have "(\<exists>e. upsert_camera parse c s = Inl e) \<or> upsert_camera parse c s = Inr (s', ws)"
    by (simp add: upsert_camera_def when_connected_def s'_def s1_def ws_def Let_def)
  then consider e where "upsert_camera parse c s = Inl e" | "upsert_camera parse c s = Inr (s', ws)" by blast
  then show ?thesis
  proof cases
    case 2
    have ok: "service_ok ids s'"
      by (rule service_ok_update [OF assms(3,2)]) (simp add: s'_def s1_def)
    have conf: "mqs_config s' = mqs_config s" by (simp add: s'_def s1_def)
    have own: "fst ` set ps \<subseteq> set (owned u (mqs_config s) (mq_id c))"
      using publish_camera_owned [of u s' c] by (auto simp: ps_def conf)
    have "mqs_connected s \<Longrightarrow> map_of (mqs_cameras s') (mq_id c) = Some d \<Longrightarrow>
        holds_at (deliver ps b) (wanted_camera u s' d)" for d
      by (simp add: ps_def s'_def s1_def publish_camera_holds AList.update_conv' split: if_splits)
    then show ?thesis unfolding 2 using own ok
      by (intro step_fine_update [where ps = ps, OF assms(1,2,3) ok assms(4)])
        (auto simp: s'_def s1_def ps_def ws_def same_for_def AList.update_conv')
  qed (simp add: step_fine_def)
qed

lemma remove_fine:
  assumes "inj_on (object_id u) ids" "i \<in> ids" "service_ok ids s" "mirrored u s b"
  shows "step_fine u ids b (remove_camera u i s)"
proof -
  define s' where "s' = s\<lparr>mqs_cameras := AList.delete i (mqs_cameras s),
      mqs_available := (mqs_available s)(i := None), mqs_temp_supported := (mqs_temp_supported s)(i := None),
      mqs_temp_available := (mqs_temp_available s)(i := None)\<rparr>"
  define ps where "ps = (if mqs_connected s then map (\<lambda>t. (t, Text [])) (removal_topics u (mqs_config s) i) else [])"
  have r: "remove_camera u i s = Inr (s', map Send ps)"
    by (simp add: remove_camera_def when_connected_def s'_def ps_def Let_def)
  have "service_ok ids s'" by (rule service_ok_delete [OF assms(3)]) (simp add: s'_def)
  moreover have "fst ` set ps \<subseteq> set (owned u (mqs_config s) i)"
    by (cases "mqs_connected s") (simp_all add: ps_def image_image removal_owned)
  moreover have "map_of (mqs_cameras s') i = None" by (simp add: s'_def AList.delete_conv')
  ultimately show ?thesis unfolding r
    by (intro step_fine_update [where ps = ps, OF assms(1,2,3) _ assms(4)])
      (auto simp: s'_def same_for_def AList.delete_conv')
qed

text \<open>The operations about the connection and the bridge.\<close>

lemma bridge_unowned:
  assumes "t \<in> {availability_topic cfg} \<union> fst ` set (publish_bridge cfg) \<union> fst ` set (publish_status cfg st)"
  shows "t \<notin> set (owned u cfg i)"
  using assms
  by (auto simp: publish_bridge_def bridge_entities_def publish_entity_def publish_status_def owned_def Let_def)

lemma bridge_camera_apart:
  "fst ` set (publish_bridge cfg) \<inter> set (owned u cfg i) = {}"
  "fst ` set (publish_status cfg st) \<inter> set (owned u cfg i) = {}"
  "availability_topic cfg \<notin> set (owned u cfg i)"
  using bridge_unowned [of _ cfg st u i] by blast+

lemma bridge_distinct:
  "distinct (availability_topic cfg # map fst (publish_bridge cfg) @ map fst (publish_status cfg st))"
  by (simp add: publish_bridge_def bridge_entities_def publish_entity_def publish_status_def Let_def)

lemma status_fine:
  assumes "service_ok ids s" "mirrored u s b"
  shows "step_fine u ids b (publish_status_op st s)"
proof -
  define s' where "s' = s\<lparr>mqs_status := st\<rparr>"
  have r: "publish_status_op st s = Inr (s', if mqs_connected s then map Send (publish_status (mqs_config s) st) else [])"
    by (simp add: publish_status_op_def when_connected_def s'_def Let_def)
  have "mirrored u s' (deliver (publish_status (mqs_config s) st) b)" if con: "mqs_connected s"
  proof -
    have "fst ` set (wanted_camera u s c) \<inter> fst ` set (publish_status (mqs_config s) st) = {}" for c
      using bridge_camera_apart(2) wanted_camera_owned by blast
    moreover have "wanted_camera u s' c = wanted_camera u s c" for c
      by (rule wanted_camera_cong) (simp_all add: s'_def)
    moreover have "holds_at (deliver (publish_status (mqs_config s) st) b) (wanted_bridge s')"
      using assms(2) con
      by (simp add: mirrored_def wanted_bridge_def s'_def publish_bridge_def bridge_entities_def
          publish_entity_def publish_status_def Let_def itoa_def)
    ultimately show ?thesis using assms(2) con by (simp add: mirrored_def s'_def holds_at_other)
  qed
  moreover have "service_ok ids s'" using assms(1) by (simp add: s'_def service_ok_def)
  ultimately show ?thesis by (cases "mqs_connected s") (simp_all add: r step_fine_def mirrored_def s'_def)
qed

lemma perform_cameras [simp]:
  "perform u s (map CameraWork cs) b = deliver (concat (map (publish_camera u s) cs)) b"
  by (simp add: perform_def comp_def)

lemma publish_cameras_owned:
  assumes "\<And>i. T \<inter> set (owned u (mqs_config s) i) = {}"
  shows "T \<inter> fst ` set (concat (map (publish_camera u s) cs)) = {}"
  using assms publish_camera_owned [of u s] by (fastforce simp: disjoint_iff image_iff)

lemma published_as_wanted:
  "list_all (\<lambda>(t, p). p \<noteq> Text []) ps \<Longrightarrow> distinct (map fst ps) \<Longrightarrow>
     holds_at (deliver ps b) (map (\<lambda>(t, p). (t, Some p)) ps)"
  by (rule holds_at_deliver) (force simp: list_all_iff stored_def image_iff)+

lemma bridge_nonempty:
  "list_all (\<lambda>(t, p). p \<noteq> Text []) (publish_bridge cfg)"
  "list_all (\<lambda>(t, p). p \<noteq> Text []) (publish_status cfg st)"
  by (simp_all add: publish_bridge_def bridge_entities_def publish_entity_def publish_status_def itoa_def Let_def)

lemma distinct_map_sort: "distinct (map f (sort_key g xs)) = distinct (map f xs)"
  by (simp add: distinct_map)

lemma connect_fine:
  assumes "inj_on (object_id u) ids" "service_ok ids s"
  shows "step_fine u ids b (on_connect s)"
proof -
  define s' where "s' = s\<lparr>mqs_connected := True\<rparr>"
  define cs where "cs = sort_key mq_id (map snd (mqs_cameras s))"
  define cfg where "cfg = mqs_config s"
  let ?br = "publish_bridge cfg" and ?st = "publish_status cfg (mqs_status s)"
    and ?cam = "concat (map (publish_camera u s') cs)" and ?av = "availability_topic cfg"
  have r: "on_connect s = Inr (s', [Notify True, Send (?av, Text ''online'')] @ map Send ?br
      @ map CameraWork cs @ map Send ?st)"
    by (simp add: on_connect_def s'_def cs_def cfg_def Let_def)
  define b1 where "b1 = b(?av := stored (Text ''online''))"
  have ok: "service_ok ids s'" using assms(2) by (simp add: s'_def service_ok_def)
  have conf: "mqs_config s' = cfg" by (simp add: s'_def cfg_def)
  have keys: "map mq_id (map snd (mqs_cameras s)) = map fst (mqs_cameras s)"
    using assms(2) by (auto simp: service_ok_def)
  have ids: "mq_id ` set cs \<subseteq> ids"
    using assms(2) by (auto simp: cs_def service_ok_def)
  have dist: "distinct (map mq_id cs)"
    using assms(2) unfolding cs_def distinct_map_sort keys by (simp add: service_ok_def)
  note apart = bridge_camera_apart [where cfg = cfg and u = u]
  have d: "distinct (map fst ?br)" "distinct (map fst ?st)" "?av \<notin> fst ` set ?br" "?av \<notin> fst ` set ?st"
    "fst ` set ?br \<inter> fst ` set ?st = {}"
    using bridge_distinct [of cfg "mqs_status s"] by auto
  have cams: "(insert ?av (fst ` set ?br)) \<inter> fst ` set ?cam = {}"
    by (rule publish_cameras_owned) (use apart in \<open>auto simp: s'_def cfg_def\<close>)
  have stat: "(insert ?av (fst ` set ?br)) \<inter> fst ` set ?st = {}" using d by auto
  define b2 where "b2 = deliver ?cam (deliver ?br b1)"
  have "holds_at (deliver ?br b1) ((?av, Some (Text ''online'')) # map (\<lambda>(t, p). (t, Some p)) ?br)"
    using d(3) by (simp add: deliver_other b1_def published_as_wanted bridge_nonempty d(1))
  moreover have fsts: "fst ` set ((?av, Some (Text ''online'')) # map (\<lambda>(t, p). (t, Some p)) ?br)
      = insert ?av (fst ` set ?br)" by (force simp: image_iff)
  ultimately have "holds_at (deliver ?st b2) ((?av, Some (Text ''online'')) # map (\<lambda>(t, p). (t, Some p)) ?br)"
    unfolding b2_def using cams stat by (simp only: holds_at_other)
  then have "holds_at (deliver ?st b2) (wanted_bridge s')"
    using published_as_wanted [OF bridge_nonempty(2) d(2), of b2]
    by (simp add: wanted_bridge_def s'_def cfg_def)
  moreover have "holds_at (deliver ?st b2) (wanted_camera u s' c)" if "map_of (mqs_cameras s') i = Some c" for i c
  proof -
    have "c \<in> set cs" using map_of_SomeD [OF that] by (force simp: cs_def s'_def)
    then have "holds_at b2 (wanted_camera u s' c)"
      using publish_cameras_hold [OF inj_on_subset [OF assms(1) ids] dist, of s']
      by (simp add: list_all_iff b2_def)
    moreover have "fst ` set (wanted_camera u s' c) \<inter> fst ` set ?st = {}"
      using apart(2) [of "mqs_status s" "mq_id c"] wanted_camera_owned [of u s' c] unfolding conf by blast
    ultimately show ?thesis by (simp add: holds_at_other)
  qed
  ultimately show ?thesis
    using ok by (simp add: r step_fine_def mirrored_def b2_def b1_def)
qed

text \<open>The cameras an operation names.\<close>

fun op_ids :: "mqtt_op \<Rightarrow> string set" where
  "op_ids (Upsert c) = {mq_id c}"
| "op_ids (Remove i) = {i}"
| "op_ids (CameraUp i up) = {i}"
| "op_ids (Report i r) = {i}"
| "op_ids (Frame i jpeg) = {i}"
| "op_ids _ = {}"

lemma op_fine:
  assumes "inj_on (object_id u) ids" "op_ids op \<subseteq> ids" "service_ok ids s" "mirrored u s b"
  shows "step_fine u ids b (apply_op u parse op s)"
proof (cases "(u, parse, op, s)" rule: apply_op.cases)
  case (10 u' parse' s')
  then show ?thesis
    using assms(3) by (simp add: step_fine_def on_connection_lost_def mirrored_def service_ok_def)
next
  case (11 u' parse' s')
  then show ?thesis using assms(3) by (simp add: step_fine_def close_service_def mirrored_def service_ok_def)
qed (use assms in \<open>auto intro: upsert_fine remove_fine camera_up_fine temperature_up_fine supported_fine
    reading_fine frame_fine status_fine connect_fine\<close>)

lemma run_fine:
  assumes "inj_on (object_id u) ids" and "list_all (\<lambda>op. op_ids op \<subseteq> ids) ops"
    and "service_ok ids (fst sb)" and "mirrored u (fst sb) (snd sb)"
  shows "service_ok ids (fst (run_mqtt u parse ops sb))
    \<and> mirrored u (fst (run_mqtt u parse ops sb)) (snd (run_mqtt u parse ops sb))"
  using assms(2-4)
proof (induction ops arbitrary: sb)
  case Nil
  then show ?case by (simp add: run_mqtt_def)
next
  case (Cons op ops)
  have "step_fine u ids (snd sb) (apply_op u parse op (fst sb))"
    using op_fine [OF assms(1)] Cons.prems by simp
  then have "service_ok ids (fst (do_op u parse op sb)) \<and> mirrored u (fst (do_op u parse op sb)) (snd (do_op u parse op sb))"
    using Cons.prems(2,3) by (auto simp: step_fine_def do_op_def split: sum.splits)
  then show ?case using Cons.IH [of "do_op u parse op sb"] Cons.prems(1) by (simp add: run_mqtt_def)
qed

lemma new_service_fine: "service_ok ids (new_service cfg) \<and> mirrored u (new_service cfg) b"
  by (simp add: new_service_def service_ok_def mirrored_def Let_def)

subsection \<open>Topics an operation leaves alone\<close>

fun names_camera :: "string \<Rightarrow> mqtt_op \<Rightarrow> bool" where
  "names_camera i (Upsert c) = (mq_id c = i)"
| "names_camera i (Remove j) = (j = i)"
| "names_camera i _ = False"

fun reports_availability :: "string \<Rightarrow> mqtt_op \<Rightarrow> bool" where
  "reports_availability i (CameraUp j up) = (j = i)"
| "reports_availability i _ = False"

definition work_topics :: "unicode \<Rightarrow> mqtt_service \<Rightarrow> work list \<Rightarrow> string set" where
  "work_topics u s ws = (\<Union>w \<in> set ws. fst ` set (work_publishes u s w))"

lemma perform_other: "t \<notin> work_topics u s ws \<Longrightarrow> perform u s ws b t = b t"
  unfolding perform_def by (rule deliver_other) (simp add: work_topics_def image_UN)

lemma work_topics_simps [simp]:
  "work_topics u s [] = {}" "work_topics u s (w # ws) = fst ` set (work_publishes u s w) \<union> work_topics u s ws"
  "work_topics u s (vs @ ws) = work_topics u s vs \<union> work_topics u s ws"
  "work_topics u s (map Send ps) = fst ` set ps"
  by (auto simp: work_topics_def)

text \<open>The topics that are not camera \<open>i\<close>'s, and those in \<open>extra\<close>.\<close>

definition foreign :: "unicode \<Rightarrow> string set \<Rightarrow> string set \<Rightarrow> discovery_config \<Rightarrow> string \<Rightarrow> string set" where
  "foreign u ids extra cfg i = (\<Union>j \<in> ids - {i}. set (owned u cfg j)) \<union> extra \<union> {availability_topic cfg}
     \<union> fst ` set (publish_bridge cfg) \<union> (\<Union>st. fst ` set (publish_status cfg st))"

lemma foreign_owned_topic:
  assumes "inj_on (object_id u) ids" and "i \<in> ids" and "t \<in> set (owned u cfg i)" and "t \<notin> extra"
  shows "t \<notin> foreign u ids extra cfg i"
proof -
  have 1: "t \<notin> set (owned u cfg j)" if "j \<in> ids - {i}" for j
    using owned_apart [of u i j cfg] inj_onD [OF assms(1) _ assms(2)] that assms(3) by blast
  have 3: "t \<noteq> availability_topic cfg" using assms(3) bridge_camera_apart(3) by metis
  have 4: "t \<notin> fst ` set (publish_bridge cfg)" using assms(3) bridge_camera_apart(1) by blast
  have 5: "t \<notin> fst ` set (publish_status cfg st)" for st using assms(3) bridge_camera_apart(2) by blast
  show ?thesis using 1 3 4 5 assms(4) by (simp add: foreign_def)
qed

definition spares :: "unicode \<Rightarrow> string set \<Rightarrow> string set \<Rightarrow> string \<Rightarrow> mqtt_service \<Rightarrow> mqtt_result \<Rightarrow> bool" where
  "spares u ids extra i s r =
     (case r of Inl e \<Rightarrow> True
      | Inr (s', ws) \<Rightarrow> work_topics u s' ws \<subseteq> foreign u ids extra (mqs_config s) i
          \<and> map_of (mqs_cameras s') i = None \<and> mqs_config s' = mqs_config s)"

lemma foreign_owned: "j \<in> ids \<Longrightarrow> j \<noteq> i \<Longrightarrow> T \<subseteq> set (owned u cfg j) \<Longrightarrow> T \<subseteq> foreign u ids extra cfg i"
  by (auto simp: foreign_def)

lemma foreign_simps [simp]:
  "availability_topic cfg \<in> foreign u ids extra cfg i"
  "fst ` set (publish_bridge cfg) \<subseteq> foreign u ids extra cfg i"
  "fst ` set (publish_status cfg st) \<subseteq> foreign u ids extra cfg i"
  by (auto simp: foreign_def)

lemma foreign_camera_topic [simp]:
  assumes "j \<in> ids" and "j \<noteq> i"
  shows "camera_topic u cfg j ''availability'' \<in> foreign u ids extra cfg i"
    "camera_topic u cfg j ''image'' \<in> foreign u ids extra cfg i"
    "camera_topic u cfg j ''temperature'' \<in> foreign u ids extra cfg i"
    "camera_topic u cfg j ''temperature_availability'' \<in> foreign u ids extra cfg i"
  using foreign_owned [OF assms subset_refl, of u cfg extra] by (simp_all add: subsetD)

lemma report_spares:
  assumes "service_ok ids s" and "j \<in> ids" and "map_of (mqs_cameras s) i = None"
  shows "spares u ids extra i s (apply_op u parse (Report j r) s)"
proof (cases "j = i")
  case True
  then show ?thesis using assms(3)
    by (cases r) (simp_all add: spares_def set_temperature_available_def set_temperature_supported_def
        publish_reading_def Let_def)
next
  case False
  show ?thesis
  proof (cases r)
    case (Supported yes)
    have "fst ` set (publish_temperature u (mqs_config s) c yes y) \<subseteq> foreign u ids extra (mqs_config s) i"
      if "map_of (mqs_cameras s) j = Some c" for c y
      using foreign_owned [OF assms(2) False, of _ u "mqs_config s"] that assms(1)
        publish_temperature_owned [of u "mqs_config s" c yes y] by (simp add: service_ok_def)
    then show ?thesis using assms(3) Supported
      by (cases yes; cases "map_of (mqs_cameras s) j")
        (simp_all add: spares_def set_temperature_supported_def when_connected_def Let_def)
  qed (use assms False in \<open>simp_all add: spares_def set_temperature_available_def publish_reading_def Let_def\<close>)
qed

lemma op_spares:
  assumes "service_ok ids s" and "op_ids op \<subseteq> ids" and "\<not> names_camera i op"
    and "map_of (mqs_cameras s) i = None"
    and "reports_availability i op \<Longrightarrow> camera_topic u (mqs_config s) i ''availability'' \<in> extra"
  shows "spares u ids extra i s (apply_op u parse op s)"
proof (cases op)
  case (Upsert c)
  have "fst ` set (publish_camera u s' c) \<subseteq> foreign u ids extra (mqs_config s) i"
    if "mqs_config s' = mqs_config s" for s'
    using publish_camera_owned [of u s' c] that assms(2,3) Upsert
      foreign_owned [of "mq_id c" ids i _ u "mqs_config s"] by simp
  then show ?thesis using Upsert assms(3,4)
    by (simp add: spares_def upsert_camera_def when_connected_def AList.update_conv' Let_def)
next
  case (Remove j)
  have "set (removal_topics u (mqs_config s) j) \<subseteq> foreign u ids extra (mqs_config s) i"
    using foreign_owned [of j ids i _ u "mqs_config s"] removal_owned assms(2,3) Remove by simp
  then show ?thesis using Remove assms(3,4)
    by (auto simp: spares_def remove_camera_def when_connected_def AList.delete_conv' work_topics_def Let_def)
next
  case (CameraUp j up)
  have "extra \<subseteq> foreign u ids extra (mqs_config s) i" by (auto simp: foreign_def)
  then show ?thesis using assms(2,4,5) CameraUp
    by (cases "j = i") (auto simp: spares_def set_camera_available_def Let_def)
next
  case (Report j r)
  then show ?thesis using report_spares [OF assms(1) _ assms(4)] assms(2) by simp
next
  case (Frame j jpeg)
  then show ?thesis using assms(2,4)
    by (cases "j = i") (simp_all add: spares_def publish_frame_def)
next
  case (Status st)
  then show ?thesis using assms(4) by (simp add: spares_def publish_status_op_def when_connected_def Let_def)
next
  case Connect
  have cam: "fst ` set (publish_camera u s' c) \<subseteq> foreign u ids extra (mqs_config s) i"
    if c: "c \<in> snd ` set (mqs_cameras s)" and s': "mqs_config s' = mqs_config s" for c s'
  proof -
    from c obtain j where jc: "(j, c) \<in> set (mqs_cameras s)" by auto
    then have j: "map_of (mqs_cameras s) j = Some c" using assms(1) by (simp add: service_ok_def)
    then have "mq_id c = j" "j \<in> ids" "j \<noteq> i" using assms(1,4) by (auto simp: service_ok_def)
    then show ?thesis using publish_camera_owned [of u s' c] s'
        foreign_owned [of j ids i _ u "mqs_config s"] by simp
  qed
  have "work_topics u (s\<lparr>mqs_connected := True\<rparr>) (map CameraWork (sort_key mq_id (map snd (mqs_cameras s))))
      \<subseteq> foreign u ids extra (mqs_config s) i"
    unfolding work_topics_def
  proof (rule UN_least)
    fix w
    assume "w \<in> set (map CameraWork (sort_key mq_id (map snd (mqs_cameras s))))"
    then obtain c where "w = CameraWork c" "c \<in> snd ` set (mqs_cameras s)" by auto
    then show "fst ` set (work_publishes u (s\<lparr>mqs_connected := True\<rparr>) w) \<subseteq> foreign u ids extra (mqs_config s) i"
      using cam [of c "s\<lparr>mqs_connected := True\<rparr>"] by simp
  qed
  then show ?thesis using Connect assms(4) by (simp add: spares_def on_connect_def Let_def)
qed (use assms(4) in \<open>simp_all add: spares_def on_connection_lost_def close_service_def\<close>)

text \<open>Nothing but what the service owns is ever touched.\<close>

definition own_topics :: "unicode \<Rightarrow> string set \<Rightarrow> discovery_config \<Rightarrow> string set" where
  "own_topics u ids cfg = {availability_topic cfg, status_topic cfg ''active_sessions'', status_topic cfg ''reconnects''}
     \<union> fst ` set (publish_bridge cfg) \<union> (\<Union>i \<in> ids. set (owned u cfg i))"

lemma op_in_own_topics:
  assumes "service_ok ids s" and "op_ids op \<subseteq> ids" and "apply_op u parse op s = Inr (s', ws)"
  shows "work_topics u s' ws \<subseteq> own_topics u ids (mqs_config s) \<and> mqs_config s' = mqs_config s"
proof -
  define js where "js = op_ids op \<union> fst ` set (mqs_cameras s)"
  have "finite (op_ids op)" by (cases op) simp_all
  then have "finite js" by (simp add: js_def)
  then obtain i where i: "i \<notin> js" using ex_new_if_finite [OF infinite_UNIV_listI] by blast
  have ok: "service_ok js s"
    using assms(1) by (auto simp: service_ok_def js_def dest: map_of_SomeD intro: rev_image_eqI)
  have none: "map_of (mqs_cameras s) i = None" using i by (simp add: js_def map_of_eq_None_iff)
  have names: "\<not> names_camera i op" "\<not> reports_availability i op"
  proof -
    show "\<not> names_camera i op" using i by (cases op) (auto simp: js_def)
    show "\<not> reports_availability i op" using i by (cases op) (auto simp: js_def)
  qed
  have sp: "spares u js {} i s (apply_op u parse op s)"
    by (rule op_spares [OF ok _ names(1) none]) (use names in \<open>auto simp: js_def\<close>)
  have "j \<in> ids" if known: "j \<in> fst ` set (mqs_cameras s)" for j
  proof -
    obtain c where "map_of (mqs_cameras s) j = Some c"
      using known by (cases "map_of (mqs_cameras s) j") (auto simp: map_of_eq_None_iff)
    then show ?thesis using assms(1) by (simp add: service_ok_def)
  qed
  then have js: "js \<subseteq> ids" using assms(2) by (auto simp: js_def)
  have st: "fst ` set (publish_status cfg st) = {status_topic cfg ''active_sessions'', status_topic cfg ''reconnects''}"
    for cfg st by (simp add: publish_status_def)
  have "foreign u js {} (mqs_config s) i \<subseteq> own_topics u ids (mqs_config s)"
    unfolding foreign_def own_topics_def st using js by blast
  then show ?thesis using sp assms(3) by (auto simp: spares_def)
qed

lemma op_cameras:
  assumes "apply_op u parse op s = Inr (s', ws)" and "\<not> names_camera i op"
  shows "map_of (mqs_cameras s') i = map_of (mqs_cameras s) i"
proof (cases "(u, parse, op, s)" rule: apply_op.cases)
qed (use assms in \<open>auto simp: upsert_camera_def remove_camera_def set_camera_available_def
    set_temperature_available_def set_temperature_supported_def publish_reading_def publish_frame_def
    publish_status_op_def on_connect_def on_connection_lost_def close_service_def when_connected_def
    AList.update_conv' AList.delete_conv' Let_def split: if_splits option.splits\<close>)

text \<open>A camera the service does not know has nothing on the topics a removal clears, as long as
  none is removed while the broker is away.\<close>

fun removes_online :: "unicode \<Rightarrow> (string \<Rightarrow> url option) \<Rightarrow> mqtt_op list \<Rightarrow> mqtt_service \<times> broker \<Rightarrow> bool" where
  "removes_online u parse [] sb = True"
| "removes_online u parse (op # ops) sb =
     ((case op of Remove i \<Rightarrow> mqs_connected (fst sb) | _ \<Rightarrow> True) \<and> removes_online u parse ops (do_op u parse op sb))"

definition retired :: "unicode \<Rightarrow> string set \<Rightarrow> mqtt_service \<Rightarrow> broker \<Rightarrow> bool" where
  "retired u ids s b \<longleftrightarrow> (\<forall>i \<in> ids. map_of (mqs_cameras s) i = None \<longrightarrow>
     (\<forall>t \<in> set (removal_topics u (mqs_config s) i). b t = None))"

lemma removal_not_availability: "camera_topic u cfg i ''availability'' \<notin> set (removal_topics u cfg i)"
  by (simp add: removal_topics_def Let_def)

lemma removal_clears:
  assumes "mqs_connected s" and "t \<in> set (removal_topics u (mqs_config s) i)"
  shows "snd (do_op u parse (Remove i) (s, b)) t = None"
proof -
  have c: "deliver (map (\<lambda>t. (t, Text [])) ts) b t = (if t \<in> set ts then None else b t)" for ts b
    by (induction ts arbitrary: b) auto
  show ?thesis using assms
    by (simp add: do_op_def remove_camera_def when_connected_def perform_def comp_def c Let_def)
qed

lemma op_retired:
  assumes "inj_on (object_id u) ids" and "op_ids op \<subseteq> ids" and "service_ok ids s" and "retired u ids s b"
    and "case op of Remove i \<Rightarrow> mqs_connected s | _ \<Rightarrow> True"
  shows "retired u ids (fst (do_op u parse op (s, b))) (snd (do_op u parse op (s, b)))"
proof (cases "apply_op u parse op s")
  case (Inl e)
  then show ?thesis using assms(4) by (simp add: do_op_def)
next
  case (Inr r)
  obtain s' ws where r: "apply_op u parse op s = Inr (s', ws)" using Inr by (cases r) simp
  have conf: "mqs_config s' = mqs_config s" using op_in_own_topics [OF assms(3,2) r] by blast
  have d: "do_op u parse op (s, b) = (s', perform u s' ws b)" by (simp add: do_op_def r)
  have "perform u s' ws b t = None"
    if i: "i \<in> ids" "map_of (mqs_cameras s') i = None" "t \<in> set (removal_topics u (mqs_config s') i)" for i t
  proof (cases "names_camera i op")
    case False
    then have none: "map_of (mqs_cameras s) i = None" using op_cameras [OF r] i(2) by simp
    have "spares u ids {camera_topic u (mqs_config s) i ''availability''} i s (apply_op u parse op s)"
      by (rule op_spares [OF assms(3,2) False none]) simp
    moreover have "t \<notin> foreign u ids {camera_topic u (mqs_config s) i ''availability''} (mqs_config s) i"
    proof (rule foreign_owned_topic [OF assms(1) i(1)])
      show "t \<in> set (owned u (mqs_config s) i)" using i(3) removal_owned conf by auto
      show "t \<notin> {camera_topic u (mqs_config s) i ''availability''}"
        using i(3) removal_not_availability [of u "mqs_config s" i] conf by auto
    qed
    ultimately have "t \<notin> work_topics u s' ws" by (auto simp: spares_def r)
    then show ?thesis using assms(4) i none conf by (simp add: perform_other retired_def)
  next
    case True
    then consider c where "op = Upsert c" "mq_id c = i" | "op = Remove i" by (cases op) auto
    then show ?thesis
    proof cases
      case 1
      then have "map_of (mqs_cameras s') i = Some c"
        using r by (auto simp: upsert_camera_def when_connected_def AList.update_conv' Let_def split: if_splits)
      with i(2) show ?thesis by simp
    next
      case 2
      then show ?thesis using removal_clears [of s t u i parse b] assms(5) i(3) conf d by simp
    qed
  qed
  then show ?thesis by (simp add: d retired_def)
qed

text \<open>Where the values come from that the service does not keep: the address of a snapshot that is
  no longer offered, the last picture and the last reading.\<close>

fun told :: "mqtt_op \<Rightarrow> (string \<times> string) list" where
  "told (Upsert c) = (if mq_snapshot_url c = [] then [] else [(''snapshot_url'', mq_snapshot_url c)])"
| "told (Frame i jpeg) = [(''image'', jpeg)]"
| "told (Report i (Reading t)) = (if t \<le> 0 \<or> 500 \<le> t then [] else [(''temperature'', format_tenths t)])"
| "told _ = []"

definition told_of :: "mqtt_op list \<Rightarrow> string \<Rightarrow> string \<Rightarrow> string set" where
  "told_of ops i leaf = {v. \<exists>op \<in> set ops. op_ids op = {i} \<and> (leaf, v) \<in> set (told op)}"

definition unkept_leaf :: "string \<Rightarrow> bool" where
  "unkept_leaf leaf \<longleftrightarrow> leaf = ''snapshot_url'' \<or> leaf = ''image'' \<or> leaf = ''temperature''"

lemma publish_camera_told:
  assumes "(camera_topic u (mqs_config s) i leaf, p) \<in> set (publish_camera u s c)" and "unkept_leaf leaf"
  shows "object_id u i = object_id u (mq_id c) \<and>
    (if leaf = ''snapshot_url'' then mq_snapshot_url c \<noteq> [] \<and> p = Text (mq_snapshot_url c) else p = Text [])"
proof -
  let ?t = "camera_topic u (mqs_config s) i leaf"
  let ?cfg = "mqs_config s"
  have apart: "?t \<noteq> discovery_topic ?cfg k ob" "?t \<noteq> camera_topic u ?cfg (mq_id c) ''availability''"
    "?t \<noteq> camera_topic u ?cfg (mq_id c) ''temperature_availability''" for k ob
    using assms(2) by (auto simp: unkept_leaf_def)
  consider "(?t, p) \<in> set (if mq_snapshot_url c \<noteq> [] then
           [publish_entity ?cfg ''image'' (object_id u (mq_id c)) (image_entity u ?cfg c),
            (camera_topic u ?cfg (mq_id c) ''snapshot_url'', Text (mq_snapshot_url c))]
         else [(discovery_topic ?cfg ''image'' (object_id u (mq_id c)), Text [])])"
    | "(?t, p) \<in> set (if mc_frames ?cfg then
           [publish_entity ?cfg ''camera'' (object_id u (mq_id c)) (camera_entity u ?cfg c)]
         else [(discovery_topic ?cfg ''camera'' (object_id u (mq_id c)), Text []),
               (camera_topic u ?cfg (mq_id c) ''image'', Text [])])"
    | yes up where "(?t, p) \<in> set (publish_temperature u ?cfg c yes up)"
    using assms(1) apart unfolding publish_camera_def Let_def set_append by (auto simp: publish_entity_def)
  then show ?thesis
  proof cases
    case 1
    then show ?thesis using apart(1) assms(2)
      by (cases "mq_snapshot_url c = []") (auto simp: publish_entity_def unkept_leaf_def)
  next
    case 2
    then show ?thesis using apart(1) assms(2)
      by (cases "mc_frames ?cfg") (auto simp: publish_entity_def unkept_leaf_def)
  next
    case 3
    then show ?thesis using apart assms(2)
      by (cases yes) (auto simp: publish_temperature_def publish_entity_def unkept_leaf_def Let_def)
  qed
qed

lemma bridge_told:
  "(camera_topic u cfg i leaf, p) \<notin> set (publish_bridge cfg)" if "unkept_leaf leaf"
  using that by (auto simp: publish_bridge_def bridge_entities_def publish_entity_def unkept_leaf_def Let_def)

lemma status_told: "(camera_topic u cfg i leaf, p) \<notin> set (publish_status cfg st)"
  by (simp add: publish_status_def)

definition from_told :: "mqtt_op list \<Rightarrow> string \<Rightarrow> string \<Rightarrow> payload \<Rightarrow> bool" where
  "from_told ops i leaf p \<longleftrightarrow>
     (leaf \<noteq> ''snapshot_url'' \<and> p = Text []) \<or> (\<exists>v \<in> told_of ops i leaf. p = Text v)"

definition cameras_from :: "mqtt_op list \<Rightarrow> mqtt_service \<Rightarrow> bool" where
  "cameras_from ops s \<longleftrightarrow> (\<forall>i c. map_of (mqs_cameras s) i = Some c \<longrightarrow> Upsert c \<in> set ops)"

lemma publish_camera_from:
  assumes "inj_on (object_id u) ids" and "i \<in> ids" and "mq_id c \<in> ids" and "unkept_leaf leaf"
    and "(camera_topic u (mqs_config s) i leaf, p) \<in> set (publish_camera u s c)" and "Upsert c \<in> set ops"
  shows "from_told ops i leaf p"
proof -
  note f = publish_camera_told [OF assms(5,4)]
  then have i: "i = mq_id c" using inj_onD [OF assms(1)] assms(2,3) by blast
  show ?thesis
  proof (cases "leaf = ''snapshot_url''")
    case True
    then have "mq_snapshot_url c \<in> told_of ops i leaf"
      using f assms(6) i by (auto simp: told_of_def intro!: bexI [of _ "Upsert c"])
    then show ?thesis using f True by (auto simp: from_told_def)
  next
    case False
    then show ?thesis using f by (simp add: from_told_def)
  qed
qed

lemma op_told:
  assumes inj: "inj_on (object_id u) ids" and "i \<in> ids" and "op_ids op \<subseteq> ids" and ok: "service_ok ids s"
    and run: "apply_op u parse op s = Inr (s', ws)" and cams: "cameras_from ops s" and leaf: "unkept_leaf leaf"
    and mem: "(camera_topic u (mqs_config s) i leaf, p) \<in> set (concat (map (work_publishes u s') ws))"
  shows "from_told (op # ops) i leaf p"
proof (cases op)
  case (Upsert c)
  then have "mqs_config s' = mqs_config s" "ws = (if mqs_connected s then [CameraWork c] else [])"
    using run by (auto simp: upsert_camera_def when_connected_def Let_def split: if_splits)
  then have pc: "(camera_topic u (mqs_config s') i leaf, p) \<in> set (publish_camera u s' c)"
    using mem by (auto split: if_splits)
  show ?thesis
    by (rule publish_camera_from [OF inj assms(2) _ leaf pc]) (use assms(3) Upsert in auto)
next
  case (Remove j)
  then have "p = Text [] \<and> leaf \<noteq> ''snapshot_url''"
    using run mem leaf by (auto simp: remove_camera_def when_connected_def removal_topics_def unkept_leaf_def
        Let_def split: if_splits)
  then show ?thesis by (simp add: from_told_def)
next
  case (CameraUp j up)
  then show ?thesis
    using run mem leaf by (auto simp: set_camera_available_def unkept_leaf_def Let_def split: if_splits)
next
  case (Report j r)
  show ?thesis
  proof (cases r)
    case (Available up)
    then show ?thesis using Report run mem leaf
      by (auto simp: set_temperature_available_def unkept_leaf_def Let_def split: if_splits)
  next
    case (Supported yes)
    then have "p = Text [] \<and> leaf \<noteq> ''snapshot_url''" using Report run mem leaf
      by (auto simp: set_temperature_supported_def publish_temperature_def publish_entity_def when_connected_def
          unkept_leaf_def Let_def split: if_splits option.splits)
    then show ?thesis by (simp add: from_told_def)
  next
    case (Reading x)
    then have "object_id u i = object_id u j \<and> leaf = ''temperature'' \<and> p = Text (format_tenths x) \<and> \<not> (x \<le> 0 \<or> 500 \<le> x)"
      using Report run mem leaf by (auto simp: publish_reading_def unkept_leaf_def Let_def split: if_splits)
    moreover from this have "i = j" using inj_onD [OF inj _ assms(2), of j] assms(3) Report by simp
    ultimately show ?thesis using Report Reading by (auto simp: from_told_def told_of_def)
  qed
next
  case (Frame j jpeg)
  then have "object_id u i = object_id u j \<and> leaf = ''image'' \<and> p = Text jpeg"
    using run mem leaf by (auto simp: publish_frame_def unkept_leaf_def split: if_splits)
  moreover from this have "i = j" using inj_onD [OF inj _ assms(2), of j] assms(3) Frame by simp
  ultimately show ?thesis using Frame by (auto simp: from_told_def told_of_def)
next
  case (Status st)
  then show ?thesis using run mem status_told
    by (auto simp: publish_status_op_def when_connected_def comp_def Let_def split: if_splits)
next
  case Connect
  then have s': "s' = s\<lparr>mqs_connected := True\<rparr>"
    and ws: "ws = [Notify True, Send (availability_topic (mqs_config s), Text ''online'')]
      @ map Send (publish_bridge (mqs_config s)) @ map CameraWork (sort_key mq_id (map snd (mqs_cameras s)))
      @ map Send (publish_status (mqs_config s) (mqs_status s))"
    using run by (auto simp: on_connect_def Let_def)
  obtain c where c: "c \<in> snd ` set (mqs_cameras s)"
    and pc: "(camera_topic u (mqs_config s') i leaf, p) \<in> set (publish_camera u s' c)"
    using mem bridge_told [OF leaf] status_told by (auto simp: ws s' comp_def)
  from c obtain j where "(j, c) \<in> set (mqs_cameras s)" by auto
  then have j: "map_of (mqs_cameras s) j = Some c" using ok by (simp add: service_ok_def)
  show ?thesis
    by (rule publish_camera_from [OF inj assms(2) _ leaf pc])
      (use j ok cams in \<open>auto simp: service_ok_def cameras_from_def\<close>)
qed (use run mem in \<open>auto simp: on_connection_lost_def close_service_def split: if_splits\<close>)

lemma from_told_mono: "set ops \<subseteq> set ops' \<Longrightarrow> from_told ops i leaf p \<Longrightarrow> from_told ops' i leaf p"
  by (auto simp: from_told_def told_of_def)

lemma deliver_cases: "deliver ps b t = b t \<or> (\<exists>p. (t, p) \<in> set ps \<and> deliver ps b t = stored p)"
proof (induction ps arbitrary: b)
  case (Cons x ps)
  obtain t' p' where x: "x = (t', p')" by (cases x)
  define b' where "b' = b(t' := stored p')"
  have "b' t = (if t = t' then stored p' else b t)" by (simp add: b'_def)
  with Cons.IH [of b'] show ?case by (cases "t = t'") (auto simp: x b'_def [symmetric])
qed simp

lemma op_cameras_from:
  assumes "apply_op u parse op s = Inr (s', ws)" and "cameras_from ops s" and "op \<in> set ops"
  shows "cameras_from ops s'"
  unfolding cameras_from_def
proof (intro allI impI)
  fix i c assume c: "map_of (mqs_cameras s') i = Some c"
  show "Upsert c \<in> set ops"
  proof (cases "names_camera i op")
    case False
    then show ?thesis using op_cameras [OF assms(1)] assms(2) c by (simp add: cameras_from_def)
  next
    case True
    then consider d where "op = Upsert d" "mq_id d = i" | "op = Remove i" by (cases op) auto
    then show ?thesis
      using assms(1,3) c by cases (auto simp: upsert_camera_def remove_camera_def when_connected_def
          AList.update_conv' AList.delete_conv' Let_def split: if_splits)
  qed
qed

text \<open>What a run keeps true of the broker, beside the mirror: the values it does not keep were
  told it, and foreign topics are as they were.\<close>

definition accounted ::
    "unicode \<Rightarrow> string set \<Rightarrow> mqtt_op list \<Rightarrow> discovery_config \<Rightarrow> broker \<Rightarrow> mqtt_service \<times> broker \<Rightarrow> bool" where
  "accounted u ids ops cfg b0 sb \<longleftrightarrow> service_ok ids (fst sb) \<and> mirrored u (fst sb) (snd sb)
     \<and> mqs_config (fst sb) = cfg \<and> cameras_from ops (fst sb)
     \<and> (\<forall>i \<in> ids. \<forall>leaf. unkept_leaf leaf \<longrightarrow> snd sb (camera_topic u cfg i leaf) = b0 (camera_topic u cfg i leaf)
          \<or> (\<exists>p. from_told ops i leaf p \<and> snd sb (camera_topic u cfg i leaf) = stored p))
     \<and> (\<forall>t. t \<notin> own_topics u ids cfg \<longrightarrow> snd sb t = b0 t)"

lemma op_accounted:
  assumes inj: "inj_on (object_id u) ids" and ids: "op_ids op \<subseteq> ids" and op: "op \<in> set ops"
    and acc: "accounted u ids ops cfg b0 sb"
  shows "accounted u ids ops cfg b0 (do_op u parse op sb)"
proof (cases "apply_op u parse op (fst sb)")
  case (Inl e)
  then show ?thesis using acc by (simp add: do_op_def)
next
  case (Inr r)
  obtain s b where sb: "sb = (s, b)" by (cases sb)
  obtain s' ws where r: "apply_op u parse op s = Inr (s', ws)" using Inr by (cases r) (simp add: sb)
  have ok: "service_ok ids s" "mirrored u s b" "mqs_config s = cfg" "cameras_from ops s"
    using acc by (simp_all add: accounted_def sb)
  define ps where "ps = concat (map (work_publishes u s') ws)"
  have d: "do_op u parse op sb = (s', deliver ps b)" by (simp add: do_op_def sb r perform_def ps_def)
  have "step_fine u ids b (apply_op u parse op s)" by (rule op_fine [OF inj ids ok(1,2)])
  then have fine: "service_ok ids s'" "mirrored u s' (deliver ps b)"
    by (simp_all add: step_fine_def r perform_def ps_def)
  have conf: "mqs_config s' = cfg" and own: "work_topics u s' ws \<subseteq> own_topics u ids cfg"
    using op_in_own_topics [OF ok(1) ids r] ok(3) by simp_all
  have "deliver ps b t = b0 t" if "t \<notin> own_topics u ids cfg" for t
    using perform_other [of t u s' ws b] own that acc by (auto simp: perform_def ps_def accounted_def sb)
  moreover have "deliver ps b (camera_topic u cfg i leaf) = b0 (camera_topic u cfg i leaf)
      \<or> (\<exists>p. from_told ops i leaf p \<and> deliver ps b (camera_topic u cfg i leaf) = stored p)"
    if i: "i \<in> ids" "unkept_leaf leaf" for i leaf
    using deliver_cases [of ps b "camera_topic u cfg i leaf"]
  proof
    assume "deliver ps b (camera_topic u cfg i leaf) = b (camera_topic u cfg i leaf)"
    then show ?thesis using acc i by (simp add: accounted_def sb)
  next
    assume "\<exists>p. (camera_topic u cfg i leaf, p) \<in> set ps \<and> deliver ps b (camera_topic u cfg i leaf) = stored p"
    then obtain p where p: "(camera_topic u cfg i leaf, p) \<in> set ps"
        "deliver ps b (camera_topic u cfg i leaf) = stored p" by blast
    have "from_told (op # ops) i leaf p"
      by (rule op_told [OF inj i(1) ids ok(1) r ok(4) i(2)]) (use p(1) ok(3) in \<open>simp add: ps_def\<close>)
    then have "from_told ops i leaf p" using from_told_mono [of "op # ops" ops] op by auto
    then show ?thesis using p(2) by blast
  qed
  moreover have "cameras_from ops s'" by (rule op_cameras_from [OF r ok(4) op])
  ultimately show ?thesis using fine conf by (simp add: accounted_def d)
qed

lemma run_induct:
  assumes "P sb" and "\<And>op sb. op \<in> set ops \<Longrightarrow> P sb \<Longrightarrow> P (do_op u parse op sb)"
  shows "P (run_mqtt u parse ops sb)"
  using assms
proof (induction ops arbitrary: sb)
  case Nil
  then show ?case by (simp add: run_mqtt_def)
next
  case (Cons op ops)
  have "P (run_mqtt u parse ops (do_op u parse op sb))"
    by (rule Cons.IH) (use Cons.prems in auto)
  then show ?case by (simp add: run_mqtt_def)
qed

lemma run_accounted:
  assumes "inj_on (object_id u) ids" and "list_all (\<lambda>op. op_ids op \<subseteq> ids) ops"
  shows "accounted u ids ops (mqs_config (new_service cfg)) b0 (run_mqtt u parse ops (new_service cfg, b0))"
proof (rule run_induct)
  have "cameras_from ops (new_service cfg)" by (simp add: cameras_from_def new_service_def Let_def)
  then show "accounted u ids ops (mqs_config (new_service cfg)) b0 (new_service cfg, b0)"
    using new_service_fine [of ids cfg u b0] by (simp add: accounted_def)
next
  fix op sb assume "op \<in> set ops" "accounted u ids ops (mqs_config (new_service cfg)) b0 sb"
  then show "accounted u ids ops (mqs_config (new_service cfg)) b0 (do_op u parse op sb)"
    using op_accounted [OF assms(1)] assms(2) by (simp add: list_all_iff)
qed

lemma run_retired:
  assumes "inj_on (object_id u) ids" and "list_all (\<lambda>op. op_ids op \<subseteq> ids) ops" and "removes_online u parse ops sb"
    and "service_ok ids (fst sb)" and "mirrored u (fst sb) (snd sb)" and "retired u ids (fst sb) (snd sb)"
  shows "retired u ids (fst (run_mqtt u parse ops sb)) (snd (run_mqtt u parse ops sb))"
  using assms(2-6)
proof (induction ops arbitrary: sb)
  case Nil
  then show ?case by (simp add: run_mqtt_def)
next
  case (Cons op ops)
  let ?sb = "do_op u parse op sb"
  have "step_fine u ids (snd sb) (apply_op u parse op (fst sb))"
    using op_fine [OF assms(1)] Cons.prems by simp
  then have "service_ok ids (fst ?sb)" "mirrored u (fst ?sb) (snd ?sb)"
    using Cons.prems by (auto simp: step_fine_def do_op_def split: sum.splits)
  moreover have "retired u ids (fst ?sb) (snd ?sb)"
    using op_retired [OF assms(1), of op "fst sb" "snd sb" parse] Cons.prems by simp
  ultimately have "retired u ids (fst (run_mqtt u parse ops ?sb)) (snd (run_mqtt u parse ops ?sb))"
    using Cons.IH [of ?sb] Cons.prems by simp
  then show ?case by (simp add: run_mqtt_def)
qed

text \<open>C9: the retained topics of the broker refine the service's own picture, in runs of one
  operation after the other whose publishes are all acknowledged, for cameras whose object ids
  differ.  After any sequence of registrations, removals, availability changes, temperature
  reports, frames, counters, connects and disconnects, and whatever the broker held before: while
  the service is connected the broker holds the bridge's online state, its three entities and its
  counters, and for every registered camera the discovery messages and states the picture calls
  for, and nothing where it calls for nothing.  The last picture and the last reading, which the
  service does not keep, are ones it was told for that very camera, or cleared, or were there
  before; the snapshot address is one a registration of that camera gave (the current one while
  there is one, an earlier one otherwise), or was there before.  A camera that is not registered
  has nothing on the seven topics a removal clears, if they were empty to begin with and no
  camera was removed while the broker was away.  No other topic of the broker is touched.\<close>

theorem broker_mirrors_service:
  assumes "inj_on (object_id u) ids" and "list_all (\<lambda>op. op_ids op \<subseteq> ids) ops"
    and "run_mqtt u parse ops (new_service cfg, b0) = (s, b)"
  shows "(mqs_connected s \<longrightarrow> holds_at b (wanted_bridge s)
      \<and> (\<forall>i c. map_of (mqs_cameras s) i = Some c \<longrightarrow> holds_at b (wanted_camera u s c)))
    \<and> (\<forall>i \<in> ids. let t = camera_topic u (mqs_config s) i in
        b (t ''snapshot_url'') \<in> insert (b0 (t ''snapshot_url'')) ((\<lambda>v. Some (Text v)) ` told_of ops i ''snapshot_url'')
      \<and> b (t ''image'') \<in> {b0 (t ''image''), None} \<union> (\<lambda>v. stored (Text v)) ` told_of ops i ''image''
      \<and> b (t ''temperature'') \<in> {b0 (t ''temperature''), None} \<union> (\<lambda>v. stored (Text v)) ` told_of ops i ''temperature'')
    \<and> (removes_online u parse ops (new_service cfg, b0) \<longrightarrow>
        (\<forall>i \<in> ids. \<forall>t \<in> set (removal_topics u (mqs_config s) i). b0 t = None) \<longrightarrow>
        (\<forall>i \<in> ids. map_of (mqs_cameras s) i = None \<longrightarrow>
           (\<forall>t \<in> set (removal_topics u (mqs_config s) i). b t = None)))
    \<and> (\<forall>t. t \<notin> own_topics u ids (mqs_config s) \<longrightarrow> b t = b0 t)"
proof -
  have acc: "accounted u ids ops (mqs_config (new_service cfg)) b0 (s, b)"
    using run_accounted [OF assms(1,2), of cfg b0 parse] assms(3) by simp
  then have conf: "mqs_config (new_service cfg) = mqs_config s" by (simp add: accounted_def)
  have 1: "mqs_connected s \<longrightarrow> holds_at b (wanted_bridge s)
      \<and> (\<forall>i c. map_of (mqs_cameras s) i = Some c \<longrightarrow> holds_at b (wanted_camera u s c))"
    using acc by (simp add: accounted_def mirrored_def)
  have 2: "let t = camera_topic u (mqs_config s) i in
        b (t ''snapshot_url'') \<in> insert (b0 (t ''snapshot_url'')) ((\<lambda>v. Some (Text v)) ` told_of ops i ''snapshot_url'')
      \<and> b (t ''image'') \<in> {b0 (t ''image''), None} \<union> (\<lambda>v. stored (Text v)) ` told_of ops i ''image''
      \<and> b (t ''temperature'') \<in> {b0 (t ''temperature''), None} \<union> (\<lambda>v. stored (Text v)) ` told_of ops i ''temperature''"
    if "i \<in> ids" for i
  proof -
    have v: "b (camera_topic u (mqs_config s) i leaf) = b0 (camera_topic u (mqs_config s) i leaf)
      \<or> (\<exists>p. from_told ops i leaf p \<and> b (camera_topic u (mqs_config s) i leaf) = stored p)"
      if "unkept_leaf leaf" for leaf
      using acc \<open>i \<in> ids\<close> that by (simp add: accounted_def conf)
    have "v \<noteq> []" if "v \<in> told_of ops i ''snapshot_url''" for v
    proof -
      from that obtain op where "(''snapshot_url'', v) \<in> set (told op)" by (auto simp: told_of_def)
      then show ?thesis by (cases op rule: told.cases) (auto split: if_splits)
    qed
    then show ?thesis
      using v [of "''snapshot_url''"] v [of "''image''"] v [of "''temperature''"]
      by (auto simp: unkept_leaf_def from_told_def Let_def)
  qed
  have 3: "\<forall>i \<in> ids. map_of (mqs_cameras s) i = None \<longrightarrow> (\<forall>t \<in> set (removal_topics u (mqs_config s) i). b t = None)"
    if "removes_online u parse ops (new_service cfg, b0)"
      "\<forall>i \<in> ids. \<forall>t \<in> set (removal_topics u (mqs_config s) i). b0 t = None"
  proof -
    have "retired u ids (new_service cfg) b0" using that(2) by (simp add: retired_def conf)
    then have "retired u ids s b"
      using run_retired [OF assms(1,2) that(1)] new_service_fine [of ids cfg u b0] assms(3) by simp
    then show ?thesis by (simp add: retired_def)
  qed
  have 4: "b t = b0 t" if "t \<notin> own_topics u ids (mqs_config s)" for t
    using acc that by (simp add: accounted_def conf)
  show ?thesis using 1 2 3 4 by blast
qed

subsection \<open>Cameras that left\<close>

lemma run_spares:
  assumes "inj_on (object_id u) ids" and "i \<in> ids" and "t \<in> set (owned u cfg i)" and "t \<notin> extra"
    and "list_all (\<lambda>op. op_ids op \<subseteq> ids \<and> \<not> names_camera i op
      \<and> (reports_availability i op \<longrightarrow> camera_topic u cfg i ''availability'' \<in> extra)) ops"
    and "mqs_config (fst sb) = cfg"
    and "service_ok ids (fst sb)" and "mirrored u (fst sb) (snd sb)" and "map_of (mqs_cameras (fst sb)) i = None"
  shows "snd (run_mqtt u parse ops sb) t = snd sb t"
  using assms(5-9)
proof (induction ops arbitrary: sb)
  case Nil
  then show ?case by (simp add: run_mqtt_def)
next
  case (Cons op ops)
  let ?sb = "do_op u parse op sb"
  have sp: "spares u ids extra i (fst sb) (apply_op u parse op (fst sb))"
    using op_spares Cons.prems by simp
  have fine: "step_fine u ids (snd sb) (apply_op u parse op (fst sb))"
    using op_fine [OF assms(1)] Cons.prems by simp
  have out: "t \<notin> foreign u ids extra cfg i"
    by (rule foreign_owned_topic [OF assms(1-4)])
  have "snd ?sb t = snd sb t"
  proof (cases "apply_op u parse op (fst sb)")
    case (Inr r)
    obtain s' ws where r: "r = (s', ws)" by fastforce
    with sp Inr out Cons.prems(2) have "t \<notin> work_topics u s' ws" by (auto simp: spares_def)
    then show ?thesis using Inr r by (simp add: do_op_def perform_other)
  qed (simp add: do_op_def)
  moreover have "mqs_config (fst ?sb) = cfg \<and> service_ok ids (fst ?sb)
      \<and> mirrored u (fst ?sb) (snd ?sb) \<and> map_of (mqs_cameras (fst ?sb)) i = None"
    using sp fine Cons.prems
    by (auto simp: do_op_def spares_def step_fine_def split: sum.splits)
  ultimately show ?case using Cons.IH [of ?sb] Cons.prems(1) by (simp add: run_mqtt_def)
qed

text \<open>C10: what retiring a camera leaves on the broker, for good: until the camera is registered or
  removed again, and through every reconnect and every other operation.  Removed while the
  service is connected, its four discovery messages, its picture, its reading and its
  temperature's availability are gone and stay gone; removed while it is not, all seven stay as
  they were.  Its snapshot address stays on the broker either way, and so does its availability,
  as long as nobody reports that for the retired camera.\<close>

theorem removed_camera_stays:
  assumes "inj_on (object_id u) ids" and "i \<in> ids"
    and "list_all (\<lambda>op. op_ids op \<subseteq> ids) ops1"
    and "list_all (\<lambda>op. op_ids op \<subseteq> ids \<and> \<not> names_camera i op) ops2"
    and "run_mqtt u parse ops1 (new_service cfg, b0) = (s1, b1)"
    and "run_mqtt u parse (Remove i # ops2) (s1, b1) = (s2, b2)"
  shows "(\<forall>t \<in> set (removal_topics u (mqs_config s1) i). b2 t = (if mqs_connected s1 then None else b1 t))
    \<and> b2 (camera_topic u (mqs_config s1) i ''snapshot_url'') = b1 (camera_topic u (mqs_config s1) i ''snapshot_url'')
    \<and> (list_all (\<lambda>op. \<not> reports_availability i op) ops2 \<longrightarrow>
        b2 (camera_topic u (mqs_config s1) i ''availability'') = b1 (camera_topic u (mqs_config s1) i ''availability''))"
proof -
  let ?sb = "do_op u parse (Remove i) (s1, b1)" and ?cfg = "mqs_config s1"
  let ?up = "camera_topic u ?cfg i ''availability''" and ?url = "camera_topic u ?cfg i ''snapshot_url''"
  have ok: "service_ok ids s1" "mirrored u s1 b1"
    using run_fine [OF assms(1,3), of "(new_service cfg, b0)" parse] new_service_fine [of ids cfg u b0] assms(5)
    by simp_all
  have "step_fine u ids b1 (remove_camera u i s1)" by (rule remove_fine [OF assms(1,2) ok])
  then have after: "mqs_config (fst ?sb) = ?cfg" "service_ok ids (fst ?sb)" "mirrored u (fst ?sb) (snd ?sb)"
    "map_of (mqs_cameras (fst ?sb)) i = None"
    by (simp_all add: do_op_def step_fine_def remove_camera_def when_connected_def AList.delete_conv' Let_def)
  have run: "run_mqtt u parse ops2 ?sb = (s2, b2)" using assms(6) by (simp add: run_mqtt_def)
  have later: "b2 t = snd ?sb t" if "t \<in> set (owned u ?cfg i)" "t \<noteq> ?up" for t
    using run_spares [OF assms(1,2) that(1) _ _ after, of "{?up}" ops2 parse] that(2) assms(4) run by simp
  have offline: "snd ?sb = b1" if "\<not> mqs_connected s1"
    using that by (simp add: do_op_def remove_camera_def when_connected_def perform_def Let_def)
  have other: "snd ?sb t = b1 t" if "t \<notin> set (removal_topics u ?cfg i)" for t
    using that by (cases "mqs_connected s1")
      (simp_all add: do_op_def remove_camera_def when_connected_def perform_def comp_def deliver_other image_image Let_def)
  have "b2 t = (if mqs_connected s1 then None else b1 t)" if t: "t \<in> set (removal_topics u ?cfg i)" for t
  proof -
    have "t \<in> set (owned u ?cfg i)" "t \<noteq> ?up"
      using t removal_owned removal_not_availability [of u ?cfg i] by auto
    from later [OF this] show ?thesis
      using removal_clears [OF _ t, of parse b1] offline by simp
  qed
  moreover have "b2 ?url = b1 ?url"
    using later [of ?url] other [of ?url] by (simp add: owned_def removal_topics_def Let_def)
  moreover have "b2 ?up = b1 ?up" if "list_all (\<lambda>op. \<not> reports_availability i op) ops2"
  proof -
    have "b2 ?up = snd ?sb ?up"
      using run_spares [OF assms(1,2) _ _ _ after, of ?up "{}" ops2 parse] that assms(4) run
      by (simp add: list_all_iff)
    then show ?thesis using other [of ?up] removal_not_availability [of u ?cfg i] by simp
  qed
  ultimately show ?thesis by blast
qed

subsection \<open>Reports from the control supervisor\<close>

definition take_report :: "unicode \<Rightarrow> string \<Rightarrow> report \<Rightarrow> mqtt_service \<Rightarrow> mqtt_service" where
  "take_report u i r s =
     (case apply_op u (\<lambda>_. None) (Report i r) s of Inl e \<Rightarrow> s | Inr (s', ws) \<Rightarrow> s')"

definition temperature_view :: "mqtt_service \<Rightarrow> string \<Rightarrow> bool \<times> bool option \<times> bool option" where
  "temperature_view s i =
     (map_of (mqs_cameras s) i \<noteq> None, mqs_temp_supported s i, mqs_temp_available s i)"

fun temperature_change :: "report \<Rightarrow> bool \<times> bool option \<times> bool option \<Rightarrow> bool \<times> bool option \<times> bool option" where
  "temperature_change r (False, yes, av) = (False, yes, av)"
| "temperature_change (Available b) (True, yes, av) = (True, yes, Some b)"
| "temperature_change (Supported b) (True, yes, av) = (True, Some b, if b then av else None)"
| "temperature_change (Reading t) (True, yes, av) =
     (True, yes, if t \<le> 0 \<or> 500 \<le> t then av else Some True)"

lemma temperature_view_report:
  "temperature_view (take_report u k r s) j
     = (if j = k then temperature_change r (temperature_view s k) else temperature_view s j)"
  by (cases r; cases "map_of (mqs_cameras s) k")
    (auto simp: take_report_def temperature_view_def set_temperature_available_def
      set_temperature_supported_def publish_reading_def when_connected_def Let_def)

interpretation discovery_sink: report_sink "take_report u" temperature_view temperature_change
  by unfold_locales (rule temperature_view_report)

subsection \<open>Operations in flight\<close>

text \<open>
  \<open>mqtt_step\<close> has every operation in a goroutine of its own: taking its effect on the picture is
  one step, under the lock, and its work is done after that in steps of its own, between those of
  others.  A publish may fail.
\<close>

record mqtt_system =
  sy_service :: mqtt_service
  sy_broker :: broker
  sy_jobs :: "work list list"

inductive mqtt_step :: "unicode \<Rightarrow> (string \<Rightarrow> url option) \<Rightarrow> mqtt_system \<Rightarrow> mqtt_system \<Rightarrow> bool" for u parse where
  call: "apply_op u parse op (sy_service y) = Inr (s', ws) \<Longrightarrow>
     mqtt_step u parse y (y\<lparr>sy_service := s', sy_jobs := sy_jobs y @ [ws]\<rparr>)"
| notify: "j < length (sy_jobs y) \<Longrightarrow> sy_jobs y ! j = Notify b # ws \<Longrightarrow>
     mqtt_step u parse y (y\<lparr>sy_jobs := (sy_jobs y)[j := ws]\<rparr>)"
| publish: "j < length (sy_jobs y) \<Longrightarrow> sy_jobs y ! j = Send p # ws \<Longrightarrow>
     mqtt_step u parse y (y\<lparr>sy_broker := deliver [p] (sy_broker y), sy_jobs := (sy_jobs y)[j := ws]\<rparr>)"
| failed: "j < length (sy_jobs y) \<Longrightarrow> sy_jobs y ! j = Send p # ws \<Longrightarrow>
     mqtt_step u parse y (y\<lparr>sy_jobs := (sy_jobs y)[j := ws]\<rparr>)"
| camera: "j < length (sy_jobs y) \<Longrightarrow> sy_jobs y ! j = CameraWork c # ws \<Longrightarrow>
     mqtt_step u parse y (y\<lparr>sy_jobs := (sy_jobs y)[j := map Send (publish_camera u (sy_service y) c) @ ws]\<rparr>)"

inductive_cases mqtt_stepE: "mqtt_step u parse y y'"

lemma publish_all:
  assumes "j < length (sy_jobs y)" and "sy_jobs y ! j = map Send ps @ ws"
  shows "(mqtt_step u parse)\<^sup>*\<^sup>* y (y\<lparr>sy_broker := deliver ps (sy_broker y), sy_jobs := (sy_jobs y)[j := ws]\<rparr>)"
  using assms
proof (induction ps arbitrary: y)
  case Nil
  then have "(sy_jobs y)[j := ws] = sy_jobs y" by (metis append_Nil list.map(1) list_update_id)
  then show ?case by simp
next
  case (Cons p ps)
  let ?y = "y\<lparr>sy_broker := deliver [p] (sy_broker y), sy_jobs := (sy_jobs y)[j := map Send ps @ ws]\<rparr>"
  have "mqtt_step u parse y ?y" using mqtt_step.publish [OF Cons.prems(1)] Cons.prems(2) by simp
  moreover have "(mqtt_step u parse)\<^sup>*\<^sup>* ?y (y\<lparr>sy_broker := deliver (p # ps) (sy_broker y), sy_jobs := (sy_jobs y)[j := ws]\<rparr>)"
    using Cons.IH [of ?y] Cons.prems(1) by (simp add: deliver_def)
  ultimately show ?case by (rule converse_rtranclp_into_rtranclp)
qed

text \<open>One camera, known before the connection.\<close>

definition lone_camera :: mqtt_camera where
  "lone_camera = \<lparr>mq_id = ''U1'', mq_name = ''Nursery'', mq_model = [], mq_stream_url = [], mq_snapshot_url = []\<rparr>"

definition lone_service :: "discovery_config \<Rightarrow> mqtt_service" where
  "lone_service cfg = (new_service cfg)\<lparr>mqs_cameras := [(''U1'', lone_camera)], mqs_available := [''U1'' \<mapsto> True]\<rparr>"

text \<open>The state of a camera can be lost between a reconnect and a change: \<open>onConnect\<close> reads that the
  camera is up, the camera goes down and that is published, and then \<open>onConnect\<close> publishes what it
  had read.  Nothing is left to do, the service holds the camera down and the broker shows it
  online, and telling the service again that it is down publishes nothing.\<close>

theorem stale_availability_sticks:
  "\<exists>y. (mqtt_step u parse)\<^sup>*\<^sup>* \<lparr>sy_service = lone_service cfg, sy_broker = b0, sy_jobs = []\<rparr> y
     \<and> list_all (\<lambda>ws. ws = []) (sy_jobs y) \<and> mqs_connected (sy_service y)
     \<and> mqs_available (sy_service y) ''U1'' = Some False
     \<and> sy_broker y (camera_topic u (mqs_config (lone_service cfg)) ''U1'' ''availability'') = Some (Text ''online'')
     \<and> set_camera_available u ''U1'' False (sy_service y) = Inr (sy_service y, [])"
proof -
  define c where "c = mqs_config (lone_service cfg)"
  define s1 where "s1 = (lone_service cfg)\<lparr>mqs_connected := True\<rparr>"
  define s2 where "s2 = s1\<lparr>mqs_available := (mqs_available s1)(''U1'' \<mapsto> False)\<rparr>"
  let ?t = "camera_topic u c ''U1'' ''availability''"
  let ?pre = "(availability_topic c, Text ''online'') # publish_bridge c"
  let ?st = "publish_status c (mqs_status s1)" and ?cam = "publish_camera u s1 lone_camera"
  let ?off = "(?t, Text ''offline'')"
  have connect: "apply_op u parse Connect (lone_service cfg)
      = Inr (s1, Notify True # map Send ?pre @ CameraWork lone_camera # map Send ?st)"
    by (simp add: on_connect_def s1_def c_def lone_service_def Let_def)
  have down: "apply_op u parse (CameraUp ''U1'' False) s1 = Inr (s2, [Send ?off])"
    by (simp add: set_camera_available_def s1_def s2_def c_def lone_service_def availability_payload_def Let_def)
  define y0 where "y0 = \<lparr>sy_service = lone_service cfg, sy_broker = b0, sy_jobs = []\<rparr>"
  define sys where "sys s b js = \<lparr>sy_service = s, sy_broker = b, sy_jobs = js\<rparr>" for s b js
  let ?tail = "CameraWork lone_camera # map Send ?st" and ?r = "(mqtt_step u parse)\<^sup>*\<^sup>*"
  define b1 where "b1 = deliver ?pre b0"
  define b2 where "b2 = deliver [?off] b1"
  define b3 where "b3 = deliver (?cam @ ?st) b2"
  have 1: "?r y0 (sys s1 b0 [Notify True # map Send ?pre @ ?tail])"
    using mqtt_step.call [of u parse Connect y0, simplified y0_def mqtt_system.simps, OF connect]
    by (simp add: sys_def y0_def r_into_rtranclp)
  have 2: "?r (sys s1 b0 [Notify True # map Send ?pre @ ?tail]) (sys s1 b0 [map Send ?pre @ ?tail])"
    using mqtt_step.notify [of 0 "sys s1 b0 [Notify True # map Send ?pre @ ?tail]"]
    by (simp add: sys_def r_into_rtranclp)
  have 3: "?r (sys s1 b0 [map Send ?pre @ ?tail]) (sys s1 b1 [?tail])"
    using publish_all [of 0 "sys s1 b0 [map Send ?pre @ ?tail]" ?pre ?tail u parse] by (simp add: sys_def b1_def)
  have 4: "?r (sys s1 b1 [?tail]) (sys s1 b1 [map Send (?cam @ ?st)])"
    using mqtt_step.camera [of 0 "sys s1 b1 [?tail]" lone_camera "map Send ?st" u parse]
    by (simp add: sys_def r_into_rtranclp)
  have 5: "?r (sys s1 b1 [map Send (?cam @ ?st)]) (sys s2 b1 [map Send (?cam @ ?st), [Send ?off]])"
    using mqtt_step.call [of u parse "CameraUp ''U1'' False" "sys s1 b1 [map Send (?cam @ ?st)]" s2 "[Send ?off]"] down
    by (simp add: sys_def r_into_rtranclp)
  have 6: "?r (sys s2 b1 [map Send (?cam @ ?st), [Send ?off]]) (sys s2 b2 [map Send (?cam @ ?st), []])"
    using publish_all [of 1 "sys s2 b1 [map Send (?cam @ ?st), [Send ?off]]" "[?off]" "[]" u parse]
    by (simp add: sys_def b2_def)
  have 7: "?r (sys s2 b2 [map Send (?cam @ ?st), []]) (sys s2 b3 [[], []])"
    using publish_all [of 0 "sys s2 b2 [map Send (?cam @ ?st), []]" "?cam @ ?st" "[]" u parse]
    by (simp add: sys_def b3_def)
  from 1 2 3 4 5 6 7 have "?r y0 (sys s2 b3 [[], []])" by (meson rtranclp_trans)
  moreover have "b3 ?t = Some (Text ''online'')"
  proof -
    have "?t \<notin> fst ` set ?st" by (simp add: publish_status_def)
    then have "b3 ?t = deliver ?cam b2 ?t" by (simp add: b3_def deliver_other)
    also have "\<dots> = Some (Text (availability_payload (flag (mqs_available s1) ''U1'')))"
      using publish_camera_holds [of u s1 lone_camera b2]
      by (simp add: wanted_camera_def lone_camera_def s1_def c_def Let_def)
    finally show ?thesis by (simp add: flag_def s1_def lone_service_def availability_payload_def)
  qed
  moreover have "mqs_connected s2" "mqs_available s2 ''U1'' = Some False"
    "set_camera_available u ''U1'' False s2 = Inr (s2, [])"
    by (auto simp: s2_def s1_def set_camera_available_def Let_def)
  ultimately show ?thesis
    by (intro exI [of _ "sys s2 b3 [[], []]"]) (simp add: sys_def y0_def c_def)
qed

subsection \<open>Instances\<close>

definition sample_mqtt :: discovery_config where
  "sample_mqtt = \<lparr>mc_host = ''core-mosquitto'', mc_port = 1883, mc_username = [], mc_password = [],
     mc_prefix = ''homeassistant'', mc_client_id = [], mc_tls = False, mc_base = [], mc_bridge_name = [],
     mc_version = [], mc_url = [], mc_frames = True\<rparr>"

definition sample_ops :: "mqtt_op list" where
  "sample_ops = [Upsert lone_camera, Connect, Upsert (lone_camera\<lparr>mq_id := ''U2''\<rparr>),
     Report ''U1'' (Supported True), Report ''U1'' (Reading 215), CameraUp ''U1'' False]"

lemma sample_ids: "inj_on (object_id sample_unicode) {''U1'', ''U2''}"
proof -
  have "object_id sample_unicode ''U1'' \<noteq> object_id sample_unicode ''U2''" by code_simp
  then show ?thesis by auto
qed

lemma sample_ops_ids: "list_all (\<lambda>op. op_ids op \<subseteq> {''U1'', ''U2''}) sample_ops"
  by (simp add: sample_ops_def lone_camera_def)

definition sample_picture :: mqtt_service where
  "sample_picture = fst (run_mqtt sample_unicode (\<lambda>_. None) sample_ops (new_service sample_mqtt, \<lambda>_. None))"

text \<open>One camera stays, the other is removed again: the first is shown, of the second nothing is left
  that a removal clears, and a topic of somebody else is as it was.\<close>

theorem broker_mirrors_service_witness:
  "case run_mqtt sample_unicode (\<lambda>_. None) (sample_ops @ [Remove ''U2'']) (new_service sample_mqtt, \<lambda>_. None) of
     (s, b) \<Rightarrow> holds_at b (wanted_camera sample_unicode s lone_camera)
       \<and> list_all (\<lambda>t. b t = None) (removal_topics sample_unicode (mqs_config s) ''U2'')
       \<and> b ''elsewhere'' = None"
proof -
  let ?ops = "sample_ops @ [Remove ''U2'']" and ?start = "(new_service sample_mqtt, \<lambda>_. None) :: mqtt_service \<times> broker"
  obtain s b where run: "run_mqtt sample_unicode (\<lambda>_. None) ?ops ?start = (s, b)" by fastforce
  have ops: "list_all (\<lambda>op. op_ids op \<subseteq> {''U1'', ''U2''}) ?ops" using sample_ops_ids by simp
  have "(\<lambda>sb. (mqs_connected (fst sb), map_of (mqs_cameras (fst sb)) ''U1'', map_of (mqs_cameras (fst sb)) ''U2'',
        mqs_config (fst sb))) (run_mqtt sample_unicode (\<lambda>_. None) ?ops ?start)
      = (True, Some lone_camera, None, mqs_config (new_service sample_mqtt))" by code_simp
  then have s: "mqs_connected s" "map_of (mqs_cameras s) ''U1'' = Some lone_camera" "map_of (mqs_cameras s) ''U2'' = None"
      "mqs_config s = mqs_config (new_service sample_mqtt)"
    by (simp_all add: run)
  have online: "removes_online sample_unicode (\<lambda>_. None) ?ops ?start" by code_simp
  note all = broker_mirrors_service [OF sample_ids ops run]
  have "holds_at b (wanted_camera sample_unicode s lone_camera)"
    using all [THEN conjunct1] s(1,2) by blast
  moreover have "list_all (\<lambda>t. b t = None) (removal_topics sample_unicode (mqs_config s) ''U2'')"
    using all [THEN conjunct2, THEN conjunct2, THEN conjunct1] online s(3) by (simp add: list_all_iff)
  moreover have "''elsewhere'' \<notin> own_topics sample_unicode {''U1'', ''U2''} (mqs_config s)"
    unfolding s(4) own_topics_def by code_simp
  then have "b ''elsewhere'' = None"
    using all [THEN conjunct2, THEN conjunct2, THEN conjunct2] by simp
  ultimately show ?thesis by (simp add: run)
qed

definition sample_offline :: "mqtt_service \<times> broker" where
  "sample_offline = run_mqtt sample_unicode (\<lambda>_. None) (sample_ops @ [Lose]) (new_service sample_mqtt, \<lambda>_. None)"

lemma sample_offline_facts:
  "\<not> mqs_connected (fst sample_offline)"
  "''homeassistant/camera/u1/config'' \<in> set (removal_topics sample_unicode (mqs_config (fst sample_offline)) ''U1'')"
  "snd sample_offline ''homeassistant/camera/u1/config''
     = Some (Discovery (camera_entity sample_unicode (mqs_config sample_picture) lone_camera))"
  "snd sample_offline (camera_topic sample_unicode (mqs_config (fst sample_offline)) ''U1'' ''availability'')
     = Some (Text ''offline'')"
  by code_simp+

text \<open>Removed while offline: Home Assistant still has the camera after the next connect, and its
  availability is still on the broker.\<close>

theorem removed_camera_stays_witness:
  "case run_mqtt sample_unicode (\<lambda>_. None) [Remove ''U1'', Connect] sample_offline of (s, b) \<Rightarrow>
     b ''homeassistant/camera/u1/config''
       = Some (Discovery (camera_entity sample_unicode (mqs_config sample_picture) lone_camera))
   \<and> b (camera_topic sample_unicode (mqs_config (fst sample_offline)) ''U1'' ''availability'') = Some (Text ''offline'')"
proof -
  have ops: "list_all (\<lambda>op. op_ids op \<subseteq> {''U1'', ''U2''}) (sample_ops @ [Lose])"
    using sample_ops_ids by simp
  have ops2: "list_all (\<lambda>op. op_ids op \<subseteq> {''U1'', ''U2''} \<and> \<not> names_camera ''U1'' op) [Connect]" by simp
  have run: "run_mqtt sample_unicode (\<lambda>_. None) (sample_ops @ [Lose]) (new_service sample_mqtt, \<lambda>_. None)
      = (fst sample_offline, snd sample_offline)"
    by (simp add: sample_offline_def)
  have U1: "''U1'' \<in> {''U1'', ''U2''}" by simp
  obtain s b where later: "run_mqtt sample_unicode (\<lambda>_. None) (Remove ''U1'' # [Connect]) (fst sample_offline, snd sample_offline)
      = (s, b)" by fastforce
  note all = removed_camera_stays [OF sample_ids U1 ops ops2 run later]
  have "b ''homeassistant/camera/u1/config''
       = Some (Discovery (camera_entity sample_unicode (mqs_config sample_picture) lone_camera))"
    using bspec [OF conjunct1 [OF all] sample_offline_facts(2)] sample_offline_facts(1,3) by simp
  moreover have "b (camera_topic sample_unicode (mqs_config (fst sample_offline)) ''U1'' ''availability'')
      = Some (Text ''offline'')"
    using conjunct2 [OF conjunct2 [OF all]] sample_offline_facts(4) by simp
  ultimately show ?thesis using later by simp
qed

end
