(* ===== verification/Config.thy ===== *)
theory Config
  imports Ingress Language
begin

text \<open>
  \<open>internal/config\<close>: the settings of the bridge process and what makes them acceptable.

  \<open>flags\<close> is what \<open>flag.Parse\<close> hands over (the defaults are \<open>default_flags\<close>); the parsing of the
  argument list is the standard library's and its error the left value.  \<open>url.Parse\<close> is a
  parameter, as in \<open>Ingress\<close>.
\<close>

record mqtt_config =
  mq_host :: string
  mq_port :: int
  mq_username :: string
  mq_password :: string
  mq_prefix :: string
  mq_tls :: bool

record app_config =
  ac_listen :: string
  ac_credentials :: string
  ac_registry :: string
  ac_status :: string
  ac_verbose :: bool
  ac_mqtt :: mqtt_config
  ac_stream_url :: string
  ac_snapshot_base :: string
  ac_token_file :: string
  ac_ingress :: string
  ac_trusted_cidrs :: "string list option"
  ac_go2rtc_required :: bool
  ac_go2rtc_url :: string
  ac_shutdown_timeout :: int
  ac_poll_interval :: int
  ac_refresh_interval :: int
  ac_allow_refresh :: bool
  ac_allow_media_restart :: bool
  ac_language :: language

text \<open>The values of the flags that are not fields of the configuration as they stand.\<close>

record flags =
  fl_config :: app_config
  fl_legacy_password :: string
  fl_trusted_cidr :: string
  fl_language :: string

definition default_flags :: flags where
  "default_flags = \<lparr> fl_config = \<lparr> ac_listen = ''127.0.0.1:8554'', ac_credentials = ''runtime-logs/creds/creds.json'',
     ac_registry = [], ac_status = [], ac_verbose = False,
     ac_mqtt = \<lparr> mq_host = [], mq_port = 1883, mq_username = [], mq_password = [], mq_prefix = ''homeassistant'',
                mq_tls = False \<rparr>,
     ac_stream_url = [], ac_snapshot_base = [], ac_token_file = [], ac_ingress = [], ac_trusted_cidrs = None,
     ac_go2rtc_required = False, ac_go2rtc_url = ''http://127.0.0.1:1984/'', ac_shutdown_timeout = 10 * second,
     ac_poll_interval = 30 * second, ac_refresh_interval = 0, ac_allow_refresh = False,
     ac_allow_media_restart = False, ac_language = [] \<rparr>,
     fl_legacy_password = [], fl_trusted_cidr = [], fl_language = auto_option \<rparr>"

datatype config_error =
    FlagError string
  | BadLanguage
  | NoCredentialsPath
  | BadAddress string
  | BadAddressPort string
  | BadShutdown
  | BadPollInterval
  | BadRefreshInterval
  | BadGo2rtcUrl
  | BadSnapshotBase
  | SnapshotNeedsIngress
  | BadMqttPort
  | NoDiscoveryPrefix
  | BadStreamUrl

definition validate_address :: "string \<Rightarrow> string \<Rightarrow> config_error option" where
  "validate_address name address =
     (case split_host_port address of
        None \<Rightarrow> Some (BadAddress name)
      | Some (_, port) \<Rightarrow>
          (case atoi port of
             None \<Rightarrow> Some (BadAddressPort name)
           | Some n \<Rightarrow> if n < 1 \<or> n > 65535 then Some (BadAddressPort name) else None))"

text \<open>The first of a list of checks that fails.\<close>

fun first_error :: "'e option list \<Rightarrow> 'e option" where
  "first_error [] = None"
| "first_error (None # es) = first_error es"
| "first_error (Some e # es) = Some e"

definition hour :: int where "hour = 3600 * second"

definition rtsp_url :: "url option \<Rightarrow> bool" where
  "rtsp_url u =
     (case u of None \<Rightarrow> False | Some u \<Rightarrow> url_scheme u = ''rtsp'' \<and> url_host u \<noteq> [] \<and> url_path u \<noteq> [])"

definition validate_mqtt :: "(string \<Rightarrow> url option) \<Rightarrow> app_config \<Rightarrow> config_error option" where
  "validate_mqtt parse c =
     (let m = ac_mqtt c
      in if mq_host m = [] then None
         else if mq_port m < 1 \<or> mq_port m > 65535 then Some BadMqttPort
         else if mq_prefix m = [] then Some NoDiscoveryPrefix
         else if \<not> rtsp_url (parse (ac_stream_url c)) then Some BadStreamUrl
         else None)"

definition validate_config :: "(string \<Rightarrow> url option) \<Rightarrow> app_config \<Rightarrow> config_error option" where
  "validate_config parse c = first_error [
     if ac_credentials c = [] then Some NoCredentialsPath else None,
     validate_address ''listen address'' (ac_listen c),
     if ac_status c \<noteq> [] then validate_address ''status address'' (ac_status c) else None,
     if ac_ingress c \<noteq> [] then validate_address ''ingress address'' (ac_ingress c) else None,
     if ac_shutdown_timeout c \<le> 0 then Some BadShutdown else None,
     if ac_poll_interval c < 10 * second \<or> ac_poll_interval c > hour then Some BadPollInterval else None,
     if ac_refresh_interval c \<noteq> 0 \<and> (ac_refresh_interval c < 5 * second \<or> ac_refresh_interval c > hour)
     then Some BadRefreshInterval else None,
     if ac_go2rtc_required c \<and> \<not> absolute_http (parse (ac_go2rtc_url c)) then Some BadGo2rtcUrl else None,
     if ac_snapshot_base c \<noteq> [] then
       (if \<not> absolute_http (parse (ac_snapshot_base c)) then Some BadSnapshotBase
        else if ac_ingress c = [] then Some SnapshotNeedsIngress else None)
     else None,
     validate_mqtt parse c]"

text \<open>\<open>None\<close> keeps the default networks; \<open>Some []\<close> disables the check.\<close>

definition parse_trusted_cidrs :: "string \<Rightarrow> string list option" where
  "parse_trusted_cidrs v =
     (let value = trim_space v
      in if value = [] then None
         else if equal_fold value ''any'' then Some []
         else Some (filter (\<lambda>p. p \<noteq> []) (map trim_space (split_at CHR '','' value))))"

definition load_config ::
    "(string \<Rightarrow> url option) \<Rightarrow> string + flags \<Rightarrow> (string \<Rightarrow> string option) option \<Rightarrow> config_error + app_config" where
  "load_config parse parsed env =
     (case parsed of
        Inl e \<Rightarrow> Inl (FlagError e)
      | Inr f \<Rightarrow>
          (case parse_option (fl_language f) of
             None \<Rightarrow> Inl BadLanguage
           | Some lang \<Rightarrow>
               (let password = (case env of
                      None \<Rightarrow> fl_legacy_password f
                    | Some look \<Rightarrow> (case look ''VM65_MQTT_PASSWORD'' of
                          None \<Rightarrow> fl_legacy_password f
                        | Some p \<Rightarrow> p));
                    c = (fl_config f)\<lparr> ac_language := lang,
                          ac_trusted_cidrs := parse_trusted_cidrs (fl_trusted_cidr f),
                          ac_mqtt := (ac_mqtt (fl_config f))\<lparr> mq_password := password \<rparr> \<rparr>
                in case validate_config parse c of Some e \<Rightarrow> Inl e | None \<Rightarrow> Inr c)))"

definition stream_host :: "(string \<Rightarrow> url option) \<Rightarrow> (url \<Rightarrow> string) \<Rightarrow> app_config \<Rightarrow> string" where
  "stream_host parse hostname c =
     (if ac_stream_url c = [] then []
      else (case parse (ac_stream_url c) of None \<Rightarrow> [] | Some u \<Rightarrow> hostname u))"

definition language_option :: "language \<Rightarrow> string" where
  "language_option l = (if l = [] then auto_option else l)"

text \<open>The values of the log-safe summary, in the order of its format string.\<close>

datatype log_value = LogText string | LogNumber int | LogBool bool | LogDuration int

definition redacted_values :: "app_config \<Rightarrow> (string \<times> log_value) list" where
  "redacted_values c =
     [(''listen'', LogText (ac_listen c)), (''status'', LogText (ac_status c)),
      (''credentials'', LogText (ac_credentials c)), (''registry'', LogText (ac_registry c)),
      (''mqtt_host'', LogText (mq_host (ac_mqtt c))), (''mqtt_port'', LogNumber (mq_port (ac_mqtt c))),
      (''mqtt_tls'', LogBool (mq_tls (ac_mqtt c))),
      (''mqtt_user_set'', LogBool (mq_username (ac_mqtt c) \<noteq> [])),
      (''mqtt_password_set'', LogBool (mq_password (ac_mqtt c) \<noteq> [])),
      (''stream_url'', LogText (ac_stream_url c)), (''snapshot_base'', LogText (ac_snapshot_base c)),
      (''ingress'', LogText (ac_ingress c)), (''go2rtc_required'', LogBool (ac_go2rtc_required c)),
      (''go2rtc_url'', LogText (ac_go2rtc_url c)), (''shutdown_timeout'', LogDuration (ac_shutdown_timeout c)),
      (''temperature_poll_interval'', LogDuration (ac_poll_interval c)),
      (''camera_refresh_interval'', LogDuration (ac_refresh_interval c)),
      (''language'', LogText (language_option (ac_language c)))]"

subsection \<open>What an accepted configuration promises\<close>

lemma first_error_None: "first_error es = None \<longleftrightarrow> (\<forall>e \<in> set es. e = None)"
  by (induction es rule: first_error.induct) auto

definition good_address :: "string \<Rightarrow> bool" where
  "good_address a \<longleftrightarrow> (\<exists>h p n. split_host_port a = Some (h, p) \<and> atoi p = Some n \<and> 1 \<le> n \<and> n \<le> 65535)"

lemma validate_address_None: "validate_address name a = None \<longleftrightarrow> good_address a"
  by (auto simp: validate_address_def good_address_def split: option.splits prod.splits)

lemma validate_mqtt_None:
  "validate_mqtt parse c = None \<longleftrightarrow> mq_host (ac_mqtt c) = []
     \<or> 1 \<le> mq_port (ac_mqtt c) \<and> mq_port (ac_mqtt c) \<le> 65535 \<and> mq_prefix (ac_mqtt c) \<noteq> []
       \<and> rtsp_url (parse (ac_stream_url c))"
  by (auto simp: validate_mqtt_def Let_def)

text \<open>A configuration is accepted exactly when every listener has an address with a usable port,
  the timeouts and intervals are in their ranges, the URLs that will be used are absolute and of
  their scheme, a published snapshot address has a listener behind it, and a configured broker
  has a port, a prefix and an RTSP URL to advertise.\<close>

theorem validate_config_iff:
  "validate_config parse c = None \<longleftrightarrow>
     ac_credentials c \<noteq> [] \<and> good_address (ac_listen c)
   \<and> (ac_status c = [] \<or> good_address (ac_status c)) \<and> (ac_ingress c = [] \<or> good_address (ac_ingress c))
   \<and> 0 < ac_shutdown_timeout c \<and> 10 * second \<le> ac_poll_interval c \<and> ac_poll_interval c \<le> hour
   \<and> (ac_refresh_interval c = 0 \<or> 5 * second \<le> ac_refresh_interval c \<and> ac_refresh_interval c \<le> hour)
   \<and> (ac_go2rtc_required c = False \<or> absolute_http (parse (ac_go2rtc_url c)))
   \<and> (ac_snapshot_base c = [] \<or> absolute_http (parse (ac_snapshot_base c)) \<and> ac_ingress c \<noteq> [])
   \<and> (mq_host (ac_mqtt c) = []
      \<or> 1 \<le> mq_port (ac_mqtt c) \<and> mq_port (ac_mqtt c) \<le> 65535 \<and> mq_prefix (ac_mqtt c) \<noteq> []
        \<and> rtsp_url (parse (ac_stream_url c)))"
  unfolding validate_config_def first_error_None
  by (auto simp: validate_address_None validate_mqtt_None)

lemma parse_option_supported: "parse_option v = Some l \<Longrightarrow> l = [] \<or> l \<in> set supported_languages"
  by (auto simp: parse_option_def Let_def split: if_splits)

lemma parse_trusted_cidrs_None: "parse_trusted_cidrs v = None \<longleftrightarrow> trim_space v = []"
  by (simp add: parse_trusted_cidrs_def Let_def)

text \<open>A loaded configuration was validated, the environment's broker password wins over the
  deprecated flag, and the language is one the pages are written in or the browser's; an empty
  network list keeps the Supervisor's network and only the word \<open>any\<close>, or a list of nothing but
  separators, turns the address check off.\<close>

theorem load_config_validated:
  assumes "load_config parse (Inr f) env = Inr c"
  shows "validate_config parse c = None
   \<and> (ac_language c = [] \<or> ac_language c \<in> set supported_languages)
   \<and> (case Option.bind env (\<lambda>look. look ''VM65_MQTT_PASSWORD'') of
        Some p \<Rightarrow> mq_password (ac_mqtt c) = p
      | None \<Rightarrow> mq_password (ac_mqtt c) = fl_legacy_password f)
   \<and> (ac_trusted_cidrs c = None \<longleftrightarrow> trim_space (fl_trusted_cidr f) = [])"
proof -
  obtain lang password where l: "parse_option (fl_language f) = Some lang"
    and p: "password = (case env of None \<Rightarrow> fl_legacy_password f
        | Some look \<Rightarrow> (case look ''VM65_MQTT_PASSWORD'' of None \<Rightarrow> fl_legacy_password f | Some p \<Rightarrow> p))"
    and c: "c = (fl_config f)\<lparr> ac_language := lang, ac_trusted_cidrs := parse_trusted_cidrs (fl_trusted_cidr f),
          ac_mqtt := (ac_mqtt (fl_config f))\<lparr> mq_password := password \<rparr> \<rparr>"
    and v: "validate_config parse c = None"
    using assms by (auto simp: load_config_def Let_def split: option.splits)
  show ?thesis
    using v parse_option_supported [OF l] parse_trusted_cidrs_None [of "fl_trusted_cidr f"]
    by (simp add: c p split: option.split)
qed

theorem load_config_validated_witness:
  "\<exists>c. load_config (\<lambda>_. None) (Inr default_flags) (Some (\<lambda>_. Some ''pw'')) = Inr c \<and> mq_password (ac_mqtt c) = ''pw''"
proof -
  have v: "is_Inr (load_config (\<lambda>_. None) (Inr default_flags) (Some (\<lambda>_. Some ''pw'')))" by code_simp
  then obtain c where c: "load_config (\<lambda>_. None) (Inr default_flags) (Some (\<lambda>_. Some ''pw'')) = Inr c"
    by (auto simp: is_Inr_def split: sum.splits)
  from load_config_validated [OF c] c show ?thesis by simp
qed

text \<open>A list of nothing but separators is an empty list that is not nil, which switches the address
  check off as the word \<open>any\<close> does.\<close>

lemma separators_disable_check:
  "new_guard (parse_trusted_cidrs '','') = Inr [] \<and> guard_allow (Some []) remote"
proof -
  have "new_guard (parse_trusted_cidrs '','') = Inr []" by code_simp
  then show ?thesis by (simp add: guard_allow_def)
qed

text \<open>The summary that is logged does not depend on the broker's user name and password beyond
  whether they are set, nor on the token file.\<close>

theorem redacted_hides_secrets:
  "redacted_values (c\<lparr> ac_mqtt := (ac_mqtt c)\<lparr> mq_username := u # us, mq_password := p # ps \<rparr>, ac_token_file := tf \<rparr>)
     = redacted_values (c\<lparr> ac_mqtt := (ac_mqtt c)\<lparr> mq_username := u' # us', mq_password := p' # ps' \<rparr>, ac_token_file := tf' \<rparr>)"
  by (simp add: redacted_values_def)

end
