(* ===== verification/Bridge_Process.thy ===== *)
theory Bridge_Process
  imports Mqtt_Mirror Runtime Web_Pages Still_Cache Config
begin

text \<open>
  \<open>cmd/vm65-bridge/main.go\<close>: the bridge process, which puts the components together.  It reads the
  credential files, builds the registry, and keeps five things in step with it through every
  reload: the running bridges, the media proxy, the still image cache, the camera page and the
  entities in Home Assistant.

  Files are a function from paths to what reading them gives, and the JSON decoder is a parameter,
  as \<open>encoding/json\<close> is a library.  \<open>url_lib\<close> is \<open>net/url\<close>: parsing, the text of a URL whose path
  was replaced (with the text it was parsed from, for the parts \<open>url\<close> does not hold), and the text
  of a URL with a query.  Maps that are iterated are association lists; Go's order is arbitrary,
  and no property depends on it.
\<close>

record url_lib =
  ul_parse :: "string \<Rightarrow> url option"
  ul_show :: "string \<Rightarrow> url \<Rightarrow> string"
  ul_show_query :: "url \<Rightarrow> string \<Rightarrow> string"

subsection \<open>Credential files\<close>

record creds_file =
  cf_device_id :: "32 word"
  cf_udid :: string
  cf_name :: string
  cf_model :: string
  cf_sid :: string
  cf_token :: string
  cf_control_host :: string
  cf_control_port :: int
  cf_target_port :: int
  cf_api_host :: string
  cf_api_port :: int
  cf_listen_addr :: string

datatype load_error =
    CannotRead string
  | CannotParse string string
  | Incomplete
  | NoCameraInRegistry
  | BadEntry nat

record credential_set =
  cs_credentials :: "credentials list"
  cs_addresses :: "(string \<times> string) list"

definition file_credentials :: "creds_file \<Rightarrow> load_error + credentials" where
  "file_credentials f =
     (if cf_sid f = [] \<or> cf_token f = [] \<or> cf_control_host f = [] then Inl Incomplete
      else Inr \<lparr>cr_device_id = cf_device_id f, cr_sid = cf_sid f, cr_token = cf_token f, cr_udid = cf_udid f,
        cr_name = cf_name f, cr_model = cf_model f, cr_control_host = cf_control_host f,
        cr_control_port = cf_control_port f, cr_target_port = cf_target_port f,
        cr_api_host = cf_api_host f, cr_api_port = cf_api_port f\<rparr>)"

definition parse_file :: "(string \<Rightarrow> file_read) \<Rightarrow> (string \<Rightarrow> string + 'a) \<Rightarrow> string \<Rightarrow> load_error + 'a" where
  "parse_file files json path =
     (case files path of
        FileText t \<Rightarrow> (case json t of Inl e \<Rightarrow> Inl (CannotParse path e) | Inr v \<Rightarrow> Inr v)
      | _ \<Rightarrow> Inl (CannotRead path))"

definition load_creds :: "(string \<Rightarrow> file_read) \<Rightarrow> (string \<Rightarrow> string + creds_file) \<Rightarrow> string \<Rightarrow> load_error + credentials \<times> string" where
  "load_creds files json path =
     bind_sum (parse_file files json path) (\<lambda>f.
     bind_sum (file_credentials f) (\<lambda>c. Inr (c, cf_listen_addr f)))"

text \<open>The loop over the registry's entries.\<close>

fun load_entries :: "nat \<Rightarrow> creds_file list \<Rightarrow> credential_set \<Rightarrow> load_error + credential_set" where
  "load_entries index [] cs = Inr cs"
| "load_entries index (f # fs) cs =
     (case file_credentials f of
        Inl e \<Rightarrow> Inl (BadEntry index)
      | Inr c \<Rightarrow>
          load_entries (index + 1) fs
            \<lparr>cs_credentials = cs_credentials cs @ [c],
             cs_addresses = (if cf_listen_addr f \<noteq> [] \<and> cr_udid c \<noteq> []
               then AList.update (cr_udid c) (cf_listen_addr f) (cs_addresses cs) else cs_addresses cs)\<rparr>)"

definition load_credential_set ::
  "(string \<Rightarrow> file_read) \<Rightarrow> (string \<Rightarrow> string + creds_file) \<Rightarrow> (string \<Rightarrow> string + creds_file list)
     \<Rightarrow> app_config \<Rightarrow> load_error + credential_set" where
  "load_credential_set files json_one json_all cfg =
     (if ac_registry cfg = [] then
        bind_sum (load_creds files json_one (ac_credentials cfg)) (\<lambda>(c, address).
          Inr \<lparr>cs_credentials = [c],
               cs_addresses = (if address \<noteq> [] \<and> cr_udid c \<noteq> [] then [(cr_udid c, address)] else [])\<rparr>)
      else
        bind_sum (parse_file files json_all (ac_registry cfg)) (\<lambda>fs.
          if fs = [] then Inl NoCameraInRegistry
          else load_entries 0 fs \<lparr>cs_credentials = [], cs_addresses = []\<rparr>))"

text \<open>\<open>app.Build\<close> as the process calls it: with the recorded addresses and no probe.\<close>

definition build_from :: "unicode \<Rightarrow> app_config \<Rightarrow> credential_set \<Rightarrow> build_error + registry" where
  "build_from u cfg cs =
     build_registry u \<lparr>bo_base_address = ac_listen cfg, bo_credentials = cs_credentials cs,
       bo_recorded = cs_addresses cs, bo_port_in_use = None\<rparr>"

subsection \<open>Names\<close>

definition mjpeg_suffix :: string where
  "mjpeg_suffix = ''-mjpeg''"

definition stream_names :: "registry \<Rightarrow> string list" where
  "stream_names reg =
     (if rg_legacy_alias reg \<noteq> [] then [rg_legacy_alias reg, rg_legacy_alias reg @ mjpeg_suffix] else [])
     @ concat (map (\<lambda>c. [cm_stream_name c, cm_stream_name c @ mjpeg_suffix]) (rg_cameras reg))"

definition published_stream_name :: "registry \<Rightarrow> camera \<Rightarrow> nat \<Rightarrow> string" where
  "published_stream_name reg c index =
     (if index = 0 \<and> rg_legacy_alias reg \<noteq> [] then rg_legacy_alias reg else cm_stream_name c)"

text \<open>The cameras with their positions, as \<open>range\<close> gives them.\<close>

definition indexed :: "registry \<Rightarrow> (nat \<times> camera) list" where
  "indexed reg = zip [0..<length (rg_cameras reg)] (rg_cameras reg)"

definition published_streams :: "registry \<Rightarrow> string list" where
  "published_streams reg = map (\<lambda>(i, c). published_stream_name reg c i) (indexed reg)"

definition discovery_stream_url :: "url_lib \<Rightarrow> string \<Rightarrow> string \<Rightarrow> bool \<Rightarrow> string option" where
  "discovery_stream_url lib base name legacy =
     map_option (\<lambda>p. ul_show lib base (if legacy then p else p\<lparr>url_path := ''/'' @ name\<rparr>)) (ul_parse lib base)"

text \<open>What \<open>logCameraURLs\<close> writes: the stream names and URLs, and no token.\<close>

definition log_camera_urls :: "url_lib \<Rightarrow> app_config \<Rightarrow> registry \<Rightarrow> (string \<times> string) list" where
  "log_camera_urls lib cfg reg =
     (if ac_stream_url cfg = [] then []
      else concat (map (\<lambda>(i, c). case discovery_stream_url lib (ac_stream_url cfg) (cm_stream_name c) (i = 0) of
             None \<Rightarrow> [] | Some url \<Rightarrow> [(cm_stream_name c, url)]) (indexed reg)))"

definition temperature_cameras :: "registry \<Rightarrow> dc_camera list" where
  "temperature_cameras reg =
     map (\<lambda>cr. \<lparr>dc_id = cr_udid cr, dc_device_id = cr_device_id cr, dc_token = cr_token cr,
                dc_host = cr_api_host cr, dc_port = cr_api_port cr\<rparr>)
       (filter (\<lambda>cr. \<not> (cr_udid cr = [] \<or> cr_api_host cr = [] \<or> cr_api_port cr < 1 \<or> cr_token cr = []))
          (map cm_credentials (rg_cameras reg)))"

subsection \<open>Publishing the registry to Home Assistant\<close>

record publisher =
  pb_active :: bool
  pb_published :: "string list"
  pb_token :: string

definition discovery_camera :: "url_lib \<Rightarrow> app_config \<Rightarrow> registry \<Rightarrow> string \<Rightarrow> nat \<Rightarrow> camera \<Rightarrow> string \<Rightarrow> mqtt_camera" where
  "discovery_camera lib cfg reg token i c stream_url =
     (let cr = cm_credentials c in
      \<lparr>mq_id = cr_udid cr,
       mq_name = (if cr_name cr = [] then ''Motorola Nursery Camera'' else cr_name cr),
       mq_model = cr_model cr, mq_stream_url = stream_url,
       mq_snapshot_url = (case snapshot_url (ul_parse lib) (ac_snapshot_base cfg) (published_stream_name reg c i) token of
           None \<Rightarrow> [] | Some (p, q) \<Rightarrow> ul_show_query lib p q)\<rparr>)"

text \<open>\<open>publish\<close>: the operations on the service, in order, the cameras whose URL could not be built,
  and the publisher after it.  A failed operation is logged and changes nothing else.\<close>

definition publish_upserts :: "url_lib \<Rightarrow> app_config \<Rightarrow> registry \<Rightarrow> string \<Rightarrow> mqtt_camera list" where
  "publish_upserts lib cfg reg token =
     concat (map (\<lambda>(i, c). case discovery_stream_url lib (ac_stream_url cfg) (cm_stream_name c) (i = 0) of
         None \<Rightarrow> [] | Some url \<Rightarrow> [discovery_camera lib cfg reg token i c url]) (indexed reg))"

definition publish_failures :: "url_lib \<Rightarrow> app_config \<Rightarrow> registry \<Rightarrow> string list" where
  "publish_failures lib cfg reg =
     map (cm_stream_name \<circ> snd) (filter (\<lambda>(i, c).
       discovery_stream_url lib (ac_stream_url cfg) (cm_stream_name c) (i = 0) = None) (indexed reg))"

definition publish_registry ::
  "url_lib \<Rightarrow> app_config \<Rightarrow> registry \<Rightarrow> publisher \<Rightarrow> mqtt_op list \<times> string list \<times> publisher" where
  "publish_registry lib cfg reg p =
     (if \<not> pb_active p then ([], [], p)
      else (let cams = publish_upserts lib cfg reg (pb_token p);
                current = remdups (map mq_id cams);
                gone = filter (\<lambda>i. i \<notin> set current) (pb_published p)
            in (map Upsert cams @ map Remove gone, publish_failures lib cfg reg, p\<lparr>pb_published := current\<rparr>)))"

text \<open>The service settings, and when there is a service at all.\<close>

definition wants_discovery :: "app_config \<Rightarrow> credentials \<Rightarrow> bool" where
  "wants_discovery cfg primary \<longleftrightarrow> mq_host (ac_mqtt cfg) \<noteq> [] \<and> cr_udid primary \<noteq> [] \<and> ac_stream_url cfg \<noteq> []"

definition discovery_settings :: "string \<Rightarrow> app_config \<Rightarrow> credentials \<Rightarrow> discovery_config" where
  "discovery_settings version cfg primary =
     \<lparr>mc_host = mq_host (ac_mqtt cfg), mc_port = mq_port (ac_mqtt cfg), mc_username = mq_username (ac_mqtt cfg),
      mc_password = mq_password (ac_mqtt cfg), mc_prefix = mq_prefix (ac_mqtt cfg),
      mc_client_id = ''vm65-bridge-'' @ cr_udid primary, mc_tls = mq_tls (ac_mqtt cfg), mc_base = [],
      mc_bridge_name = [], mc_version = version, mc_url = ac_snapshot_base cfg,
      mc_frames = (0 < ac_refresh_interval cfg)\<rparr>"

subsection \<open>The temperature store\<close>

record temperature_store =
  ts_celsius :: "(string \<times> int) list"
  ts_supported :: "(string \<times> bool) list"
  ts_sink :: bool

definition new_store :: temperature_store where
  "new_store = \<lparr>ts_celsius = [], ts_supported = [], ts_sink = False\<rparr>"

text \<open>A report: the store, and what is passed on to the sink.\<close>

fun store_update :: "string \<Rightarrow> report \<Rightarrow> temperature_store \<Rightarrow> temperature_store" where
  "store_update i (Supported b) t =
     t\<lparr>ts_supported := AList.update i b (ts_supported t),
       ts_celsius := (if b then ts_celsius t else AList.delete i (ts_celsius t))\<rparr>"
| "store_update i (Available b) t =
     t\<lparr>ts_celsius := (if b then ts_celsius t else AList.delete i (ts_celsius t))\<rparr>"
| "store_update i (Reading c) t = t\<lparr>ts_celsius := AList.update i c (ts_celsius t)\<rparr>"

definition store_report :: "string \<Rightarrow> report \<Rightarrow> temperature_store \<Rightarrow> temperature_store \<times> (string \<times> report) list" where
  "store_report i r t = (store_update i r t, if ts_sink t then [(i, r)] else [])"

text \<open>\<open>setSink\<close> replays what is known: first every capability, then every reading.\<close>

definition set_sink :: "temperature_store \<Rightarrow> temperature_store \<times> (string \<times> report) list" where
  "set_sink t =
     (t\<lparr>ts_sink := True\<rparr>,
      map (\<lambda>(i, b). (i, Supported b)) (ts_supported t) @ map (\<lambda>(i, c). (i, Reading c)) (ts_celsius t))"

definition store_reading :: "temperature_store \<Rightarrow> string \<Rightarrow> int option" where
  "store_reading t i = map_of (ts_celsius t) i"

subsection \<open>What the camera page shows\<close>

record page_names =
  pn_streams :: "(string \<times> string) list"
  pn_urls :: "(string \<times> string) list"
  pn_frames :: "(string \<times> string) list"

definition set_registry :: "url_lib \<Rightarrow> app_config \<Rightarrow> registry \<Rightarrow> page_names" where
  "set_registry lib cfg reg =
     fold (\<lambda>(i, c) n.
         let published = published_stream_name reg c i; key = camera_key c in
         \<lparr>pn_streams = AList.update key published (pn_streams n),
          pn_urls = (case discovery_stream_url lib (ac_stream_url cfg) (cm_stream_name c) (i = 0) of
              None \<Rightarrow> pn_urls n | Some url \<Rightarrow> AList.update key url (pn_urls n)),
          pn_frames = (if cr_udid (cm_credentials c) = [] then pn_frames n
              else AList.update (cr_udid (cm_credentials c)) published (pn_frames n))\<rparr>)
       (indexed reg) \<lparr>pn_streams = [], pn_urls = [], pn_frames = []\<rparr>"

definition page_stream :: "page_names \<Rightarrow> string \<Rightarrow> string \<times> string" where
  "page_stream n i =
     (case map_of (pn_streams n) i of None \<Rightarrow> [] | Some s \<Rightarrow> s,
      case map_of (pn_urls n) i of None \<Rightarrow> [] | Some s \<Rightarrow> s)"

definition page_camera :: "page_names \<Rightarrow> temperature_store \<Rightarrow> camera_state \<Rightarrow> ui_camera" where
  "page_camera n t st =
     (let (stream, url) = page_stream n (ca_id st); stream = (if stream = [] then ca_stream st else stream) in
      \<lparr>uc_id = ca_id st, uc_name = (if ca_name st = [] then ''Motorola Nursery Camera'' else ca_name st),
       uc_model = ca_model st, uc_stream = stream, uc_mjpeg_stream = stream @ mjpeg_suffix, uc_stream_url = url,
       uc_serving = ca_serving st, uc_sessions = ca_active st,
       uc_temperature = map_option (\<lambda>c. of_int c / 10) (store_reading t (ca_id st))\<rparr>)"

definition overview_of ::
  "string \<Rightarrow> string \<Rightarrow> app_config \<Rightarrow> snapshot \<Rightarrow> page_names \<Rightarrow> temperature_store \<Rightarrow> runtime \<Rightarrow> overview" where
  "overview_of version host cfg sn n t rt =
     \<lparr>ov_cameras = map (page_camera n t) (runtime_cameras rt), ov_version = version, ov_ready = sn_ready sn,
      ov_go2rtc_ready = (\<not> sn_go2rtc_required sn \<or> sn_go2rtc_ready sn), ov_mqtt_connected = sn_mqtt_connected sn,
      ov_mqtt_enabled = sn_mqtt_enabled sn, ov_reconnects = nat (sn_reconnects sn), ov_uptime = sn_uptime sn,
      ov_stream_host = host, ov_can_restart_media = ac_allow_media_restart cfg,
      ov_can_refresh = ac_allow_refresh cfg\<rparr>"

text \<open>The two repairs.  \<open>post\<close> is the request to the media server: its error or the status;
  \<open>signal\<close> is raising SIGUSR1 on the parent process.\<close>

definition restart_media :: "url_lib \<Rightarrow> app_config \<Rightarrow> (string \<Rightarrow> string + nat) \<Rightarrow> source_error option" where
  "restart_media lib cfg post =
     (if \<not> ac_allow_media_restart cfg then Some Unsupported
      else case ul_parse lib (ac_go2rtc_url cfg) of
        None \<Rightarrow> Some (SourceFailed ''parse media server URL'')
      | Some p \<Rightarrow>
          (case post (ul_show lib (ac_go2rtc_url cfg) (p\<lparr>url_path := trim_suffix ''/'' (url_path p) @ ''/api/restart''\<rparr>)) of
             Inl e \<Rightarrow> Some (SourceFailed (''restart the media server: '' @ e))
           | Inr code \<Rightarrow>
               if 400 \<le> code then Some (SourceFailed (''the media server answered '' @ dec_digits code)) else None))"

definition signal_parent :: "int \<Rightarrow> string option \<Rightarrow> source_error option" where
  "signal_parent parent signal =
     (if parent \<le> 1 then Some Unsupported
      else map_option (\<lambda>e. SourceFailed (''signal the supervising process: '' @ e)) signal)"

definition refresh_credentials :: "app_config \<Rightarrow> int \<Rightarrow> string option \<Rightarrow> source_error option" where
  "refresh_credentials cfg parent signal =
     (if \<not> ac_allow_refresh cfg then Some Unsupported else signal_parent parent signal)"

definition ui_source_of ::
  "url_lib \<Rightarrow> app_config \<Rightarrow> overview \<Rightarrow> runtime \<Rightarrow> (string \<Rightarrow> string + nat) \<Rightarrow> int \<Rightarrow> string option \<Rightarrow> ui_source" where
  "ui_source_of lib cfg ov rt post parent signal =
     \<lparr>us_overview = ov,
      us_restart = (\<lambda>i. if restart_camera i rt = None then Some (SourceFailed ''no such camera'') else None),
      us_restart_media = restart_media lib cfg post,
      us_refresh = refresh_credentials cfg parent signal\<rparr>"

subsection \<open>The web stack\<close>

record web_stack =
  ws_cache :: cache
  ws_media :: handler
  ws_names :: page_names

datatype web_error = TokenFailed token_error | CacheFailed cache_error | MediaFailed string | PageFailed string | ListenFailed string

text \<open>\<open>startWebServer\<close>: the token, the cache, the proxy, the page, the listener.  A failure after the
  cache was made closes it (\<open>True\<close>).  No ingress address: no web server.\<close>

definition start_web_server ::
  "url_lib \<Rightarrow> app_config \<Rightarrow> registry \<Rightarrow> token_error + string \<Rightarrow> string option
     \<Rightarrow> (web_error \<times> bool) + (web_stack \<times> ui_server) option" where
  "start_web_server lib cfg reg token listen =
     (if ac_ingress cfg = [] then Inr None
      else case token of
        Inl e \<Rightarrow> Inl (TokenFailed e, False)
      | Inr tok \<Rightarrow>
     (case new_cache (ul_parse lib) \<lparr>sc_upstream = ac_go2rtc_url cfg, sc_streams = stream_names reg,
             sc_warm = published_streams reg, sc_token = tok, sc_trusted_cidrs = ac_trusted_cidrs cfg,
             sc_fresh_for = 0, sc_stale_for = 0, sc_wait = 0, sc_fetch = 0\<rparr> of
        Inl e \<Rightarrow> Inl (CacheFailed e, False)
      | Inr cache \<Rightarrow>
     (case new_handler (ul_parse lib) \<lparr>ic_upstream = ac_go2rtc_url cfg, ic_streams = stream_names reg,
             ic_trusted_cidrs = ac_trusted_cidrs cfg, ic_require_user = None\<rparr> of
        Inl e \<Rightarrow> Inl (MediaFailed e, True)
      | Inr media \<Rightarrow>
     (case new_ui_server True (ac_trusted_cidrs cfg) True True (ac_language cfg) of
        Inl e \<Rightarrow> Inl (PageFailed e, True)
      | Inr ui \<Rightarrow>
     (case listen of
        Some e \<Rightarrow> Inl (ListenFailed e, True)
      | None \<Rightarrow> Inr (Some (\<lparr>ws_cache = cache, ws_media = media, ws_names = set_registry lib cfg reg\<rparr>, ui)))))))"

definition web_reload :: "url_lib \<Rightarrow> app_config \<Rightarrow> registry \<Rightarrow> web_stack \<Rightarrow> web_stack \<times> cache_error option" where
  "web_reload lib cfg reg w =
     (let names = stream_names reg; media = set_streams names (ws_media w);
          page = set_registry lib cfg reg in
      case replace_streams names (published_streams reg) (ws_cache w) of
        Inl e \<Rightarrow> (w\<lparr>ws_media := media, ws_names := page\<rparr>, Some e)
      | Inr cache \<Rightarrow> (\<lparr>ws_cache = cache, ws_media = media, ws_names = page\<rparr>, None))"

subsection \<open>Keeping in step\<close>

text \<open>One SIGHUP: what it does to the process, the operations on the MQTT service, the cameras handed
  to the control supervisor (\<open>None\<close>: not called) and the error category it leaves.\<close>

record process =
  pr_runtime :: runtime
  pr_web :: "web_stack option"
  pr_publisher :: publisher

record reload_effect =
  re_mqtt :: "mqtt_op list"
  re_control :: "dc_camera list option"
  re_errors :: "error_category list"

definition reload_process ::
  "unicode \<Rightarrow> url_lib \<Rightarrow> (camera \<Rightarrow> string option) \<Rightarrow> app_config \<Rightarrow> load_error + credential_set
     \<Rightarrow> process \<Rightarrow> process \<times> reload_effect" where
  "reload_process u lib start cfg creds p =
     (let kept = (p, \<lparr>re_mqtt = [], re_control = None, re_errors = [ErrorConfiguration]\<rparr>) in
      case creds of
        Inl e \<Rightarrow> kept
      | Inr cs \<Rightarrow>
     (case build_from u cfg cs of
        Inl e \<Rightarrow> kept
      | Inr reg \<Rightarrow>
          (let (rt, acts, err) = reload start reg (pr_runtime p);
               web = map_option (fst \<circ> web_reload lib cfg reg) (pr_web p);
               (ops, failures, pub) = publish_registry lib cfg reg (pr_publisher p)
           in (\<lparr>pr_runtime = rt, pr_web = web, pr_publisher = pub\<rparr>,
               \<lparr>re_mqtt = ops, re_control = Some (temperature_cameras reg),
                re_errors = (if err = None then [] else [ErrorNetwork])
                  @ (if failures = [] then [] else replicate (length failures) ErrorConfiguration @ [ErrorBroker])\<rparr>))))"

text \<open>One tick of \<open>mirrorStateToMQTT\<close>, and one of \<open>publishCameraFrames\<close>: \<open>frame\<close> is what the cache
  gives for a stream.\<close>

definition mirror_tick :: "snapshot \<Rightarrow> runtime \<Rightarrow> mqtt_op list" where
  "mirror_tick sn rt =
     Status \<lparr>ms_sessions = sn_active_sessions sn, ms_reconnects = nat (sn_reconnects sn)\<rparr>
     # map (\<lambda>(i, up). CameraUp i up) (camera_availability rt)"

definition frame_tick :: "page_names \<Rightarrow> (string \<Rightarrow> still_error + string) \<Rightarrow> mqtt_op list" where
  "frame_tick n frame =
     concat (map (\<lambda>(i, stream). case frame stream of Inl e \<Rightarrow> [] | Inr img \<Rightarrow> [Frame i img]) (pn_frames n))"

text \<open>\<open>monitorGo2RTC\<close>: one check, by the error or the status of the request.\<close>

definition go2rtc_check :: "string + nat \<Rightarrow> health_state \<Rightarrow> health_state" where
  "go2rtc_check answer s =
     set_go2rtc True (case answer of Inl e \<Rightarrow> False | Inr code \<Rightarrow> 200 \<le> code \<and> code < 400) s"

text \<open>The three loops: the check of the media server, which ends by calling it not ready; the mirror of
  the state; the stills, of which the first are published at once.  A tick finds the state, or the
  names, as they are by then.\<close>

definition monitor_go2rtc :: "(string + nat) list \<Rightarrow> health_state \<Rightarrow> health_state" where
  "monitor_go2rtc answers s = set_go2rtc True False (fold go2rtc_check answers s)"

definition mirror_state :: "(snapshot \<times> runtime) list \<Rightarrow> mqtt_op list" where
  "mirror_state ticks = concat (map (\<lambda>(sn, rt). mirror_tick sn rt) ticks)"

definition publish_camera_frames :: "(page_names \<times> (string \<Rightarrow> still_error + string)) list \<Rightarrow> mqtt_op list" where
  "publish_camera_frames ticks = concat (map (\<lambda>(n, frame). frame_tick n frame) ticks)"

text \<open>\<open>startHTTPServer\<close>: the port is bound before it returns.\<close>

definition start_http_server :: "string \<Rightarrow> string \<Rightarrow> string option \<Rightarrow> string + unit" where
  "start_http_server name addr listen =
     (case listen of Some e \<Rightarrow> Inl (''listen for the '' @ name @ '' on '' @ addr @ '': '' @ e) | None \<Rightarrow> Inr ())"

subsection \<open>Starting\<close>

datatype start_error =
    StartLoad load_error
  | StartBuild build_error
  | StartNoCameras
  | StartStatus string
  | StartWeb web_error

definition initial_health :: "int \<Rightarrow> app_config \<Rightarrow> health_state" where
  "initial_health now cfg =
     set_mqtt (mq_host (ac_mqtt cfg) \<noteq> []) False
       (set_go2rtc (ac_go2rtc_required cfg) (\<not> ac_go2rtc_required cfg)
         (set_credentials_ready True (set_live True (new_state now))))"

text \<open>\<open>run\<close> up to the loops: what it refuses to start with; then the registry, the health state, the
  web server, the first operations on the MQTT service and the publisher, which carries the cache's
  token.  \<open>mqtt_start\<close> is what starting the service gives.\<close>

definition start_process ::
  "unicode \<Rightarrow> url_lib \<Rightarrow> app_config \<Rightarrow> load_error + credential_set \<Rightarrow> int \<Rightarrow> string option
     \<Rightarrow> token_error + string \<Rightarrow> string option \<Rightarrow> string option
     \<Rightarrow> start_error + (registry \<times> health_state \<times> (web_stack \<times> ui_server) option \<times> mqtt_op list \<times> publisher)" where
  "start_process u lib cfg creds now status_listen token web_listen mqtt_start =
     (case creds of
        Inl e \<Rightarrow> Inl (StartLoad e)
      | Inr cs \<Rightarrow>
     (case build_from u cfg cs of
        Inl e \<Rightarrow> Inl (StartBuild e)
      | Inr reg \<Rightarrow>
        if rg_cameras reg = [] then Inl StartNoCameras
        else case (if ac_status cfg = [] then Inr () else start_http_server ''health endpoint'' (ac_status cfg) status_listen) of
          Inl e \<Rightarrow> Inl (StartStatus e)
        | Inr _ \<Rightarrow>
     (case start_web_server lib cfg reg token web_listen of
        Inl failed \<Rightarrow> Inl (StartWeb (fst failed))
      | Inr web \<Rightarrow>
          (let wanted = wants_discovery cfg (cm_credentials (hd (rg_cameras reg)));
               h = initial_health now cfg;
               (ops, failures, pub) = publish_registry lib cfg reg
                 \<lparr>pb_active = (wanted \<and> mqtt_start = None), pb_published = [],
                  pb_token = cache_token (map_option (ws_cache \<circ> fst) web)\<rparr>
           in Inr (reg,
                   if wanted \<and> mqtt_start \<noteq> None then set_last_error ErrorBroker h
                   else if failures \<noteq> [] then set_last_error ErrorConfiguration h else h,
                   web, ops, pub)))))"

text \<open>\<open>main\<close>: the exit status.  \<open>loaded\<close> is what loading the configuration gives, \<open>run\<close> what running it
  ends with.\<close>

definition bridge_main :: "string list \<Rightarrow> config_error + app_config \<Rightarrow> (app_config \<Rightarrow> string option) \<Rightarrow> int" where
  "bridge_main arguments loaded run =
     (if list_ex (\<lambda>a. a = ''-version'' \<or> a = ''--version'') arguments then 0
      else case loaded of
        Inl e \<Rightarrow> 2
      | Inr cfg \<Rightarrow> (if run cfg = None then 0 else 1))"

subsection \<open>The temperature store is a sink\<close>

definition store_view :: "temperature_store \<Rightarrow> string \<Rightarrow> int option \<times> bool option" where
  "store_view t i = (store_reading t i, map_of (ts_supported t) i)"

fun store_change :: "report \<Rightarrow> int option \<times> bool option \<Rightarrow> int option \<times> bool option" where
  "store_change (Supported b) (c, y) = (if b then c else None, Some b)"
| "store_change (Available b) (c, y) = (if b then c else None, y)"
| "store_change (Reading t) (c, y) = (Some t, y)"

lemma store_view_update:
  "store_view (store_update i r t) j = (if j = i then store_change r (store_view t i) else store_view t j)"
  by (cases r) (simp_all add: store_view_def store_reading_def AList.update_conv' AList.delete_conv')

interpretation store_sink: report_sink store_update store_view store_change
  by unfold_locales (rule store_view_update)

lemma store_keys:
  "distinct (map fst (ts_supported t)) \<and> distinct (map fst (ts_celsius t)) \<Longrightarrow>
     distinct (map fst (ts_supported (store_update i r t))) \<and> distinct (map fst (ts_celsius (store_update i r t)))"
  by (cases r) (simp_all add: AList.distinct_update AList.distinct_delete)

lemma replay_of:
  "distinct (map fst al) \<Longrightarrow>
     map snd (filter (\<lambda>e. fst e = i) (map (\<lambda>(k, v). (k, f v)) al)) = (case map_of al i of None \<Rightarrow> [] | Some v \<Rightarrow> [f v])"
proof (induction al)
  case (Cons e al)
  have "map snd (filter (\<lambda>e. fst e = i) (map (\<lambda>(k, v). (k, f v)) al)) = []" if "i \<notin> fst ` set al"
    using that by (induction al) auto
  with Cons show ?case by (cases e) (auto split: option.splits)
qed simp

text \<open>A sink attached late catches up.  After the replay the MQTT service knows of every
  registered camera the capability the store had learnt, and calls its control link available
  exactly when the store has a reading in range; a camera the store knows nothing of is left alone.\<close>

theorem late_sink_catches_up:
  assumes "distinct (map fst (ts_supported t))" and "distinct (map fst (ts_celsius t))"
    and "set_sink t = (t', sent)" and "s' = fold (\<lambda>(i, r). take_report u i r) sent s"
    and "map_of (mqs_cameras s) i \<noteq> None" and "mqs_temp_supported s i = None" and "mqs_temp_available s i = None"
  shows "ts_sink t' \<and> mqs_temp_supported s' i = map_of (ts_supported t) i
    \<and> mqs_temp_available s' i
        = (case store_reading t i of None \<Rightarrow> None | Some c \<Rightarrow> if 0 < c \<and> c < 500 then Some True else None)"
proof -
  have sent: "sent = map (\<lambda>(i, b). (i, Supported b)) (ts_supported t) @ map (\<lambda>(i, c). (i, Reading c)) (ts_celsius t)"
    and sink: "ts_sink t'" using assms(3) by (auto simp: set_sink_def)
  have "temperature_view s' i = fold temperature_change
      ((case map_of (ts_supported t) i of None \<Rightarrow> [] | Some b \<Rightarrow> [Supported b])
        @ (case store_reading t i of None \<Rightarrow> [] | Some c \<Rightarrow> [Reading c])) (temperature_view s i)"
    unfolding assms(4) discovery_sink.view_run sent filter_append map_append
    by (simp only: replay_of [OF assms(1)] replay_of [OF assms(2)] store_reading_def)
  moreover have "temperature_view s i = (True, None, None)"
    using assms(5-7) by (auto simp: temperature_view_def)
  ultimately show ?thesis
    using sink by (cases "map_of (ts_supported t) i"; cases "store_reading t i")
      (auto simp: temperature_view_def)
qed

subsection \<open>A reload reaches the whole web stack\<close>

lemma indexed_cameras: "map snd (indexed reg) = rg_cameras reg"
  by (simp add: indexed_def)

lemma in_indexed: "(i, c) \<in> set (indexed reg) \<Longrightarrow> c \<in> set (rg_cameras reg)"
  by (auto simp: indexed_def dest: set_zip_rightD)

lemma published_in_names:
  "(i, c) \<in> set (indexed reg) \<Longrightarrow>
     published_stream_name reg c i \<in> set (stream_names reg)
     \<and> published_stream_name reg c i @ mjpeg_suffix \<in> set (stream_names reg)"
  by (auto simp: published_stream_name_def stream_names_def dest: in_indexed)

lemma warm_list_ok: "set ns \<subseteq> streams \<Longrightarrow> warm_list streams ns = Inr ns"
  by (induction ns) auto

lemma fold_update_values:
  "map_of (fold (\<lambda>x. AList.update (key x) (val x)) xs al) k = Some v \<Longrightarrow>
     map_of al k = Some v \<or> v \<in> val ` set xs"
proof (induction xs arbitrary: al)
  case (Cons x xs)
  from Cons.IH [of "AList.update (key x) (val x) al"] Cons.prems show ?case
    by (cases "k = key x") (auto simp: AList.update_conv')
qed simp

lemma fold_update_other:
  "k \<notin> key ` set xs \<Longrightarrow> map_of (fold (\<lambda>x. AList.update (key x) (val x)) xs al) k = map_of al k"
  by (induction xs arbitrary: al) (auto simp: AList.update_conv')

lemma fold_update_last:
  "distinct (map key xs) \<Longrightarrow> x \<in> set xs \<Longrightarrow>
     map_of (fold (\<lambda>x. AList.update (key x) (val x)) xs al) (key x) = Some (val x)"
proof (induction xs arbitrary: al)
  case (Cons y xs)
  then show ?case by (auto simp: AList.update_conv' fold_update_other)
qed simp

lemma fold_update_keys:
  "k \<in> key ` set xs \<or> map_of al k \<noteq> None \<Longrightarrow>
     map_of (fold (\<lambda>x. AList.update (key x) (val x)) xs al) k \<noteq> None"
proof (induction xs arbitrary: al)
  case (Cons x xs)
  then have "k \<in> key ` set xs \<or> map_of (AList.update (key x) (val x) al) k \<noteq> None"
    by (cases "k = key x") (auto simp: AList.update_conv')
  from Cons.IH [OF this] show ?case by simp
qed simp

text \<open>The stream names of the page, on their own.\<close>

lemma page_streams:
  "pn_streams (set_registry lib cfg reg)
     = fold (\<lambda>x. AList.update (camera_key (snd x)) (published_stream_name reg (snd x) (fst x))) (indexed reg) []"
proof -
  define step :: "nat \<times> camera \<Rightarrow> page_names \<Rightarrow> page_names" where "step = (\<lambda>(i, c) n.
         let published = published_stream_name reg c i; key = camera_key c in
         \<lparr>pn_streams = AList.update key published (pn_streams n),
          pn_urls = (case discovery_stream_url lib (ac_stream_url cfg) (cm_stream_name c) (i = 0) of
              None \<Rightarrow> pn_urls n | Some url \<Rightarrow> AList.update key url (pn_urls n)),
          pn_frames = (if cr_udid (cm_credentials c) = [] then pn_frames n
              else AList.update (cr_udid (cm_credentials c)) published (pn_frames n))\<rparr>)"
  have "pn_streams (fold step xs n0)
      = fold (\<lambda>x. AList.update (camera_key (snd x)) (published_stream_name reg (snd x) (fst x))) xs (pn_streams n0)"
    for xs n0
    by (induction xs arbitrary: n0) (auto simp: step_def Let_def)
  then show ?thesis by (simp add: set_registry_def step_def)
qed

lemma page_names_hold:
  assumes "n = set_registry lib cfg reg"
  shows "map_of (pn_streams n) k = Some s \<Longrightarrow> \<exists>(i, c) \<in> set (indexed reg). s = published_stream_name reg c i"
    and "c \<in> set (rg_cameras reg) \<Longrightarrow> map_of (pn_streams n) (camera_key c) \<noteq> None"
proof -
  assume "map_of (pn_streams n) k = Some s"
  from fold_update_values [OF this [unfolded assms page_streams]]
  show "\<exists>(i, c) \<in> set (indexed reg). s = published_stream_name reg c i" by auto
next
  assume "c \<in> set (rg_cameras reg)"
  then have "c \<in> snd ` set (indexed reg)" using indexed_cameras [of reg] by (metis list.set_map)
  then have "camera_key c \<in> (\<lambda>x. camera_key (snd x)) ` set (indexed reg)" by auto
  then show "map_of (pn_streams n) (camera_key c) \<noteq> None"
    unfolding assms page_streams by (intro fold_update_keys) simp
qed


subsection \<open>Home Assistant follows the registry\<close>

lemma run_mqtt_simps [simp]:
  "run_mqtt u parse [] sb = sb" "run_mqtt u parse (op # ops) sb = run_mqtt u parse ops (do_op u parse op sb)"
  "run_mqtt u parse (xs @ ys) sb = run_mqtt u parse ys (run_mqtt u parse xs sb)"
  by (simp_all add: run_mqtt_def)

text \<open>Whether a registration is refused depends on the camera alone.\<close>

lemma upsert_refusal: "is_Inr (upsert_camera parse c s) = is_Inr (upsert_camera parse c s')"
  by (simp add: upsert_camera_def Let_def when_connected_def)

lemma upsert_cameras:
  assumes "is_Inr (upsert_camera parse c (fst sb))"
  shows "mqs_cameras (fst (do_op u parse (Upsert c) sb)) = AList.update (mq_id c) c (mqs_cameras (fst sb))"
proof -
  define bad where "bad \<longleftrightarrow> mq_stream_url c \<noteq> [] \<and> (case parse (mq_stream_url c) of None \<Rightarrow> True
      | Some p \<Rightarrow> url_scheme p \<noteq> ''rtsp'' \<or> url_host p = [])"
  define worse where "worse \<longleftrightarrow> mq_snapshot_url c \<noteq> [] \<and> \<not> absolute_http (parse (mq_snapshot_url c))"
  note e = upsert_camera_def [of parse c "fst sb", folded bad_def worse_def]
  show ?thesis using assms by (auto simp: do_op_def e when_connected_def Let_def split: if_splits)
qed

lemma remove_cameras:
  "mqs_cameras (fst (do_op u parse (Remove i) sb)) = AList.delete i (mqs_cameras (fst sb))"
  by (simp add: do_op_def remove_camera_def when_connected_def Let_def)

lemma run_upserts:
  "list_all (\<lambda>c. is_Inr (upsert_camera parse c s0)) cams \<Longrightarrow>
     mqs_cameras (fst (run_mqtt u parse (map Upsert cams) sb))
       = fold (\<lambda>c. AList.update (mq_id c) c) cams (mqs_cameras (fst sb))"
proof (induction cams arbitrary: sb)
  case (Cons c cams)
  then have "is_Inr (upsert_camera parse c (fst sb))" using upsert_refusal by fastforce
  from upsert_cameras [OF this, of u] Cons show ?case by simp
qed simp

lemma run_removes:
  "map_of (mqs_cameras (fst (run_mqtt u parse (map Remove ids) sb))) i
     = (if i \<in> set ids then None else map_of (mqs_cameras (fst sb)) i)"
proof (induction ids arbitrary: sb)
  case (Cons k ids)
  show ?case using Cons.IH [of "do_op u parse (Remove k) sb"]
    by (auto simp: remove_cameras AList.delete_conv' simp del: do_op_def)
qed simp

lemma publish_upserts_all:
  assumes "ul_parse lib (ac_stream_url cfg) \<noteq> None"
  shows "map mq_id (publish_upserts lib cfg reg token) = map (cr_udid \<circ> cm_credentials) (rg_cameras reg)"
    and "publish_failures lib cfg reg = []"
proof -
  have "map mq_id (concat (map (\<lambda>(i, c). case discovery_stream_url lib (ac_stream_url cfg) (cm_stream_name c) (i = 0) of
         None \<Rightarrow> [] | Some url \<Rightarrow> [discovery_camera lib cfg reg token i c url]) xs))
       = map (cr_udid \<circ> cm_credentials \<circ> snd) xs" for xs :: "(nat \<times> camera) list"
    using assms by (induction xs) (auto simp: discovery_stream_url_def discovery_camera_def Let_def)
  then have "map mq_id (publish_upserts lib cfg reg token) = map (cr_udid \<circ> cm_credentials) (map snd (indexed reg))"
    by (simp add: publish_upserts_def comp_assoc)
  then show "map mq_id (publish_upserts lib cfg reg token) = map (cr_udid \<circ> cm_credentials) (rg_cameras reg)"
    by (simp only: indexed_cameras)
  show "publish_failures lib cfg reg = []"
    using assms by (auto simp: publish_failures_def discovery_stream_url_def filter_empty_conv)
qed

text \<open>C11: publishing a registry brings the MQTT service in line with it.  If the publisher's list
  covered what the service had registered, then afterwards the service has registered exactly the
  cameras of the registry, each as the registry describes it, the publisher's list is exactly
  theirs, and no camera that left is missed; so the next publish starts from the same situation.\<close>

theorem publish_tracks_registry:
  assumes "pb_active p" and "ul_parse lib (ac_stream_url cfg) \<noteq> None"
    and "list_all (\<lambda>c. is_Inr (upsert_camera parse c s)) (publish_upserts lib cfg reg (pb_token p))"
    and "fst ` set (mqs_cameras s) \<subseteq> set (pb_published p)"
    and "distinct (map (cr_udid \<circ> cm_credentials) (rg_cameras reg))"
    and "publish_registry lib cfg reg p = (ops, failures, p')"
    and "run_mqtt u parse ops (s, b) = (s', b')"
  shows "failures = [] \<and> fst ` set (mqs_cameras s') = set (pb_published p')
    \<and> set (pb_published p') = (cr_udid \<circ> cm_credentials) ` set (rg_cameras reg)
    \<and> (\<forall>c \<in> set (publish_upserts lib cfg reg (pb_token p)). map_of (mqs_cameras s') (mq_id c) = Some c)"
proof -
  let ?cams = "publish_upserts lib cfg reg (pb_token p)"
  note all = publish_upserts_all [OF assms(2), of reg]
  define gone where "gone = filter (\<lambda>i. i \<notin> set (remdups (map mq_id ?cams))) (pb_published p)"
  have r: "ops = map Upsert ?cams @ map Remove gone" "failures = []" "pb_published p' = remdups (map mq_id ?cams)"
    using assms(1,6) all(2) by (auto simp: publish_registry_def gone_def Let_def)
  have dist: "distinct (map mq_id ?cams)" unfolding all(1) by (rule assms(5))
  define al where "al = fold (\<lambda>c. AList.update (mq_id c) c) ?cams (mqs_cameras s)"
  have up: "mqs_cameras (fst (run_mqtt u parse (map Upsert ?cams) (s, b))) = al"
    using run_upserts [OF assms(3), of u "(s, b)"] by (simp add: al_def)
  have look: "map_of (mqs_cameras s') i = (if i \<in> set gone then None else map_of al i)" for i
    using run_removes [of u parse gone "run_mqtt u parse (map Upsert ?cams) (s, b)" i] assms(7) r(1) up by simp
  have here: "map_of (mqs_cameras s') (mq_id c) = Some c" if "c \<in> set ?cams" for c
    using look [of "mq_id c"] fold_update_last [OF dist that] that by (simp add: al_def gone_def)
  have "i \<in> mq_id ` set ?cams" if i: "map_of (mqs_cameras s') i = Some c" for i c
  proof (rule ccontr)
    assume no: "i \<notin> mq_id ` set ?cams"
    from i look [of i] have "map_of al i = Some c" "i \<notin> set gone" by (auto split: if_splits)
    from fold_update_values [of mq_id "\<lambda>c. c" ?cams "mqs_cameras s" i c] this(1) no
    have "map_of (mqs_cameras s) i = Some c \<or> c \<in> set ?cams" by (simp add: al_def)
    moreover have "map_of (mqs_cameras s) i = None"
      using assms(4) \<open>i \<notin> set gone\<close> no by (auto simp: gone_def map_of_eq_None_iff)
    moreover have "map_of al i = map_of (mqs_cameras s) i"
      using no unfolding al_def by (rule fold_update_other)
    ultimately show False using \<open>map_of al i = Some c\<close> by simp
  qed
  then have "fst ` set (mqs_cameras s') = mq_id ` set ?cams"
    using here unfolding dom_map_of_conv_image_fst [symmetric] by blast
  moreover have "mq_id ` set ?cams = (cr_udid \<circ> cm_credentials) ` set (rg_cameras reg)"
    using arg_cong [OF all(1), of set] by simp
  ultimately show ?thesis using r(2,3) here by simp
qed

subsection \<open>Instances\<close>

definition sample_lib :: url_lib where
  "sample_lib = \<lparr>ul_parse = (\<lambda>s. if s = [] then None else Some \<lparr>url_scheme = take 4 s, url_host = drop 7 s, url_path = []\<rparr>),
     ul_show = (\<lambda>s p. url_scheme p @ ''://'' @ url_host p @ url_path p),
     ul_show_query = (\<lambda>p q. url_scheme p @ ''://'' @ url_host p @ url_path p @ ''?'' @ q)\<rparr>"

definition sample_app :: app_config where
  "sample_app = (fl_config default_flags)\<lparr>ac_stream_url := ''rtsp://hass:8555'', ac_registry := ''/data/cameras.json''\<rparr>"

definition sample_publisher :: publisher where
  "sample_publisher = \<lparr>pb_active = True, pb_published = [''U9''], pb_token = ''t''\<rparr>"

definition sample_before :: mqtt_service where
  "sample_before = (lone_service sample_mqtt)\<lparr>mqs_cameras := [(''U9'', lone_camera\<lparr>mq_id := ''U9''\<rparr>)]\<rparr>"

theorem late_sink_catches_up_witness:
  "mqs_temp_supported (fold (\<lambda>(i, r). take_report sample_unicode i r)
       (snd (set_sink \<lparr>ts_celsius = [(''U1'', 215)], ts_supported = [(''U1'', True)], ts_sink = False\<rparr>))
       (lone_service sample_mqtt)) ''U1'' = Some True"
proof -
  let ?t = "\<lparr>ts_celsius = [(''U1'', 215)], ts_supported = [(''U1'', True)], ts_sink = False\<rparr>"
  have "distinct (map fst (ts_supported ?t))" "distinct (map fst (ts_celsius ?t))"
    "map_of (mqs_cameras (lone_service sample_mqtt)) ''U1'' \<noteq> None"
    "mqs_temp_supported (lone_service sample_mqtt) ''U1'' = None"
    "mqs_temp_available (lone_service sample_mqtt) ''U1'' = None"
    by (simp_all add: lone_service_def new_service_def Let_def)
  from late_sink_catches_up [OF this(1,2) prod.collapse [symmetric] refl this(3-5), of sample_unicode]
  show ?thesis by simp
qed

definition sample_stack :: web_stack where
  "sample_stack = \<lparr>ws_cache = \<lparr>ca_config = \<lparr>sc_upstream = [], sc_streams = [], sc_warm = [], sc_token = [],
       sc_trusted_cidrs = None, sc_fresh_for = 0, sc_stale_for = 0, sc_wait = 0, sc_fetch = 0\<rparr>,
     ca_guard = [], ca_streams = {}, ca_warm = [], ca_entries = (\<lambda>_. None), ca_heap = [],
     ca_fetches = [], ca_chans = 0, ca_closed = {}\<rparr>,
     ws_media = \<lparr>h_guard = [], h_require_user = True, h_streams = {}\<rparr>,
     ws_names = \<lparr>pn_streams = [], pn_urls = [], pn_frames = []\<rparr>\<rparr>"


theorem publish_tracks_registry_witness:
  "fst ` set (mqs_cameras (fst (run_mqtt sample_unicode (ul_parse sample_lib)
      (fst (publish_registry sample_lib sample_app sample_registry sample_publisher)) (sample_before, \<lambda>_. None))))
   = {''U1'', ''U2''}"
proof -
  have 1: "pb_active sample_publisher" "ul_parse sample_lib (ac_stream_url sample_app) \<noteq> None"
    by (simp_all add: sample_publisher_def sample_lib_def sample_app_def)
  have 2: "list_all (\<lambda>c. is_Inr (upsert_camera (ul_parse sample_lib) c sample_before))
      (publish_upserts sample_lib sample_app sample_registry (pb_token sample_publisher))" by code_simp
  have 3: "fst ` set (mqs_cameras sample_before) \<subseteq> set (pb_published sample_publisher)"
    by (simp add: sample_before_def sample_publisher_def)
  have 4: "distinct (map (cr_udid \<circ> cm_credentials) (rg_cameras sample_registry))"
    "(cr_udid \<circ> cm_credentials) ` set (rg_cameras sample_registry) = {''U1'', ''U2''}" by code_simp+
  obtain ops failures p' where r: "publish_registry sample_lib sample_app sample_registry sample_publisher
      = (ops, failures, p')" by (metis prod_cases3)
  from publish_tracks_registry [OF 1 2 3 4(1) r prod.collapse [symmetric], of sample_unicode "\<lambda>_. None"]
  show ?thesis using 4(2) by (simp add: r)
qed

end
