(* ===== verification/Setup_Process.thy ===== *)
theory Setup_Process
  imports Bridge_Process
begin

text \<open>
  \<open>cmd/vm65-setup/main.go\<close>: the setup process.  It restores the account, serving the pairing page
  first when the account is not paired, gives every camera a name and a listen address, and writes
  three files: the registry the bridge reads, the credentials of the first camera, and the
  configuration of go2rtc.

  What the files do is a list of file-system acts (\<open>Account_Store\<close>), so a run that is stopped is a
  prefix of it.  Parameters: the JSON texts, the faults of the file system, the port probe, the
  answers of ffmpeg, and what the account service says.
\<close>

subsection \<open>The build's version (internal/buildinfo)\<close>

record build_info =
  bi_version :: string
  bi_settings :: "(string \<times> string) list"

text \<open>The loop over the settings: the last of equal keys wins.\<close>

fun vcs_settings :: "(string \<times> string) list \<Rightarrow> string \<times> string \<Rightarrow> string \<times> string" where
  "vcs_settings [] (revision, modified) = (revision, modified)"
| "vcs_settings ((k, v) # rest) (revision, modified) =
     vcs_settings rest
       (if k = ''vcs.revision'' then (v, modified)
        else if k = ''vcs.modified'' then (revision, v) else (revision, modified))"

definition build_version :: "string \<Rightarrow> build_info option \<Rightarrow> string" where
  "build_version stamped info =
     (if stamped \<noteq> [] then stamped
      else case info of
        None \<Rightarrow> ''unknown''
      | Some bi \<Rightarrow>
          (let version = trim_space (bi_version bi); (revision, modified) = vcs_settings (bi_settings bi) ([], [])
           in if version \<noteq> [] \<and> version \<noteq> ''(devel)'' then version
              else if revision = [] then ''devel''
              else if modified = ''true'' then ''devel+'' @ take 12 revision @ ''-dirty''
              else ''devel+'' @ take 12 revision))"

lemma build_version_nonempty: "build_version stamped info \<noteq> []"
  by (simp add: build_version_def Let_def split: option.split prod.split)

subsection \<open>Options\<close>

record setup_options =
  so_email :: string
  so_code :: string
  so_state_path :: string
  so_out_path :: string
  so_registry_path :: string
  so_go2rtc_path :: string
  so_go2rtc_webrtc :: bool
  so_overlay_font :: string
  so_webrtc_candidate :: string
  so_relay_host :: string
  so_timeout :: int
  so_pair_ui :: string
  so_status_addr :: string
  so_request_code :: bool
  so_trusted_cidrs :: "string list option"
  so_language :: language

text \<open>The flags' defaults; the code comes from the environment.\<close>

definition default_options :: "string \<Rightarrow> setup_options" where
  "default_options code =
     \<lparr>so_email = [], so_code = code, so_state_path = ''/data/5gencare-session.json'',
      so_out_path = ''/data/creds.json'', so_registry_path = ''/data/cameras.json'', so_go2rtc_path = [],
      so_go2rtc_webrtc = True, so_overlay_font = [], so_webrtc_candidate = [],
      so_relay_host = ''vrelay-de0.5gen.care'', so_timeout = 30 * second, so_pair_ui = [], so_status_addr = [],
      so_request_code = True, so_trusted_cidrs = None, so_language = []\<rparr>"

fun split_networks :: "string list \<Rightarrow> string list" where
  "split_networks [] = []"
| "split_networks (part # parts) =
     (let p = trim_space part in if p \<noteq> [] then p # split_networks parts else split_networks parts)"

definition setup_trusted_cidrs :: "string \<Rightarrow> string list option" where
  "setup_trusted_cidrs v =
     (let value = trim_space v
      in if value = [] then None
         else if equal_fold value ''any'' then Some []
         else Some (split_networks (split_at CHR '','' value)))"

text \<open>\<open>main\<close> after the flags were parsed: the exit status and the options the run gets, if any.\<close>

datatype start_up = Exit int | RunWith setup_options

definition setup_main :: "setup_options \<Rightarrow> string \<Rightarrow> string \<Rightarrow> bool \<Rightarrow> start_up" where
  "setup_main opts trusted lang show_version =
     (let o1 = opts\<lparr>so_trusted_cidrs := setup_trusted_cidrs trusted\<rparr> in
      case parse_option lang of
        None \<Rightarrow> Exit 2
      | Some l \<Rightarrow> if show_version then Exit 0 else RunWith (o1\<lparr>so_language := l\<rparr>))"

definition setup_provider :: "setup_options \<Rightarrow> provider_config" where
  "setup_provider opts =
     \<lparr>pc_email = so_email opts, pc_otp_code = so_code opts, pc_relay_host = so_relay_host opts,
      pc_auto_request = so_request_code opts, pc_has_client = True, pc_has_store = True\<rparr>"

subsection \<open>Errors\<close>

datatype setup_error =
    BadTimeout
  | PairingRequired string
  | LoadCameras provider_error
  | PairingPage string
  | ListenFor string string
  | StoppedUnpaired
  | BuildRegistry build_error
  | EmptyRegistry
  | WriteRegistry write_error
  | WriteLegacy write_error
  | OverlayText string string
  | NoListenAddress string
  | WriteConfig write_error

definition needs_pairing :: "provider_error \<Rightarrow> bool" where
  "needs_pairing e \<longleftrightarrow> (case e of PePairing hint \<Rightarrow> True | _ \<Rightarrow> False)"

definition pairing_error :: "provider_error \<Rightarrow> setup_error" where
  "pairing_error e = (case e of PePairing hint \<Rightarrow> PairingRequired hint | _ \<Rightarrow> LoadCameras e)"

subsection \<open>Waiting for the account to be paired\<close>

text \<open>What the process sees while the page is up: requests to it, with what the outside does during
  each, and the signal to stop.  Not yet decided is \<open>None\<close>.\<close>

datatype pairing_event = PageAsked pairing_script http_request string | StopAsked

definition page_step ::
    "(string \<Rightarrow> rat option) \<Rightarrow> (language \<times> catalog) list \<Rightarrow> (string \<Rightarrow> string \<Rightarrow> string option) \<Rightarrow> pairing_server
      \<Rightarrow> provider_config \<Rightarrow> pairing_script \<Rightarrow> http_request \<Rightarrow> string \<Rightarrow> pairing_world \<Rightarrow> pairing_world \<times> account_call list" where
  "page_step pf catalogs decode_field srv cfg x r b w =
     (case serve_pairing pf catalogs decode_field srv cfg x r b w of
        None \<Rightarrow> (w, []) | Some (_, w', calls) \<Rightarrow> (w', calls))"

fun pairing_wait ::
    "(pairing_script \<Rightarrow> http_request \<Rightarrow> string \<Rightarrow> pairing_world \<Rightarrow> pairing_world \<times> account_call list)
      \<Rightarrow> pairing_event list \<Rightarrow> pairing_world \<Rightarrow> (setup_error + unit) option \<times> pairing_world \<times> account_call list" where
  "pairing_wait step [] w = (if 0 < pw_runs w then Some (Inr ()) else None, w, [])"
| "pairing_wait step (e # es) w =
     (if 0 < pw_runs w then (Some (Inr ()), w, [])
      else case e of
        StopAsked \<Rightarrow> (Some (Inl StoppedUnpaired), w, [])
      | PageAsked x r b \<Rightarrow>
          (let (w', calls) = step x r b w; (res, w'', calls') = pairing_wait step es w'
           in (res, w'', calls @ calls')))"

text \<open>The health state the watchdog sees meanwhile: live, not ready.\<close>

definition pairing_health :: "int \<Rightarrow> health_state" where
  "pairing_health now = set_credentials_ready False (set_live True (new_state now))"

definition listen_for :: "string \<Rightarrow> string option \<Rightarrow> setup_error option" where
  "listen_for name fault = map_option (ListenFor name) fault"

record pairing_outside =
  po_status_listen :: "string option"
  po_page_listen :: "string option"
  po_events :: "pairing_event list"
  po_decode :: "string \<Rightarrow> string \<Rightarrow> string option"
  po_parse_float :: "string \<Rightarrow> rat option"
  po_catalogs :: "(language \<times> catalog) list"

definition pair_first ::
    "setup_options \<Rightarrow> pairing_outside \<Rightarrow> provider \<Rightarrow> (setup_error + unit) option \<times> provider \<times> account_call list" where
  "pair_first opts po p =
     (case new_pairing_server True (so_trusted_cidrs opts) (so_timeout opts) (so_language opts) True of
        Inl e \<Rightarrow> (Some (Inl (PairingPage e)), p, [])
      | Inr srv \<Rightarrow>
     (case (if so_status_addr opts = [] then None else listen_for ''health endpoint'' (po_status_listen po)) of
        Some e \<Rightarrow> (Some (Inl e), p, [])
      | None \<Rightarrow>
     (case listen_for ''pairing page'' (po_page_listen po) of
        Some e \<Rightarrow> (Some (Inl e), p, [])
      | None \<Rightarrow>
          (case pairing_wait (page_step (po_parse_float po) (po_catalogs po) (po_decode po) srv (setup_provider opts))
                  (po_events po) \<lparr>pw_provider = p, pw_once = False, pw_runs = 0\<rparr> of
             (res, w, calls) \<Rightarrow> (res, pw_provider w, calls)))))"

text \<open>One restore is given what the outside does during it.\<close>

record restore_script =
  rs_first :: surroundings
  rs_second :: surroundings
  rs_devices :: "session \<Rightarrow> account_error + device list"

definition restore_cameras ::
    "setup_options \<Rightarrow> restore_script \<Rightarrow> provider \<Rightarrow> camera_credentials list outcome" where
  "restore_cameras opts rs p =
     restore_account (setup_provider opts) (rs_first rs) (rs_second rs) (rs_devices rs) p"

definition load_cameras ::
    "setup_options \<Rightarrow> restore_script \<Rightarrow> pairing_outside \<Rightarrow> restore_script \<Rightarrow> provider
      \<Rightarrow> (setup_error + camera_credentials list) option \<times> provider \<times> account_call list" where
  "load_cameras opts rs1 po rs2 p =
     (case restore_cameras opts rs1 p of
        (Inr cams, q, calls) \<Rightarrow> (Some (Inr cams), q, calls)
      | (Inl e, q, calls) \<Rightarrow>
          if \<not> needs_pairing e \<or> so_pair_ui opts = []
          then (Some (Inl (pairing_error e)), q, calls)
          else (case pair_first opts po q of
              (None, q2, calls2) \<Rightarrow> (None, q2, calls @ calls2)
            | (Some (Inl e2), q2, calls2) \<Rightarrow> (Some (Inl e2), q2, calls @ calls2)
            | (Some (Inr _), q2, calls2) \<Rightarrow>
                (case restore_cameras opts rs2 q2 of
                   (Inr cams, q3, calls3) \<Rightarrow> (Some (Inr cams), q3, calls @ calls2 @ calls3)
                 | (Inl e3, q3, calls3) \<Rightarrow> (Some (Inl (pairing_error e3)), q3, calls @ calls2 @ calls3))))"

subsection \<open>The registry\<close>

record camera_entry =
  ce_credentials :: camera_credentials
  ce_stream_name :: string
  ce_listen_addr :: string

definition bridge_listen_base :: string where
  "bridge_listen_base = ''127.0.0.1:8554''"

text \<open>The part of the credentials the registry is built from.\<close>

definition bridge_view :: "camera_credentials \<Rightarrow> credentials" where
  "bridge_view c =
     \<lparr>cr_device_id = cc_device_id c, cr_sid = [], cr_token = [], cr_udid = cc_udid c, cr_name = cc_name c,
      cr_model = cc_model c, cr_control_host = [], cr_control_port = 0, cr_target_port = 0,
      cr_api_host = [], cr_api_port = 0\<rparr>"

definition no_credentials :: camera_credentials where
  "no_credentials =
     \<lparr>cc_device_id = 0, cc_udid = [], cc_name = [], cc_model = [], cc_sid = [], cc_token = [],
      cc_control_host = [], cc_control_port = 0, cc_target_port = 0, cc_api_host = [], cc_api_port = 0,
      cc_access_token = [], cc_rtsp_user = [], cc_rtsp_pass = []\<rparr>"

definition by_udid :: "camera_credentials list \<Rightarrow> (string \<times> camera_credentials) list" where
  "by_udid cams = fold (\<lambda>c. AList.update (cc_udid c) c) cams []"

definition build_camera_registry ::
    "unicode \<Rightarrow> (string \<Rightarrow> int \<Rightarrow> bool) \<Rightarrow> (string \<times> string) list \<Rightarrow> camera_credentials list
      \<Rightarrow> setup_error + camera_entry list" where
  "build_camera_registry u port_in_use recorded cams =
     (case build_registry u \<lparr>bo_base_address = bridge_listen_base, bo_credentials = map bridge_view cams,
             bo_recorded = recorded, bo_port_in_use = Some port_in_use\<rparr> of
        Inl e \<Rightarrow> Inl (BuildRegistry e)
      | Inr reg \<Rightarrow> Inr (map (\<lambda>c.
          \<lparr>ce_credentials = (case map_of (by_udid cams) (cr_udid (cm_credentials c)) of
               None \<Rightarrow> no_credentials | Some cc \<Rightarrow> cc),
           ce_stream_name = cm_stream_name c, ce_listen_addr = cm_listen_addr c\<rparr>) (rg_cameras reg)))"

text \<open>What an earlier run recorded; a file that cannot be read or decoded records nothing.\<close>

definition recorded_addresses ::
    "(string \<Rightarrow> string + camera_entry list) \<Rightarrow> (string \<Rightarrow> file_read) \<Rightarrow> string \<Rightarrow> (string \<times> string) list" where
  "recorded_addresses json files path =
     (if path = [] then []
      else case files path of
        FileText raw \<Rightarrow>
          (case json raw of
             Inl e \<Rightarrow> []
           | Inr es \<Rightarrow> fold (\<lambda>e al.
               if cc_udid (ce_credentials e) \<noteq> [] \<and> ce_listen_addr e \<noteq> []
               then AList.update (cc_udid (ce_credentials e)) (ce_listen_addr e) al else al) es [])
      | _ \<Rightarrow> [])"

subsection \<open>The overlay\<close>

definition backslash :: char where
  "backslash = CHR 0x5C"

definition double_quote :: char where
  "double_quote = CHR 0x22"

text \<open>\<open>strings.ReplaceAll\<close> for a single byte.\<close>

definition replace_char :: "char \<Rightarrow> string \<Rightarrow> string \<Rightarrow> string" where
  "replace_char c by_text s = concat (map (\<lambda>x. if x = c then by_text else [x]) s)"

definition escape_filter_value :: "string \<Rightarrow> string" where
  "escape_filter_value value =
     replace_char CHR '':'' [backslash, CHR '':'']
       (replace_char backslash [backslash, backslash] (replace_char double_quote [] value))"

text \<open>\<open>filepath.Join(filepath.Dir(path), name)\<close>; cleaning a path never fails (\<open>path_clean\<close> is a
  \<open>partial_function\<close>).\<close>

definition dir_name :: "string \<Rightarrow> string" where
  "dir_name path = the (path_clean (rev (dropWhile (\<lambda>c. c \<noteq> slash) (rev path))))"

definition overlay_text_path :: "string \<Rightarrow> string \<Rightarrow> string" where
  "overlay_text_path config_path stream =
     the (path_clean (dir_name config_path @ ''/'' @ ''overlay-'' @ stream @ ''.txt''))"

definition overlay_name_limit :: nat where
  "overlay_name_limit = 48"

definition overlay_name :: "camera_entry \<Rightarrow> string" where
  "overlay_name e =
     (let trimmed = trim_space (cc_name (ce_credentials e));
          name = (if trimmed = [] then ce_stream_name e else trimmed);
          line = map (\<lambda>c. if c = CHR 0x0D \<or> c = CHR 0x0A then CHR '' '' else c) name;
          rs = runes (map of_char line)
      in if length rs > overlay_name_limit
         then map char_of (concat (map encode_rune (take overlay_name_limit rs))) else line)"

definition overlay_filter :: "string \<Rightarrow> string \<Rightarrow> string" where
  "overlay_filter font_path text_path =
     (let style = '':fontsize=h/22:fontcolor=white:shadowcolor=black:shadowx=2:shadowy=2'';
          font = ''fontfile='' @ escape_filter_value font_path;
          b3 = [backslash, backslash, backslash];
          clock = ''drawtext='' @ font @ '':text='' @ [CHR 0x27] @ ''%{localtime'' @ [backslash] @ '':%d/%m/%Y %H''
            @ b3 @ '':%M'' @ b3 @ '':%S}'' @ [CHR 0x27] @ style @ '':x=12:y=10'';
          name = ''drawtext='' @ font @ '':textfile='' @ escape_filter_value text_path @ '':expansion=none''
            @ style @ '':x=w-tw-12:y=h-th-10''
      in clock @ '','' @ name)"

definition ffmpeg_arguments :: "string \<Rightarrow> string list" where
  "ffmpeg_arguments flt =
     [''-hide_banner'', ''-loglevel'', ''error'', ''-f'', ''lavfi'', ''-i'', ''color=c=black:s=320x180:d=1'',
      ''-vf'', flt, ''-frames:v'', ''1'', ''-f'', ''null'', ''-'']"

text \<open>\<open>run\<close> is ffmpeg: the error it ends with, if any, and what it wrote.\<close>

definition ffmpeg_can_render :: "(string list \<Rightarrow> string option \<times> string) \<Rightarrow> string \<Rightarrow> string option" where
  "ffmpeg_can_render run flt =
     (let (err, output) = run (ffmpeg_arguments flt); complaint = trim_space output
      in case err of
           Some e \<Rightarrow> Some (if complaint \<noteq> [] then e @ '': '' @ complaint else e)
         | None \<Rightarrow> if complaint \<noteq> [] then Some complaint else None)"

text \<open>\<open>os.WriteFile\<close> is not atomic: it truncates, writes and closes.\<close>

datatype plain_write = PlainOk | PlainOpen string | PlainWrite nat string

definition write_file :: "plain_write \<Rightarrow> string \<Rightarrow> string \<Rightarrow> string option \<times> fs_act list" where
  "write_file fault path t =
     (case fault of
        PlainOpen e \<Rightarrow> (Some e, [])
      | PlainWrite n e \<Rightarrow> (Some e, [FsCreate path, FsWrite path (take n t), FsClose path])
      | PlainOk \<Rightarrow> (None, [FsCreate path, FsWrite path t, FsClose path]))"

record go2rtc_options =
  go_webrtc :: bool
  go_candidate :: string
  go_font :: string
  go_font_readable :: bool
  go_verify :: "string \<Rightarrow> string option"
  go_text_fault :: "string \<Rightarrow> plain_write"

text \<open>All or nothing: the filters so far, or none when ffmpeg refuses one of them.\<close>

fun overlay_loop ::
    "go2rtc_options \<Rightarrow> string \<Rightarrow> camera_entry list \<Rightarrow> (string \<times> string) list
      \<Rightarrow> (setup_error + (string \<times> string) list) \<times> fs_act list" where
  "overlay_loop opts path [] filters = (Inr filters, [])"
| "overlay_loop opts path (e # es) filters =
     (let text_path = overlay_text_path path (ce_stream_name e);
          (err, acts) = write_file (go_text_fault opts text_path) text_path (overlay_name e);
          flt = overlay_filter (go_font opts) text_path
      in case err of
           Some f \<Rightarrow> (Inl (OverlayText (ce_stream_name e) f), acts)
         | None \<Rightarrow>
             if go_verify opts flt \<noteq> None then (Inr [], acts)
             else (case overlay_loop opts path es (AList.update (ce_stream_name e) flt filters) of
                 (res, acts') \<Rightarrow> (res, acts @ acts')))"

definition build_overlays ::
    "go2rtc_options \<Rightarrow> string \<Rightarrow> camera_entry list \<Rightarrow> (setup_error + (string \<times> string) list) \<times> fs_act list" where
  "build_overlays opts path es =
     (if go_font opts = [] \<or> \<not> go_font_readable opts then (Inr [], []) else overlay_loop opts path es [])"

subsection \<open>The configuration of go2rtc\<close>

record go2rtc_config =
  gc_streams :: "(string \<times> string list) list"
  gc_api :: string
  gc_rtsp :: string
  gc_webrtc :: string
  gc_candidates :: "string list"
  gc_level :: string

definition source_suffix :: string where
  "source_suffix = ''-source''"

definition legacy_name :: string where
  "legacy_name = ''vm65''"

text \<open>\<open>url.UserPassword(...).String()\<close>: the user information of a URL.\<close>

definition escape_user :: "string \<Rightarrow> string" where
  "escape_user s = concat (map (\<lambda>c.
     if unreserved c \<or> c \<in> set ''$&+,;='' then [c]
     else [CHR ''%'', upper_hex (ord c div 16), upper_hex (ord c mod 16)]) s)"

definition user_password :: "string \<Rightarrow> string \<Rightarrow> string" where
  "user_password user pass = escape_user user @ '':'' @ escape_user pass"

definition camera_source :: "camera_entry \<Rightarrow> string" where
  "camera_source e =
     (let c = ce_credentials e
      in ''rtsp://'' @ user_password (cc_rtsp_user c) (cc_rtsp_pass c) @ ''@'' @ ce_listen_addr e
         @ ''/owner/streaming?accessToken='' @ query_escape (cc_access_token c) @ ''#rtsp/tcp#backchannel=0'')"

definition overlaid :: "string \<Rightarrow> string \<Rightarrow> string" where
  "overlaid stream flt =
     ''ffmpeg:'' @ stream @ source_suffix @ ''#video=h264#audio=copy#raw=-vf '' @ [double_quote] @ flt @ [double_quote]"

definition mjpeg_of :: "string \<Rightarrow> string" where
  "mjpeg_of stream = ''ffmpeg:'' @ stream @ ''#video=mjpeg''"

text \<open>The entries one camera puts into the map of streams, in order; a later entry for the same key
  replaces an earlier one.\<close>

definition stream_entries :: "(string \<times> string) list \<Rightarrow> nat \<Rightarrow> camera_entry \<Rightarrow> (string \<times> string list) list" where
  "stream_entries overlays index e =
     (let source = camera_source e; name = ce_stream_name e;
          published = (case map_of overlays name of None \<Rightarrow> source | Some flt \<Rightarrow> overlaid name flt)
      in (case map_of overlays name of None \<Rightarrow> [] | Some flt \<Rightarrow> [(name @ source_suffix, [source])])
         @ [(name, [published]), (name @ mjpeg_suffix, [mjpeg_of name])]
         @ (if index = 0 then [(legacy_name, [published]), (legacy_name @ mjpeg_suffix, [mjpeg_of legacy_name])] else []))"

definition put_entries :: "(string \<times> string list) list \<Rightarrow> (string \<times> string list) list \<Rightarrow> (string \<times> string list) list" where
  "put_entries entries streams = fold (\<lambda>(k, v). AList.update k v) entries streams"

fun stream_table ::
    "(string \<times> string) list \<Rightarrow> nat \<Rightarrow> camera_entry list \<Rightarrow> (string \<times> string list) list
      \<Rightarrow> setup_error + (string \<times> string list) list" where
  "stream_table overlays index [] streams = Inr streams"
| "stream_table overlays index (e # es) streams =
     (if ce_listen_addr e = [] then Inl (NoListenAddress (ce_stream_name e))
      else stream_table overlays (index + 1) es (put_entries (stream_entries overlays index e) streams))"

definition go2rtc_config_of ::
    "go2rtc_options \<Rightarrow> (string \<times> string) list \<Rightarrow> camera_entry list \<Rightarrow> setup_error + go2rtc_config" where
  "go2rtc_config_of opts overlays es =
     bind_sum (stream_table overlays 0 es []) (\<lambda>streams.
       Inr \<lparr>gc_streams = streams, gc_api = ''127.0.0.1:1984'', gc_rtsp = '':8555'',
            gc_webrtc = (if go_webrtc opts then '':8556'' else []),
            gc_candidates = (if go_webrtc opts \<and> go_candidate opts \<noteq> [] then [go_candidate opts] else []),
            gc_level = ''info''\<rparr>)"

text \<open>How one private file is written: its text or the encoder's error, the fault and the name of the
  temporary file.\<close>

record 'a file_script =
  fs_encode :: "'a \<Rightarrow> string + string"
  fs_fault :: write_fault
  fs_tmp :: string

definition write_go2rtc_config ::
    "go2rtc_options \<Rightarrow> go2rtc_config file_script \<Rightarrow> string \<Rightarrow> camera_entry list \<Rightarrow> (setup_error + unit) \<times> fs_act list" where
  "write_go2rtc_config opts script path es =
     (case build_overlays opts path es of
        (Inl e, acts) \<Rightarrow> (Inl e, acts)
      | (Inr overlays, acts) \<Rightarrow>
     (case go2rtc_config_of opts overlays es of
        Inl e \<Rightarrow> (Inl e, acts)
      | Inr config \<Rightarrow>
     (case write_private (fs_encode script config) (fs_fault script) (fs_tmp script) path of
        (Inl e, acts') \<Rightarrow> (Inl (WriteConfig e), acts @ acts')
      | (Inr _, acts') \<Rightarrow> (Inr (), acts @ acts'))))"

subsection \<open>One run\<close>

definition write_camera_files ::
    "camera_entry list file_script \<Rightarrow> camera_credentials file_script \<Rightarrow> string \<Rightarrow> string \<Rightarrow> camera_entry list
      \<Rightarrow> (setup_error + unit) \<times> fs_act list" where
  "write_camera_files reg_script one_script out_path registry_path es =
     (if es = [] then (Inl EmptyRegistry, [])
      else case write_private (fs_encode reg_script es) (fs_fault reg_script) (fs_tmp reg_script) registry_path of
        (Inl e, acts) \<Rightarrow> (Inl (WriteRegistry e), acts)
      | (Inr _, acts) \<Rightarrow>
     (case write_private (fs_encode one_script (ce_credentials (hd es))) (fs_fault one_script) (fs_tmp one_script) out_path of
        (Inl e, acts') \<Rightarrow> (Inl (WriteLegacy e), acts @ acts')
      | (Inr _, acts') \<Rightarrow> (Inr (), acts @ acts')))"

record write_script =
  ws_registry :: "camera_entry list file_script"
  ws_legacy :: "camera_credentials file_script"
  ws_config :: "go2rtc_config file_script"
  ws_options :: go2rtc_options

definition run_options :: "setup_options \<Rightarrow> write_script \<Rightarrow> go2rtc_options" where
  "run_options opts ws = (ws_options ws)\<lparr>go_webrtc := so_go2rtc_webrtc opts, go_candidate := so_webrtc_candidate opts,
     go_font := so_overlay_font opts\<rparr>"

text \<open>\<open>run\<close> from the cameras on: the three files, in order.\<close>

definition write_all ::
    "unicode \<Rightarrow> (string \<Rightarrow> int \<Rightarrow> bool) \<Rightarrow> setup_options \<Rightarrow> (string \<times> string) list \<Rightarrow> write_script
      \<Rightarrow> camera_credentials list \<Rightarrow> (setup_error + nat) \<times> fs_act list" where
  "write_all u port_in_use opts recorded ws cams =
     (case build_camera_registry u port_in_use recorded cams of
        Inl e \<Rightarrow> (Inl e, [])
      | Inr es \<Rightarrow>
     (case write_camera_files (ws_registry ws) (ws_legacy ws) (so_out_path opts) (so_registry_path opts) es of
        (Inl e, acts) \<Rightarrow> (Inl e, acts)
      | (Inr _, acts) \<Rightarrow>
        if so_go2rtc_path opts = [] then (Inr (length cams), acts)
        else (case write_go2rtc_config (run_options opts ws) (ws_config ws) (so_go2rtc_path opts) es of
            (Inl e, acts') \<Rightarrow> (Inl e, acts @ acts')
          | (Inr _, acts') \<Rightarrow> (Inr (length cams), acts @ acts'))))"

definition setup_run ::
    "unicode \<Rightarrow> (string \<Rightarrow> int \<Rightarrow> bool) \<Rightarrow> (string \<Rightarrow> string + camera_entry list) \<Rightarrow> (string \<Rightarrow> file_read)
      \<Rightarrow> setup_options \<Rightarrow> restore_script \<Rightarrow> pairing_outside \<Rightarrow> restore_script \<Rightarrow> write_script \<Rightarrow> provider
      \<Rightarrow> (setup_error + nat) option \<times> provider \<times> account_call list \<times> fs_act list" where
  "setup_run u port_in_use json files opts rs1 po rs2 ws p =
     (if so_timeout opts \<le> 0 then (Some (Inl BadTimeout), p, [], [])
      else case load_cameras opts rs1 po rs2 p of
        (None, q, calls) \<Rightarrow> (None, q, calls, [])
      | (Some (Inl e), q, calls) \<Rightarrow> (Some (Inl e), q, calls, [])
      | (Some (Inr cams), q, calls) \<Rightarrow>
          (case write_all u port_in_use opts (recorded_addresses json files (so_registry_path opts)) ws cams of
             (res, acts) \<Rightarrow> (Some res, q, calls, acts)))"

subsection \<open>The trusted networks\<close>

lemma split_networks_filter: "split_networks parts = filter (\<lambda>p. p \<noteq> []) (map trim_space parts)"
  by (induction parts) (simp_all add: Let_def)

text \<open>Both programs read the option alike.\<close>

lemma trusted_cidrs_agree: "setup_trusted_cidrs v = parse_trusted_cidrs v"
  by (simp add: setup_trusted_cidrs_def parse_trusted_cidrs_def split_networks_filter Let_def)

subsection \<open>Waiting\<close>

lemma pairing_health_answers:
  "hr_code (the (handle_health t (pairing_health now) ''/healthz'')) = 200
   \<and> hr_code (the (handle_health t (pairing_health now) ''/readyz'')) = 503"
  by (simp add: handle_health_def pairing_health_def set_credentials_ready_def set_live_def on_snapshot_def new_state_def
      blank_snapshot_def take_snapshot_def healthy_def write_json_def Let_def)

lemma page_step_fired:
  assumes "page_step pf catalogs d srv cfg x r b w = (w', calls)"
  shows "pw_runs w' = pw_runs w
    \<or> as_session (pv_disk (pw_provider w')) \<noteq> None \<and> as_challenge (pv_disk (pw_provider w')) = None"
  by (rule serve_pairing_cases [of pf catalogs d srv cfg x r b w]) (use assms in \<open>auto simp: page_step_def callback_step_def\<close>)

lemma pairing_wait_ends:
  assumes "\<And>x r b v v' cs. step x r b v = (v', cs) \<Longrightarrow> pw_runs v' = pw_runs v
      \<or> as_session (pv_disk (pw_provider v')) \<noteq> None \<and> as_challenge (pv_disk (pw_provider v')) = None"
  shows "pairing_wait step es w = (Some (Inr ()), w', calls) \<Longrightarrow>
     (0 < pw_runs w \<Longrightarrow> as_session (pv_disk (pw_provider w)) \<noteq> None \<and> as_challenge (pv_disk (pw_provider w)) = None) \<Longrightarrow>
     as_session (pv_disk (pw_provider w')) \<noteq> None \<and> as_challenge (pv_disk (pw_provider w')) = None"
proof (induction es arbitrary: w calls)
  case Nil
  then show ?case by (auto split: if_splits)
next
  case (Cons e es)
  show ?case
  proof (cases "0 < pw_runs w")
    case True
    then show ?thesis using Cons.prems by simp
  next
    case False
    show ?thesis
    proof (cases e)
      case StopAsked
      then show ?thesis using Cons.prems False by simp
    next
      case (PageAsked x r b)
      obtain v cs where v: "step x r b w = (v, cs)" by fastforce
      obtain cs' where "pairing_wait step es v = (Some (Inr ()), w', cs')"
        using Cons.prems(1) False PageAsked v by (auto split: prod.splits)
      from Cons.IH [OF this] assms [OF v] False show ?thesis by (cases "0 < pw_runs v") simp_all
    qed
  qed
qed

text \<open>Setup goes on after the pairing page exactly with an account that is paired: when the wait ends
  in success a session is stored and its challenge used up, whatever was asked of the page.\<close>

theorem setup_goes_on_paired:
  assumes "pair_first opts po p = (Some (Inr ()), q, calls)"
  shows "as_session (pv_disk q) \<noteq> None \<and> as_challenge (pv_disk q) = None"
proof -
  from assms obtain srv w where
    "pairing_wait (page_step (po_parse_float po) (po_catalogs po) (po_decode po) srv (setup_provider opts))
       (po_events po) \<lparr>pw_provider = p, pw_once = False, pw_runs = 0\<rparr> = (Some (Inr ()), w, calls)" and q: "q = pw_provider w"
    by (auto simp: pair_first_def split: sum.splits option.splits prod.splits if_splits)
  from pairing_wait_ends [OF page_step_fired this(1)] q show ?thesis by simp
qed

end
