(* ===== verification/Setup_Agreement.thy ===== *)
theory Setup_Agreement
  imports Setup_Process
begin

text \<open>
  What \<open>cmd/vm65-setup\<close> and \<open>cmd/vm65-bridge\<close> promise each other through the files: the bridge
  rebuilds setup's registry from the file, a second run of setup keeps it, the generated media
  server configuration leads every stream to its camera, and the files change in one order.
\<close>

subsection \<open>Setup and bridge agree\<close>

text \<open>An entry as the bridge's decoder reads it back: the JSON names of the two structs are the
  same, and the bridge has no field for the rest.\<close>

definition file_of :: "camera_entry \<Rightarrow> creds_file" where
  "file_of e =
     (let c = ce_credentials e
      in \<lparr>cf_device_id = cc_device_id c, cf_udid = cc_udid c, cf_name = cc_name c, cf_model = cc_model c,
          cf_sid = cc_sid c, cf_token = cc_token c, cf_control_host = cc_control_host c,
          cf_control_port = cc_control_port c, cf_target_port = cc_target_port c,
          cf_api_host = cc_api_host c, cf_api_port = cc_api_port c, cf_listen_addr = ce_listen_addr e\<rparr>)"

definition bridge_credentials :: "camera_credentials \<Rightarrow> credentials" where
  "bridge_credentials c =
     \<lparr>cr_device_id = cc_device_id c, cr_sid = cc_sid c, cr_token = cc_token c, cr_udid = cc_udid c,
      cr_name = cc_name c, cr_model = cc_model c, cr_control_host = cc_control_host c,
      cr_control_port = cc_control_port c, cr_target_port = cc_target_port c,
      cr_api_host = cc_api_host c, cr_api_port = cc_api_port c\<rparr>"

lemma view_simps [simp]:
  "cr_udid (bridge_view c) = cc_udid c" "cr_name (bridge_view c) = cc_name c"
  "cr_udid (bridge_credentials c) = cc_udid c" "cr_name (bridge_credentials c) = cc_name c"
  by (simp_all add: bridge_view_def bridge_credentials_def)

lemma sort_key_map: "sort_key f (map g xs) = map g (sort_key (f \<circ> g) xs)"
proof -
  have "insort_key f (g x) (map g ys) = map g (insort_key (f \<circ> g) x ys)" for x ys
    by (induction ys) auto
  then show ?thesis by (induction xs) auto
qed

lemma sort_key_sorted: "distinct (map f xs) \<Longrightarrow> sorted (map f xs) \<Longrightarrow> sort_key f xs = xs"
  by (intro properties_for_sort_key) simp_all

definition registry_options ::
    "(string \<Rightarrow> int \<Rightarrow> bool) \<Rightarrow> (string \<times> string) list \<Rightarrow> camera_credentials list \<Rightarrow> build_options" where
  "registry_options port_in_use recorded cams =
     \<lparr>bo_base_address = bridge_listen_base, bo_credentials = map bridge_view cams, bo_recorded = recorded,
      bo_port_in_use = Some port_in_use\<rparr>"

lemma listen_base: "split_host_port bridge_listen_base = Some (''127.0.0.1'', ''8554'')"
  by code_simp

text \<open>What a registry that setup built is made of.\<close>

lemma camera_registry_cases:
  assumes "build_camera_registry u port_in_use recorded cams = Inr es" and "distinct (map cc_udid cams)"
  obtains reg where "build_registry u (registry_options port_in_use recorded cams) = Inr reg"
    "map ce_stream_name es = map cm_stream_name (rg_cameras reg)"
    "map ce_listen_addr es = map cm_listen_addr (rg_cameras reg)"
    "map ce_credentials es = sort_key cc_udid cams"
    "map cm_credentials (rg_cameras reg) = map bridge_view (map ce_credentials es)"
proof -
  let ?found = "\<lambda>i. case map_of (by_udid cams) i of None \<Rightarrow> no_credentials | Some cc \<Rightarrow> cc"
  obtain reg where reg: "build_registry u (registry_options port_in_use recorded cams) = Inr reg"
    and es: "es = map (\<lambda>c. \<lparr>ce_credentials = ?found (cr_udid (cm_credentials c)),
      ce_stream_name = cm_stream_name c, ce_listen_addr = cm_listen_addr c\<rparr>) (rg_cameras reg)"
    using assms(1) by (auto simp: build_camera_registry_def registry_options_def split: sum.splits)
  have found: "?found (cc_udid c) = c" if "c \<in> set cams" for c
    using fold_update_last [OF assms(2) that, of "\<lambda>c. c" "[]"] by (simp add: by_udid_def)
  have views: "map cm_credentials (rg_cameras reg) = map bridge_view (sort_key cc_udid cams)"
    using built_credentials [OF reg] by (simp add: registry_options_def sort_key_map comp_def)
  have "map ce_credentials es = map (?found \<circ> cr_udid) (map cm_credentials (rg_cameras reg))"
    by (simp add: es)
  also have "\<dots> = map (\<lambda>c. ?found (cc_udid c)) (sort_key cc_udid cams)" unfolding views by simp
  also have "\<dots> = sort_key cc_udid cams" by (rule map_idI) (simp only: set_sort found)
  finally have "map ce_credentials es = sort_key cc_udid cams" .
  with reg views show thesis by (intro that [of reg]) (simp_all add: es comp_def)
qed

definition file_ok :: "creds_file \<Rightarrow> bool" where
  "file_ok f \<longleftrightarrow> cf_sid f \<noteq> [] \<and> cf_token f \<noteq> [] \<and> cf_control_host f \<noteq> [] \<and> cf_udid f \<noteq> [] \<and> cf_listen_addr f \<noteq> []"

lemma file_credentials_ok:
  "file_ok f \<Longrightarrow> \<exists>c. file_credentials f = Inr c \<and> cr_udid c = cf_udid f"
  by (simp add: file_ok_def file_credentials_def)

lemma load_entries_ok:
  "list_all file_ok fs \<Longrightarrow>
     load_entries i fs cs = Inr \<lparr>cs_credentials = cs_credentials cs @ map (\<lambda>f. projr (file_credentials f)) fs,
       cs_addresses = fold (\<lambda>f. AList.update (cf_udid f) (cf_listen_addr f)) fs (cs_addresses cs)\<rparr>"
proof (induction fs arbitrary: i cs)
  case (Cons f fs)
  then have ok: "file_ok f" and fs: "list_all file_ok fs" by simp_all
  from ok have f: "cf_udid f \<noteq> []" "cf_listen_addr f \<noteq> []" by (simp_all add: file_ok_def)
  from ok obtain c where c: "file_credentials f = Inr c" "cr_udid c = cf_udid f"
    using file_credentials_ok [of f] by auto
  show ?case by (simp add: c f Cons.IH [OF fs])
qed simp

text \<open>The addresses of an entry are never empty.\<close>

lemma entry_address_nonempty:
  assumes "build_registry u (registry_options port_in_use recorded cams) = Inr reg"
    and "map ce_listen_addr es = map cm_listen_addr (rg_cameras reg)" and "e \<in> set es"
  shows "ce_listen_addr e \<noteq> []"
proof -
  obtain cam where cam: "cam \<in> set (rg_cameras reg)" "ce_listen_addr e = cm_listen_addr cam"
    using arg_cong [OF assms(2), of set] assms(3) by auto
  have "split_host_port (bo_base_address (registry_options port_in_use recorded cams)) = Some (''127.0.0.1'', ''8554'')"
    using listen_base by (simp add: registry_options_def)
  then obtain q where "split_host_port (cm_listen_addr cam) = Some q"
    using built_addresses [OF assms(1) _ cam(1)] by metis
  moreover have "split_host_port [] = None" by (simp add: split_host_port_def last_index_def)
  ultimately show ?thesis unfolding cam(2) by force
qed

lemma entry_of_camera:
  assumes "map ce_stream_name es = map cm_stream_name cs" "map ce_listen_addr es = map cm_listen_addr cs"
    and "map cm_credentials cs = map bridge_view (map ce_credentials es)" and "cam \<in> set cs"
  obtains e where "e \<in> set es" "cc_udid (ce_credentials e) = cr_udid (cm_credentials cam)"
    "cc_name (ce_credentials e) = cr_name (cm_credentials cam)" "ce_listen_addr e = cm_listen_addr cam"
proof -
  obtain i where i: "i < length cs" "cam = cs ! i" using assms(4) by (auto simp: in_set_conv_nth)
  have len: "length es = length cs" using arg_cong [OF assms(1), of length] by simp
  have "cm_credentials (cs ! i) = bridge_view (ce_credentials (es ! i))"
    using arg_cong [OF assms(3), of "\<lambda>l. l ! i"] i(1) len by simp
  moreover have "ce_listen_addr (es ! i) = cm_listen_addr (cs ! i)"
    using arg_cong [OF assms(2), of "\<lambda>l. l ! i"] i(1) len by simp
  ultimately show thesis using i len by (intro that [of "es ! i"]) simp_all
qed

text \<open>The addresses in the registry file, however they are read back, rebuild the registry for any
  list of cameras with the same UDIDs and names.\<close>

lemma entries_rebuild:
  assumes "build_camera_registry u port_in_use recorded cams = Inr es"
    and "distinct (map cc_udid cams)" and "[] \<notin> set (map cc_udid cams)"
    and "split_host_port base = Some (''127.0.0.1'', pt)" and "atoi pt = Some p" and "1 \<le> p" and "p \<le> 65535"
    and "map (\<lambda>d. (cr_udid d, cr_name d)) (sort_key cr_udid ds)
      = map (\<lambda>e. (cc_udid (ce_credentials e), cc_name (ce_credentials e))) es"
  shows "\<exists>reg. build_registry u \<lparr>bo_base_address = base, bo_credentials = ds,
        bo_recorded = fold (\<lambda>e. AList.update (cc_udid (ce_credentials e)) (ce_listen_addr e)) es [],
        bo_port_in_use = probe\<rparr> = Inr reg
    \<and> map cm_stream_name (rg_cameras reg) = map ce_stream_name es
    \<and> map cm_listen_addr (rg_cameras reg) = map ce_listen_addr es
    \<and> map cm_credentials (rg_cameras reg) = sort_key cr_udid ds"
proof -
  from assms(1,2) obtain reg where reg: "build_registry u (registry_options port_in_use recorded cams) = Inr reg"
    "map ce_stream_name es = map cm_stream_name (rg_cameras reg)"
    "map ce_listen_addr es = map cm_listen_addr (rg_cameras reg)"
    "map ce_credentials es = sort_key cc_udid cams"
    "map cm_credentials (rg_cameras reg) = map bridge_view (map ce_credentials es)"
    by (rule camera_registry_cases)
  let ?cs = "rg_cameras reg" let ?ds = "sort_key cr_udid ds"
  have ids: "map (cc_udid \<circ> ce_credentials) es = map cc_udid (sort_key cc_udid cams)"
    using arg_cong [OF reg(4), of "map cc_udid"] by simp
  then have dist: "distinct (map (\<lambda>e. cc_udid (ce_credentials e)) es)"
    using assms(2) by (simp add: comp_def distinct_map)
  have ne: "cc_udid (ce_credentials e) \<noteq> []" if "e \<in> set es" for e
  proof -
    have "cc_udid (ce_credentials e) \<in> set (map (cc_udid \<circ> ce_credentials) es)" using that by auto
    then show ?thesis using assms(3) unfolding ids by auto
  qed
  have len: "length ?ds = length ?cs"
    using arg_cong [OF assms(8), of length] arg_cong [OF reg(2), of length] by simp
  have "same_device (?ds ! i) (?cs ! i)" if i: "i < length ?cs" for i
  proof -
    have l: "length es = length ?cs" using arg_cong [OF reg(2), of length] by simp
    have "cm_credentials (?cs ! i) = bridge_view (ce_credentials (es ! i))"
      using arg_cong [OF reg(5), of "\<lambda>l. l ! i"] i l by simp
    then show ?thesis
      using arg_cong [OF assms(8), of "\<lambda>l. l ! i"] i l len by (simp add: same_device_def)
  qed
  then have same: "list_all2 same_device ?ds ?cs" using len by (simp add: list_all2_conv_all_nth)
  have rec: "cr_udid (cm_credentials cam) \<noteq> []
      \<and> map_of (fold (\<lambda>e. AList.update (cc_udid (ce_credentials e)) (ce_listen_addr e)) es [])
          (cr_udid (cm_credentials cam)) = Some (cm_listen_addr cam)" if cam: "cam \<in> set ?cs" for cam
  proof -
    from entry_of_camera [OF reg(2,3,5) cam] obtain e where e: "e \<in> set es"
      "cc_udid (ce_credentials e) = cr_udid (cm_credentials cam)" "ce_listen_addr e = cm_listen_addr cam" by blast
    from fold_update_last [OF dist e(1), of ce_listen_addr "[]"] ne [OF e(1)] e(2,3) show ?thesis by simp
  qed
  have host: "split_host_port (bo_base_address (registry_options port_in_use recorded cams)) = Some (''127.0.0.1'', ''8554'')"
    using listen_base by (simp add: registry_options_def)
  show ?thesis
    using build_again [OF reg(1) host assms(4-7) same rec, of probe] reg(2,3) with_credentials_names [OF len] by simp
qed

text \<open>C5: the bridge reads from the registry file exactly what setup wrote.  With every camera's
  secrets present and distinct, non-empty UDIDs, loading the file gives the bridge a registry with
  the stream names and listen addresses of setup's entries, in their order, and each camera's full
  credentials, whatever ports are busy by then and whatever port the bridge's own base address has,
  as long as it is on the same host; so both programs and the media server's configuration name and
  address every camera alike.\<close>

theorem setup_bridge_agree:
  assumes "build_camera_registry u port_in_use recorded cams = Inr es" and "es \<noteq> []"
    and "distinct (map cc_udid cams)" and "[] \<notin> set (map cc_udid cams)"
    and "list_all (\<lambda>c. cc_sid c \<noteq> [] \<and> cc_token c \<noteq> [] \<and> cc_control_host c \<noteq> []) cams"
    and "ac_registry cfg \<noteq> []" and "files (ac_registry cfg) = FileText raw" and "json_all raw = Inr (map file_of es)"
    and "split_host_port (ac_listen cfg) = Some (''127.0.0.1'', pt)" and "atoi pt = Some p" and "1 \<le> p" and "p \<le> 65535"
  shows "\<exists>cs reg. load_credential_set files json_one json_all cfg = Inr cs \<and> build_from u cfg cs = Inr reg
    \<and> map cm_stream_name (rg_cameras reg) = map ce_stream_name es
    \<and> map cm_listen_addr (rg_cameras reg) = map ce_listen_addr es
    \<and> map cm_credentials (rg_cameras reg) = map (bridge_credentials \<circ> ce_credentials) es"
proof -
  let ?fs = "map file_of es"
  from assms(1,3) obtain reg where reg: "build_registry u (registry_options port_in_use recorded cams) = Inr reg"
    "map ce_stream_name es = map cm_stream_name (rg_cameras reg)"
    "map ce_listen_addr es = map cm_listen_addr (rg_cameras reg)"
    "map ce_credentials es = sort_key cc_udid cams"
    "map cm_credentials (rg_cameras reg) = map bridge_view (map ce_credentials es)"
    by (rule camera_registry_cases)
  have creds: "ce_credentials e \<in> set cams" if "e \<in> set es" for e
    using arg_cong [OF reg(4), of set] that by auto
  note addr = entry_address_nonempty [OF reg(1,3)]
  have udid: "cc_udid c \<noteq> []" if "c \<in> set cams" for c using assms(4) that by (metis image_eqI set_map)
  have "list_all file_ok ?fs"
    using assms(5) creds addr udid by (auto simp: list_all_iff file_ok_def file_of_def Let_def)
  note loaded = load_entries_ok [OF this, of 0 "\<lparr>cs_credentials = [], cs_addresses = []\<rparr>"]
  have full: "projr (file_credentials (file_of e)) = bridge_credentials (ce_credentials e)" if "e \<in> set es" for e
    using assms(5) creds [OF that] by (auto simp: list_all_iff file_credentials_def file_of_def Let_def bridge_credentials_def)
  let ?ds = "map (bridge_credentials \<circ> ce_credentials) es"
  have ds: "map (\<lambda>f. projr (file_credentials f)) ?fs = ?ds" using full by simp
  have al: "fold (\<lambda>f. AList.update (cf_udid f) (cf_listen_addr f)) ?fs []
      = fold (\<lambda>e. AList.update (cc_udid (ce_credentials e)) (ce_listen_addr e)) es []"
    by (simp add: fold_map comp_def file_of_def Let_def)
  have load: "load_credential_set files json_one json_all cfg = Inr \<lparr>cs_credentials = ?ds,
      cs_addresses = fold (\<lambda>e. AList.update (cc_udid (ce_credentials e)) (ce_listen_addr e)) es []\<rparr>"
    using assms(2,6-8) loaded unfolding ds by (simp add: load_credential_set_def parse_file_def al)
  have keys: "map cr_udid ?ds = map cc_udid (sort_key cc_udid cams)"
    using arg_cong [OF reg(4), of "map cc_udid"] by (simp add: comp_def)
  have sorted: "sort_key cr_udid ?ds = ?ds"
    by (rule sort_key_sorted) (use assms(3) in \<open>simp_all only: keys sorted_sort_key distinct_map distinct_sort set_sort\<close>)
  have "map (\<lambda>d. (cr_udid d, cr_name d)) (sort_key cr_udid ?ds)
      = map (\<lambda>e. (cc_udid (ce_credentials e), cc_name (ce_credentials e))) es"
    unfolding sorted by simp
  from entries_rebuild [OF assms(1,3,4,9-12) this, of None] sorted load show ?thesis
    by (auto simp: build_from_def)
qed

text \<open>C7: running setup again moves no camera.  When the registry file holds what the last run
  wrote and the account lists the same cameras, by UDID and name, the new registry gives every
  camera the name and the address it had, whatever ports the probe now calls busy (the bridge is
  serving on them), and the credentials the account gave this time.\<close>

theorem refresh_moves_no_camera:
  assumes "build_camera_registry u port_in_use recorded cams = Inr es"
    and "distinct (map cc_udid cams)" and "[] \<notin> set (map cc_udid cams)"
    and "map (\<lambda>c. (cc_udid c, cc_name c)) new = map (\<lambda>c. (cc_udid c, cc_name c)) cams"
    and "path \<noteq> []" and "files path = FileText raw" and "json raw = Inr es"
  shows "\<exists>es'. build_camera_registry u port_in_use' (recorded_addresses json files path) new = Inr es'
    \<and> map ce_stream_name es' = map ce_stream_name es \<and> map ce_listen_addr es' = map ce_listen_addr es
    \<and> map ce_credentials es' = sort_key cc_udid new"
proof -
  from assms(1,2) obtain reg where reg: "build_registry u (registry_options port_in_use recorded cams) = Inr reg"
    "map ce_stream_name es = map cm_stream_name (rg_cameras reg)"
    "map ce_listen_addr es = map cm_listen_addr (rg_cameras reg)"
    "map ce_credentials es = sort_key cc_udid cams"
    "map cm_credentials (rg_cameras reg) = map bridge_view (map ce_credentials es)"
    by (rule camera_registry_cases)
  have ids: "map cc_udid new = map cc_udid cams"
    using arg_cong [OF assms(4), of "map fst"] by (simp add: comp_def)
  have ne: "cc_udid (ce_credentials e) \<noteq> [] \<and> ce_listen_addr e \<noteq> []" if e: "e \<in> set es" for e
  proof -
    have "ce_credentials e \<in> set cams" using arg_cong [OF reg(4), of set] e by auto
    then have "cc_udid (ce_credentials e) \<noteq> []" using assms(3) by (metis image_eqI set_map)
    then show ?thesis using entry_address_nonempty [OF reg(1,3) e] by simp
  qed
  have "fold (\<lambda>e al. if cc_udid (ce_credentials e) \<noteq> [] \<and> ce_listen_addr e \<noteq> []
        then AList.update (cc_udid (ce_credentials e)) (ce_listen_addr e) al else al) xs al0
      = fold (\<lambda>e. AList.update (cc_udid (ce_credentials e)) (ce_listen_addr e)) xs al0"
    if "set xs \<subseteq> set es" for xs al0
    using that ne by (induction xs arbitrary: al0) auto
  then have rec: "recorded_addresses json files path
      = fold (\<lambda>e. AList.update (cc_udid (ce_credentials e)) (ce_listen_addr e)) es []"
    using assms(5-7) by (simp add: recorded_addresses_def)
  have pairs: "map (\<lambda>d. (cr_udid d, cr_name d)) (sort_key cr_udid (map bridge_view cs))
      = sort_key fst (map (\<lambda>c. (cc_udid c, cc_name c)) cs)" for cs
    by (simp add: sort_key_map comp_def)
  have "map (\<lambda>e. (cc_udid (ce_credentials e), cc_name (ce_credentials e))) es
      = map (\<lambda>c. (cc_udid c, cc_name c)) (sort_key cc_udid cams)"
    unfolding reg(4) [symmetric] by simp
  also have "\<dots> = sort_key fst (map (\<lambda>c. (cc_udid c, cc_name c)) cams)" by (simp add: sort_key_map comp_def)
  finally have same: "map (\<lambda>d. (cr_udid d, cr_name d)) (sort_key cr_udid (map bridge_view new))
      = map (\<lambda>e. (cc_udid (ce_credentials e), cc_name (ce_credentials e))) es"
    unfolding pairs assms(4) by simp
  have "atoi ''8554'' = Some 8554" by code_simp
  from entries_rebuild [OF assms(1-3) listen_base this _ _ same, of "Some port_in_use'"] obtain reg' where
    r: "build_registry u (registry_options port_in_use' (recorded_addresses json files path) new) = Inr reg'"
      "map cm_stream_name (rg_cameras reg') = map ce_stream_name es"
      "map cm_listen_addr (rg_cameras reg') = map ce_listen_addr es"
    by (auto simp: registry_options_def rec)
  then obtain es' where es': "build_camera_registry u port_in_use' (recorded_addresses json files path) new = Inr es'"
    by (auto simp: build_camera_registry_def registry_options_def)
  have "distinct (map cc_udid new)" using assms(2) ids by simp
  from camera_registry_cases [OF es' this] r obtain "map ce_stream_name es' = map ce_stream_name es"
    "map ce_listen_addr es' = map ce_listen_addr es" "map ce_credentials es' = sort_key cc_udid new"
    by (metis sum.inject(2))
  with es' show ?thesis by blast
qed

subsection \<open>The configuration reaches the right cameras\<close>

fun table_entries :: "(string \<times> string) list \<Rightarrow> nat \<Rightarrow> camera_entry list \<Rightarrow> (string \<times> string list) list" where
  "table_entries overlays index [] = []"
| "table_entries overlays index (e # es) = stream_entries overlays index e @ table_entries overlays (index + 1) es"

text \<open>The address an RTSP URL dials, and where a stream of the configuration leads: directly to the
  source, or through the overlay to the untouched stream of the same camera.\<close>

definition source_address :: "string \<Rightarrow> string" where
  "source_address s = fst (cut slash (fst (snd (cut CHR ''@'' s))))"

definition leads_to :: "(string \<times> string) list \<Rightarrow> (string \<times> string list) list \<Rightarrow> string \<Rightarrow> camera_entry \<Rightarrow> bool" where
  "leads_to overlays streams stream e \<longleftrightarrow>
     (case map_of overlays (ce_stream_name e) of
        None \<Rightarrow> map_of streams stream = Some [camera_source e]
      | Some flt \<Rightarrow> map_of streams stream = Some [overlaid (ce_stream_name e) flt]
          \<and> map_of streams (ce_stream_name e @ source_suffix) = Some [camera_source e])"

lemma put_entries_append: "put_entries (xs @ ys) al = put_entries ys (put_entries xs al)"
  by (simp add: put_entries_def)

fun_cases stream_table_ConsE: "stream_table overlays i (e # es) al = Inr t"

lemma stream_table_put:
  "stream_table overlays i es al = Inr t \<Longrightarrow> t = put_entries (table_entries overlays i es) al"
proof (induction es arbitrary: i al)
  case (Cons e es)
  from Cons.prems show ?case
    by (elim stream_table_ConsE) (use Cons.IH in \<open>fastforce simp: put_entries_append split: if_splits\<close>)
qed (simp add: put_entries_def)

lemma put_entries_fold: "put_entries entries al = fold (\<lambda>x. AList.update (fst x) (snd x)) entries al"
  by (simp add: put_entries_def case_prod_unfold)

lemma put_entries_lookup:
  "distinct (map fst entries) \<Longrightarrow> (k, v) \<in> set entries \<Longrightarrow> map_of (put_entries entries al) k = Some v"
  unfolding put_entries_fold using fold_update_last [of fst entries "(k, v)" snd al] by simp

lemma put_entries_keys: "k \<in> fst ` set entries \<Longrightarrow> map_of (put_entries entries al) k \<noteq> None"
  unfolding put_entries_fold by (rule fold_update_keys) simp

lemma table_entries_nth:
  "j < length es \<Longrightarrow> set (stream_entries overlays (i + j) (es ! j)) \<subseteq> set (table_entries overlays i es)"
proof (induction es arbitrary: i j)
  case (Cons e es)
  show ?case
  proof (cases j)
    case (Suc k)
    with Cons.IH [of k "i + 1"] Cons.prems show ?thesis by simp blast
  qed simp
qed simp

lemma escape_user_free: "CHR ''@'' \<notin> set (escape_user s)"
proof -
  have d: "CHR ''@'' \<noteq> upper_hex d" if "d < 16" for d
  proof -
    have "hex_value CHR ''@'' = None" by (simp add: hex_value_def)
    then show ?thesis using hex_value_upper [OF that] by force
  qed
  have h: "CHR ''@'' \<noteq> upper_hex (ord c div 16)" "CHR ''@'' \<noteq> upper_hex (ord c mod 16)" for c
    using d [of "ord c div 16"] d [of "ord c mod 16"] ord_less_256 [of c] by (simp_all add: div_less_iff_less_mult)
  have no: "\<not> unreserved CHR ''@''" by (simp add: unreserved_def)
  have "CHR ''@'' \<notin> set (if unreserved c \<or> c \<in> set ''$&+,;='' then [c]
      else [CHR ''%'', upper_hex (ord c div 16), upper_hex (ord c mod 16)])" for c
    using h [of c] no by (cases "c = CHR ''@''") simp_all
  then show ?thesis by (simp only: escape_user_def set_concat set_map) blast
qed

lemma source_dials: "slash \<notin> set (ce_listen_addr e) \<Longrightarrow> source_address (camera_source e) = ce_listen_addr e"
proof -
  let ?c = "ce_credentials e"
  let ?head = "''rtsp://'' @ user_password (cc_rtsp_user ?c) (cc_rtsp_pass ?c)"
  let ?tail = "''owner/streaming?accessToken='' @ query_escape (cc_access_token ?c) @ ''#rtsp/tcp#backchannel=0''"
  assume a: "slash \<notin> set (ce_listen_addr e)"
  have "CHR ''@'' \<notin> set ?head" using escape_user_free by (simp add: user_password_def)
  note c1 = cut_found [OF this, of "ce_listen_addr e @ slash # ?tail"]
  have "camera_source e = ?head @ CHR ''@'' # (ce_listen_addr e @ slash # ?tail)"
    by (simp add: camera_source_def Let_def slash_def)
  then show ?thesis by (simp only: source_address_def c1 fst_conv snd_conv cut_found [OF a])
qed

lemma entries_lead:
  assumes "go2rtc_config_of opts overlays es = Inr config"
    and "distinct (map fst (table_entries overlays 0 es))" and "i < length es"
  shows "leads_to overlays (gc_streams config) (ce_stream_name (es ! i)) (es ! i)"
    and "i = 0 \<Longrightarrow> leads_to overlays (gc_streams config) legacy_name (es ! i)"
proof -
  have "gc_streams config = put_entries (table_entries overlays 0 es) []"
    using assms(1) stream_table_put by (auto simp: go2rtc_config_of_def bind_sum_Inr_iff)
  then have at: "map_of (gc_streams config) k = Some v" if "(k, v) \<in> set (stream_entries overlays i (es ! i))" for k v
    using put_entries_lookup [OF assms(2)] table_entries_nth [OF assms(3), of overlays 0] that by auto
  show "leads_to overlays (gc_streams config) (ce_stream_name (es ! i)) (es ! i)"
    and "i = 0 \<Longrightarrow> leads_to overlays (gc_streams config) legacy_name (es ! i)"
    using at by (auto simp: leads_to_def stream_entries_def Let_def split: option.split)
qed

text \<open>C6: as long as no two of the stream entries written for the cameras share a name, every stream
  the bridge publishes for a camera plays that camera: given a registry with the names and
  addresses of the entries the configuration was made from, the published stream (the legacy alias
  for the first camera) leads to that camera's source, through the overlay or directly, and the
  source dials exactly the address that camera's bridge listens on; and every stream name the
  proxy lets through exists in the configuration.  Without that condition it is false of the
  code: \<open>alias_shows_wrong_camera\<close> and \<open>mjpeg_name_taken\<close> below have two entries of one name.\<close>

theorem config_reaches_cameras:
  assumes "go2rtc_config_of opts overlays es = Inr config"
    and "distinct (map fst (table_entries overlays 0 es))"
    and "list_all (\<lambda>e. slash \<notin> set (ce_listen_addr e)) es"
    and "map cm_stream_name (rg_cameras reg) = map ce_stream_name es"
    and "map cm_listen_addr (rg_cameras reg) = map ce_listen_addr es"
    and "rg_legacy_alias reg = legacy_name" and "es \<noteq> []"
  shows "(\<forall>(i, c) \<in> set (indexed reg).
        leads_to overlays (gc_streams config) (published_stream_name reg c i) (es ! i)
        \<and> source_address (camera_source (es ! i)) = cm_listen_addr c)
    \<and> set (stream_names reg) \<subseteq> fst ` set (gc_streams config)"
proof -
  have len: "length es = length (rg_cameras reg)" using arg_cong [OF assms(4), of length] by simp
  have "leads_to overlays (gc_streams config) (published_stream_name reg c i) (es ! i)
      \<and> source_address (camera_source (es ! i)) = cm_listen_addr c" if "(i, c) \<in> set (indexed reg)" for i c
  proof -
    have i: "i < length es" "c = rg_cameras reg ! i" using that len by (auto simp: indexed_def set_zip)
    have c: "cm_stream_name c = ce_stream_name (es ! i)" "cm_listen_addr c = ce_listen_addr (es ! i)"
      using i len arg_cong [OF assms(4), of "\<lambda>l. l ! i"] arg_cong [OF assms(5), of "\<lambda>l. l ! i"] by simp_all
    have "source_address (camera_source (es ! i)) = cm_listen_addr c"
      using assms(3) i(1) c(2) source_dials by (simp add: list_all_iff)
    then show ?thesis
      using entries_lead [OF assms(1,2) i(1)] c(1) assms(6) by (simp add: published_stream_name_def legacy_name_def)
  qed
  moreover have "set (stream_names reg) \<subseteq> fst ` set (gc_streams config)"
  proof
    fix n assume "n \<in> set (stream_names reg)"
    then consider "n \<in> {legacy_name, legacy_name @ mjpeg_suffix}"
      | e where "e \<in> set es" "n \<in> {ce_stream_name e, ce_stream_name e @ mjpeg_suffix}"
      using assms(6) arg_cong [OF assms(4), of set] by (auto simp: stream_names_def)
    then have "\<exists>j < length es. n \<in> fst ` set (stream_entries overlays j (es ! j))"
    proof cases
      case 1
      then show ?thesis using assms(7) by (intro exI [of _ 0]) (auto simp: stream_entries_def Let_def)
    next
      case (2 e)
      then obtain j where "j < length es" "e = es ! j" by (auto simp: in_set_conv_nth)
      with 2 show ?thesis by (intro exI [of _ j]) (auto simp: stream_entries_def Let_def)
    qed
    then have "n \<in> fst ` set (table_entries overlays 0 es)" using table_entries_nth [of _ es overlays 0] by fastforce
    moreover have "gc_streams config = put_entries (table_entries overlays 0 es) []"
      using assms(1) stream_table_put by (auto simp: go2rtc_config_of_def bind_sum_Inr_iff)
    ultimately show "n \<in> fst ` set (gc_streams config)"
      using put_entries_keys [of n] by (metis map_of_eq_None_iff)
  qed
  ultimately show ?thesis by blast
qed

subsection \<open>A name that clashes\<close>

definition account_camera :: "string \<Rightarrow> string \<Rightarrow> camera_credentials" where
  "account_camera i name = no_credentials\<lparr>cc_udid := i, cc_name := name, cc_sid := ''s'', cc_token := ''t'',
     cc_control_host := ''h'', cc_access_token := ''at'', cc_rtsp_user := ''Pascal'', cc_rtsp_pass := ''p''\<rparr>"

definition plain_options :: go2rtc_options where
  "plain_options = \<lparr>go_webrtc = True, go_candidate = [], go_font = [], go_font_readable = False,
     go_verify = (\<lambda>_. None), go_text_fault = (\<lambda>_. PlainOk)\<rparr>"

definition clash_entries :: "camera_entry list" where
  "clash_entries = projr (build_camera_registry sample_unicode (\<lambda>_ _. False) []
     [account_camera ''U1'' ''Nursery'', account_camera ''U2'' ''VM65''])"

definition clash_registry :: registry where
  "clash_registry = projr (build_registry sample_unicode (registry_options (\<lambda>_ _. False) []
     [account_camera ''U1'' ''Nursery'', account_camera ''U2'' ''VM65'']))"

text \<open>A camera called VM65 that is not the first takes the legacy alias: the bridge publishes the
  first camera under the alias, and in the configuration that stream dials the other camera.\<close>

lemma alias_shows_wrong_camera:
  "published_stream_name clash_registry (hd (rg_cameras clash_registry)) 0 = ''vm65''
   \<and> cm_listen_addr (hd (rg_cameras clash_registry)) = ''127.0.0.1:8554''
   \<and> map_of (gc_streams (projr (go2rtc_config_of plain_options [] clash_entries))) ''vm65''
       = Some [camera_source (clash_entries ! 1)]
   \<and> source_address (camera_source (clash_entries ! 1)) = ''127.0.0.1:9554''"
  by code_simp

text \<open>So does the MJPEG stream of a camera when another camera's name ends in the suffix: the stream
  transcodes nothing, it is that other camera.\<close>

lemma mjpeg_name_taken:
  "map_of (gc_streams (projr (go2rtc_config_of plain_options []
      (projr (build_camera_registry sample_unicode (\<lambda>_ _. False) []
        [account_camera ''U1'' ''Nursery'', account_camera ''U2'' ''Nursery MJPEG'']))))) ''nursery-mjpeg''
   \<noteq> Some [mjpeg_of ''nursery'']"
  by code_simp

subsection \<open>The order the files change in\<close>

definition spares :: "string \<Rightarrow> fs_act list \<Rightarrow> bool" where
  "spares q acts \<longleftrightarrow> (\<forall>a \<in> set acts. \<forall>fs. fs_apply fs a q = fs q)"

lemma spares_simps [simp]:
  "spares q []" "spares q (xs @ ys) \<longleftrightarrow> spares q xs \<and> spares q ys"
  by (auto simp: spares_def)

lemma spares_run: "spares q acts \<Longrightarrow> run_fs (take n acts) fs q = fs q"
proof (induction acts arbitrary: n fs)
  case (Cons a acts)
  then show ?case by (cases n) (simp_all add: spares_def)
qed simp

lemma spares_run_all: "spares q acts \<Longrightarrow> run_fs acts fs q = fs q"
  using spares_run [of q acts "length acts" fs] by simp

text \<open>One private file is written: another path is spared, and the path itself holds its old content
  until the moment it holds the whole new one.\<close>

definition private_phase :: "string + string \<Rightarrow> string \<Rightarrow> fs_act list \<Rightarrow> bool \<Rightarrow> bool" where
  "private_phase encoded path acts ok \<longleftrightarrow>
     (\<forall>n fs. run_fs (take n acts) fs path = fs path
        \<or> (\<exists>raw. encoded = Inr raw \<and> run_fs (take n acts) fs path = Some (raw @ [CHR 0x0A])))
   \<and> (ok \<longrightarrow> (\<exists>raw. encoded = Inr raw \<and> (\<forall>fs. run_fs acts fs path = Some (raw @ [CHR 0x0A]))))
   \<and> (\<not> ok \<longrightarrow> spares path acts)"

lemma touches_spares: "list_all (only_touches tmp) acts \<Longrightarrow> q \<noteq> tmp \<Longrightarrow> spares q acts"
proof (induction acts)
  case (Cons a acts)
  then show ?case by (cases a) (auto simp: spares_def split: option.splits)
qed simp

lemma write_private_phase:
  assumes "write_private encoded fault tmp path = (r, acts)" and "tmp \<noteq> path"
  shows "private_phase encoded path acts (is_Inr r)" and "q \<noteq> path \<Longrightarrow> q \<noteq> tmp \<Longrightarrow> spares q acts"
proof -
  have "private_phase encoded path acts (is_Inr r) \<and> (q \<noteq> path \<longrightarrow> q \<noteq> tmp \<longrightarrow> spares q acts)"
  proof (cases rule: write_private_cases [of encoded fault tmp path])
    case (failed e acts')
    then show ?thesis using assms touches_spares [OF failed(2)] spares_run
      by (auto simp: private_phase_def)
  next
    case (saved raw)
    let ?w = "write_acts tmp (raw @ [CHR 0x0A])"
    have acts: "acts = ?w @ [FsRename tmp path, FsRemove tmp]" "r = Inr ()" using saved assms(1) by simp_all
    have w: "spares q ?w" if "q \<noteq> tmp" for q
      by (rule touches_spares [OF _ that]) (simp add: write_acts_def)
    have full: "run_fs (?w @ [FsRename tmp path]) fs path = Some (raw @ [CHR 0x0A])"
        "run_fs acts fs path = Some (raw @ [CHR 0x0A])" for fs
      using assms(2) by (simp_all add: acts run_write_acts)
    have "run_fs (take n acts) fs path = fs path \<or> run_fs (take n acts) fs path = Some (raw @ [CHR 0x0A])" for n fs
      using take_two_more [of n ?w "FsRename tmp path" "FsRemove tmp"] full spares_run [OF w] assms(2)
      unfolding acts by metis
    moreover have "spares q acts" if "q \<noteq> path" "q \<noteq> tmp"
      using w that by (auto simp: acts spares_def split: option.splits)
    ultimately show ?thesis using saved(1) full acts(2) by (simp add: private_phase_def)
  qed
  then show "private_phase encoded path acts (is_Inr r)" and "q \<noteq> path \<Longrightarrow> q \<noteq> tmp \<Longrightarrow> spares q acts"
    by simp_all
qed

lemma write_file_spares: "write_file fault p t = (err, acts) \<Longrightarrow> q \<noteq> p \<Longrightarrow> spares q acts"
  by (cases fault) (auto simp: write_file_def spares_def split: option.splits)

lemma overlays_spare:
  "overlay_loop opts path es filters = (r, acts) \<Longrightarrow> q \<notin> (overlay_text_path path \<circ> ce_stream_name) ` set es \<Longrightarrow> spares q acts"
proof (induction es arbitrary: filters r acts)
  case (Cons e es)
  let ?p = "overlay_text_path path (ce_stream_name e)"
  obtain err a where w: "write_file (go_text_fault opts ?p) ?p (overlay_name e) = (err, a)" by fastforce
  have a: "spares q a" using write_file_spares [OF w] Cons.prems(2) by simp
  let ?rest = "overlay_loop opts path es (AList.update (ce_stream_name e) (overlay_filter (go_font opts) ?p) filters)"
  obtain r' acts' where rest: "?rest = (r', acts')" by fastforce
  from Cons.IH [OF this] Cons.prems(2) have "spares q acts'" by simp
  with a w rest Cons.prems(1) show ?case by (auto simp: Let_def split: option.splits if_splits)
qed simp

lemma take_phases: "take n (xs @ ys) = take n xs \<or> (\<exists>m. take n (xs @ ys) = xs @ take m ys)"
  by (cases "n \<le> length xs") auto

definition holds_new :: "string + string \<Rightarrow> string option \<Rightarrow> bool" where
  "holds_new encoded content \<longleftrightarrow> (case encoded of Inl e \<Rightarrow> False | Inr raw \<Rightarrow> content = Some (raw @ [CHR 0x0A]))"

lemma holds_newI: "encoded = Inr raw \<Longrightarrow> content = Some (raw @ [CHR 0x0A]) \<Longrightarrow> holds_new encoded content"
  by (simp add: holds_new_def)

lemma private_phaseD:
  "private_phase encoded p acts ok \<Longrightarrow> run_fs (take n acts) fs p = fs p \<or> holds_new encoded (run_fs (take n acts) fs p)"
  "private_phase encoded p acts ok \<Longrightarrow> ok \<Longrightarrow> holds_new encoded (run_fs acts fs p)"
  unfolding private_phase_def by (blast intro: holds_newI)+

lemma spares_phase: "spares p acts \<Longrightarrow> private_phase encoded p acts False"
  by (simp add: private_phase_def spares_run)

lemma private_phase_after:
  assumes "spares p before" and "private_phase encoded p acts ok"
  shows "private_phase encoded p (before @ acts) ok"
proof -
  have "run_fs (take n (before @ acts)) fs p = fs p
      \<or> (\<exists>raw. encoded = Inr raw \<and> run_fs (take n (before @ acts)) fs p = Some (raw @ [CHR 0x0A]))" for n fs
  proof -
    consider "take n (before @ acts) = take n before" | m where "take n (before @ acts) = before @ take m acts"
      using take_phases by blast
    then show ?thesis
    proof cases
      case 1
      show ?thesis unfolding 1 using spares_run [OF assms(1)] by blast
    next
      case (2 m)
      have "run_fs (take m acts) (run_fs before fs) p = run_fs before fs p
          \<or> (\<exists>raw. encoded = Inr raw \<and> run_fs (take m acts) (run_fs before fs) p = Some (raw @ [CHR 0x0A]))"
        using assms(2) by (simp add: private_phase_def)
      then show ?thesis unfolding 2 run_fs_simps using spares_run_all [OF assms(1)] by simp
    qed
  qed
  then show ?thesis using assms by (auto simp: private_phase_def)
qed

text \<open>Three files written one after the other, each only when the one before it was.\<close>

lemma phases_in_order:
  assumes ph: "private_phase e1 p1 a1 ok1" "private_phase e2 p2 a2 ok2" "private_phase e3 p3 a3 ok3"
    and stop: "\<not> ok1 \<Longrightarrow> a2 = [] \<and> a3 = []" "\<not> ok2 \<Longrightarrow> a3 = []"
    and sp: "spares p2 a1" "spares p3 a1" "spares p1 a2" "spares p3 a2" "spares p1 a3" "spares p2 a3"
    and g: "g = run_fs (take n (a1 @ a2 @ a3)) fs"
  shows "(g p1 = fs p1 \<or> holds_new e1 (g p1)) \<and> (g p2 = fs p2 \<or> holds_new e1 (g p1) \<and> holds_new e2 (g p2))
    \<and> (g p3 = fs p3 \<or> holds_new e1 (g p1) \<and> holds_new e2 (g p2) \<and> holds_new e3 (g p3))"
proof -
  consider "take n (a1 @ a2 @ a3) = take n a1" | m where "take n (a1 @ a2 @ a3) = a1 @ take m (a2 @ a3)"
    using take_phases [of n a1 "a2 @ a3"] by blast
  then show ?thesis
  proof cases
    case 1
    then show ?thesis using private_phaseD(1) [OF ph(1)] spares_run [OF sp(1)] spares_run [OF sp(2)] unfolding g 1 by blast
  next
    case (2 m)
    let ?f1 = "run_fs a1 fs"
    show ?thesis
    proof (cases ok1)
      case False
      then have "g = ?f1" using stop(1) unfolding g 2 by simp
      then show ?thesis using private_phaseD(1) [OF ph(1), of "length a1" fs]
          spares_run_all [OF sp(1)] spares_run_all [OF sp(2)] by simp
    next
      case True
      note n1 = private_phaseD(2) [OF ph(1) True, of fs]
      have f1: "?f1 p2 = fs p2" "?f1 p3 = fs p3" using spares_run_all [OF sp(1)] spares_run_all [OF sp(2)] by simp_all
      consider "take m (a2 @ a3) = take m a2" | k where "take m (a2 @ a3) = a2 @ take k a3"
        using take_phases by blast
      then show ?thesis
      proof cases
        case a: 1
        then show ?thesis
          using n1 f1 private_phaseD(1) [OF ph(2), of m ?f1] spares_run [OF sp(3), of m ?f1] spares_run [OF sp(4), of m ?f1]
          unfolding g 2 run_fs_simps a by auto
      next
        case b: (2 k)
        let ?f2 = "run_fs a2 ?f1"
        have f2: "?f2 p1 = ?f1 p1" "?f2 p3 = fs p3" using spares_run_all [OF sp(3)] spares_run_all [OF sp(4)] f1 by simp_all
        have f3: "run_fs (take k a3) ?f2 p1 = ?f1 p1" "run_fs (take k a3) ?f2 p2 = ?f2 p2"
          using spares_run [OF sp(5)] spares_run [OF sp(6)] f2 by simp_all
        show ?thesis
        proof (cases ok2)
          case True
          note n2 = private_phaseD(2) [OF ph(2) True, of ?f1]
          show ?thesis unfolding g 2 b run_fs_simps
            using private_phaseD(1) [OF ph(3), of k ?f2] n1 n2 f2 f3 by auto
        next
          case False
          then have "a3 = []" by (rule stop(2))
          then have "g = ?f2" unfolding g 2 b by simp
          then show ?thesis
            using n1 f1 f2 private_phaseD(1) [OF ph(2), of "length a2" ?f1] by auto
        qed
      qed
    qed
  qed
qed

lemma camera_files_phases:
  assumes "write_camera_files rs os out reg es = (r, acts)" and "distinct [reg, out, fs_tmp rs, fs_tmp os]"
  obtains a1 a2 ok1 where "acts = a1 @ a2" "private_phase (fs_encode rs es) reg a1 ok1"
    "private_phase (fs_encode os (ce_credentials (hd es))) out a2 (is_Inr r)" "\<not> ok1 \<Longrightarrow> a2 = [] \<and> \<not> is_Inr r"
    "\<And>q. q \<noteq> reg \<Longrightarrow> q \<noteq> fs_tmp rs \<Longrightarrow> spares q a1" "\<And>q. q \<noteq> out \<Longrightarrow> q \<noteq> fs_tmp os \<Longrightarrow> spares q a2"
proof (cases "es = []")
  case True
  with assms(1) have "r = Inl EmptyRegistry" "acts = []" by (simp_all add: write_camera_files_def)
  then show thesis by (intro that [of "[]" "[]" False]) (simp_all add: spares_phase)
next
  case False
  obtain r1 a1 where w1: "write_private (fs_encode rs es) (fs_fault rs) (fs_tmp rs) reg = (r1, a1)" by fastforce
  obtain r2 a2 where w2: "write_private (fs_encode os (ce_credentials (hd es))) (fs_fault os) (fs_tmp os) out = (r2, a2)"
    by fastforce
  have ne: "fs_tmp rs \<noteq> reg" "fs_tmp os \<noteq> out" using assms(2) by auto
  note ph = write_private_phase [OF w1 ne(1)] write_private_phase [OF w2 ne(2)]
  show thesis
  proof (cases r1)
    case (Inl e)
    then have "r = Inl (WriteRegistry e)" "acts = a1" using assms(1) False w1 by (simp_all add: write_camera_files_def)
    then show thesis using ph(1,2) Inl by (intro that [of a1 "[]" False]) (simp_all add: spares_phase)
  next
    case (Inr x)
    then have "acts = a1 @ a2" "is_Inr r = is_Inr r2"
      using assms(1) False w1 w2 by (auto simp: write_camera_files_def split: sum.splits)
    then show thesis using ph Inr by (intro that [of a1 a2 True]) simp_all
  qed
qed

lemma config_phase:
  assumes "write_go2rtc_config opts script path es = (r, acts)" and "fs_tmp script \<noteq> path"
    and "path \<notin> (overlay_text_path path \<circ> ce_stream_name) ` set es"
  obtains encoded where "private_phase encoded path acts (is_Inr r)"
    "\<And>raw. encoded = Inr raw \<Longrightarrow> \<exists>overlays config. go2rtc_config_of opts overlays es = Inr config \<and> fs_encode script config = Inr raw"
    "\<And>q. q \<noteq> path \<Longrightarrow> q \<noteq> fs_tmp script \<Longrightarrow> q \<notin> (overlay_text_path path \<circ> ce_stream_name) ` set es \<Longrightarrow> spares q acts"
proof -
  obtain r0 ov where o: "build_overlays opts path es = (r0, ov)" by fastforce
  have ov: "spares q ov" if "q \<notin> (overlay_text_path path \<circ> ce_stream_name) ` set es" for q
    using o that overlays_spare by (auto simp: build_overlays_def split: if_splits)
  show thesis
  proof (cases "\<exists>overlays config. r0 = Inr overlays \<and> go2rtc_config_of opts overlays es = Inr config")
    case False
    then have "acts = ov" "\<not> is_Inr r"
      using assms(1) o by (auto simp: write_go2rtc_config_def split: sum.splits)
    then show thesis using ov assms(3) by (intro that [of "Inl []"]) (simp_all add: spares_phase)
  next
    case True
    then obtain overlays config where c: "r0 = Inr overlays" "go2rtc_config_of opts overlays es = Inr config" by blast
    obtain r1 a where w: "write_private (fs_encode script config) (fs_fault script) (fs_tmp script) path = (r1, a)" by fastforce
    have "acts = ov @ a" "is_Inr r = is_Inr r1"
      using assms(1) o c w by (auto simp: write_go2rtc_config_def split: sum.splits)
    then show thesis
      using write_private_phase [OF w assms(2)] ov assms(3) c(2) private_phase_after
      by (intro that [of "fs_encode script config"]) auto
  qed
qed

text \<open>C8: setup changes its files in one order, each whole.  Wherever a run is stopped, by the failure
  of a step or from outside, the registry, the credentials of the first camera and the media
  server's configuration each hold their old content or their whole new one; the credentials are
  new only when the registry is, and the configuration only when both are, and then it was made
  from the very entries of the registry.  So a new configuration never stands beside an old
  registry; an old one can stand beside a new registry.\<close>

theorem setup_files_in_order:
  assumes "build_camera_registry u port_in_use recorded cams = Inr es"
    and "write_all u port_in_use opts recorded ws cams = (res, acts)"
    and "distinct [so_registry_path opts, so_out_path opts, so_go2rtc_path opts,
      fs_tmp (ws_registry ws), fs_tmp (ws_legacy ws), fs_tmp (ws_config ws)]"
    and "set [so_registry_path opts, so_out_path opts, so_go2rtc_path opts]
      \<inter> (overlay_text_path (so_go2rtc_path opts) \<circ> ce_stream_name) ` set es = {}"
    and "g = run_fs (take n acts) fs"
    and "reg_new = holds_new (fs_encode (ws_registry ws) es)"
    and "one_new = holds_new (fs_encode (ws_legacy ws) (ce_credentials (hd es)))"
  shows "(g (so_registry_path opts) = fs (so_registry_path opts) \<or> reg_new (g (so_registry_path opts)))
    \<and> (g (so_out_path opts) = fs (so_out_path opts)
       \<or> reg_new (g (so_registry_path opts)) \<and> one_new (g (so_out_path opts)))
    \<and> (g (so_go2rtc_path opts) = fs (so_go2rtc_path opts)
       \<or> reg_new (g (so_registry_path opts)) \<and> one_new (g (so_out_path opts))
         \<and> (\<exists>overlays config. go2rtc_config_of (run_options opts ws) overlays es = Inr config
              \<and> holds_new (fs_encode (ws_config ws) config) (g (so_go2rtc_path opts))))"
proof -
  let ?P1 = "so_registry_path opts" let ?P2 = "so_out_path opts" let ?P3 = "so_go2rtc_path opts"
  let ?T = "(overlay_text_path ?P3 \<circ> ce_stream_name) ` set es"
  obtain r b where w: "write_camera_files (ws_registry ws) (ws_legacy ws) ?P2 ?P1 es = (r, b)" by fastforce
  have d: "distinct [?P1, ?P2, fs_tmp (ws_registry ws), fs_tmp (ws_legacy ws)]" "fs_tmp (ws_config ws) \<noteq> ?P3"
    "?P3 \<notin> ?T" "?P1 \<notin> ?T" "?P2 \<notin> ?T"
    using assms(3,4) by auto
  obtain a1 a2 ok1 where c: "b = a1 @ a2"
    "private_phase (fs_encode (ws_registry ws) es) ?P1 a1 ok1"
    "private_phase (fs_encode (ws_legacy ws) (ce_credentials (hd es))) ?P2 a2 (is_Inr r)"
    "\<not> ok1 \<Longrightarrow> a2 = [] \<and> \<not> is_Inr r"
    "\<And>q. q \<noteq> ?P1 \<Longrightarrow> q \<noteq> fs_tmp (ws_registry ws) \<Longrightarrow> spares q a1"
    "\<And>q. q \<noteq> ?P2 \<Longrightarrow> q \<noteq> fs_tmp (ws_legacy ws) \<Longrightarrow> spares q a2"
    by (rule camera_files_phases [OF w d(1)]) (rule that; assumption)
  have sp: "spares ?P2 a1" "spares ?P3 a1" "spares ?P1 a2" "spares ?P3 a2" using c(5,6) assms(3) by auto
  have "\<exists>encoded a3 ok3. acts = a1 @ a2 @ a3 \<and> private_phase encoded ?P3 a3 ok3 \<and> spares ?P1 a3 \<and> spares ?P2 a3
      \<and> (\<not> is_Inr r \<longrightarrow> a3 = [])
      \<and> (\<forall>raw. encoded = Inr raw \<longrightarrow> (\<exists>overlays config.
          go2rtc_config_of (run_options opts ws) overlays es = Inr config \<and> fs_encode (ws_config ws) config = Inr raw))"
  proof (cases "is_Inr r \<and> ?P3 \<noteq> []")
    case False
    then have "acts = b" using assms(1,2) w by (auto simp: write_all_def split: sum.splits)
    then show ?thesis using c(1) spares_phase [of ?P3 "[]" "Inl []"] by (intro exI [of _ "Inl []"] exI [of _ "[]"]) auto
  next
    case True
    obtain r3 a3 where w3: "write_go2rtc_config (run_options opts ws) (ws_config ws) ?P3 es = (r3, a3)" by fastforce
    have acts: "acts = a1 @ a2 @ a3"
      using assms(1,2) w w3 True c(1) by (cases r) (auto simp: write_all_def split: sum.splits)
    obtain encoded where e: "private_phase encoded ?P3 a3 (is_Inr r3)"
      "\<And>raw. encoded = Inr raw \<Longrightarrow> \<exists>overlays config.
          go2rtc_config_of (run_options opts ws) overlays es = Inr config \<and> fs_encode (ws_config ws) config = Inr raw"
      "\<And>q. q \<noteq> ?P3 \<Longrightarrow> q \<noteq> fs_tmp (ws_config ws) \<Longrightarrow> q \<notin> ?T \<Longrightarrow> spares q a3"
      by (rule config_phase [OF w3 d(2,3)]) (rule that; assumption)
    have "spares ?P1 a3" "spares ?P2 a3" using e(3) [OF _ _ d(4)] e(3) [OF _ _ d(5)] assms(3) by auto
    then show ?thesis using acts e(1,2) True by blast
  qed
  then obtain encoded a3 ok3 where a: "acts = a1 @ a2 @ a3" "private_phase encoded ?P3 a3 ok3" "spares ?P1 a3"
      "spares ?P2 a3" "\<not> is_Inr r \<Longrightarrow> a3 = []"
    and e: "\<And>raw. encoded = Inr raw \<Longrightarrow> \<exists>overlays config.
          go2rtc_config_of (run_options opts ws) overlays es = Inr config \<and> fs_encode (ws_config ws) config = Inr raw" by blast
  have stop: "\<not> ok1 \<Longrightarrow> a2 = [] \<and> a3 = []" using c(4) a(5) by blast
  have cfg: "holds_new encoded x \<Longrightarrow> \<exists>overlays config. go2rtc_config_of (run_options opts ws) overlays es = Inr config
      \<and> holds_new (fs_encode (ws_config ws) config) x" for x
    using e by (cases encoded) (force simp: holds_new_def)+
  from phases_in_order [OF c(2,3) a(2) stop a(5) sp(1,2,3,4) a(3,4) assms(5) [unfolded a(1)]] cfg
  show ?thesis unfolding assms(6,7) by blast
qed

subsection \<open>Instances\<close>

definition two_cameras :: "camera_credentials list" where
  "two_cameras = [account_camera ''U2'' ''Porch'', account_camera ''U1'' ''Nursery'']"

definition two_entries :: "camera_entry list" where
  "two_entries =
     [\<lparr>ce_credentials = account_camera ''U1'' ''Nursery'', ce_stream_name = ''nursery'', ce_listen_addr = ''127.0.0.1:8555''\<rparr>,
      \<lparr>ce_credentials = account_camera ''U2'' ''Porch'', ce_stream_name = ''porch'', ce_listen_addr = ''127.0.0.1:9554''\<rparr>]"

lemma two_built: "build_camera_registry sample_unicode (\<lambda>h p. p = 8554) [] two_cameras = Inr two_entries"
  by code_simp

lemma two_names: "map ce_stream_name two_entries = [''nursery'', ''porch'']"
    "map ce_listen_addr two_entries = [''127.0.0.1:8555'', ''127.0.0.1:9554'']"
  by (simp_all add: two_entries_def)

lemma two_distinct: "distinct (map cc_udid two_cameras)" "[] \<notin> set (map cc_udid two_cameras)"
  by code_simp+

theorem setup_bridge_agree_witness:
  "\<exists>cs reg. load_credential_set (\<lambda>_. FileText []) (\<lambda>_. Inl []) (\<lambda>_. Inr (map file_of two_entries)) sample_app = Inr cs
    \<and> build_from sample_unicode sample_app cs = Inr reg
    \<and> map cm_stream_name (rg_cameras reg) = [''nursery'', ''porch'']
    \<and> map cm_listen_addr (rg_cameras reg) = [''127.0.0.1:8555'', ''127.0.0.1:9554'']"
proof -
  have 1: "two_entries \<noteq> []" "ac_registry sample_app \<noteq> []" by (simp_all add: two_entries_def sample_app_def)
  have 2: "list_all (\<lambda>c. cc_sid c \<noteq> [] \<and> cc_token c \<noteq> [] \<and> cc_control_host c \<noteq> []) two_cameras" by code_simp
  have 3: "split_host_port (ac_listen sample_app) = Some (''127.0.0.1'', ''8554'')" "atoi ''8554'' = Some 8554" by code_simp+
  have files: "(\<lambda>_. FileText []) (ac_registry sample_app) = FileText []"
    "(\<lambda>_. Inr (map file_of two_entries)) [] = Inr (map file_of two_entries)" by simp_all
  from setup_bridge_agree [OF two_built 1(1) two_distinct 2 1(2) files 3, of "\<lambda>_. Inl []"] show ?thesis
    unfolding two_names by auto
qed

theorem refresh_moves_no_camera_witness:
  "\<exists>es'. build_camera_registry sample_unicode (\<lambda>_ _. True)
      (recorded_addresses (\<lambda>_. Inr two_entries) (\<lambda>_. FileText []) ''/data/cameras.json'')
      [account_camera ''U2'' ''Porch'', (account_camera ''U1'' ''Nursery'')\<lparr>cc_token := ''t2''\<rparr>] = Inr es'
    \<and> map ce_listen_addr es' = [''127.0.0.1:8555'', ''127.0.0.1:9554'']"
proof -
  let ?new = "[account_camera ''U2'' ''Porch'', (account_camera ''U1'' ''Nursery'')\<lparr>cc_token := ''t2''\<rparr>]"
  have same: "map (\<lambda>c. (cc_udid c, cc_name c)) ?new = map (\<lambda>c. (cc_udid c, cc_name c)) two_cameras" by code_simp
  have files: "''/data/cameras.json'' \<noteq> []" "(\<lambda>_. FileText []) ''/data/cameras.json'' = FileText []"
    "(\<lambda>_. Inr two_entries) [] = Inr two_entries" by simp_all
  note r = refresh_moves_no_camera [OF two_built two_distinct same files, of "\<lambda>_ _. True"]
  then show ?thesis unfolding two_names by (elim exE conjE) (intro exI conjI; assumption)
qed

definition two_registry :: registry where
  "two_registry = projr (build_registry sample_unicode (registry_options (\<lambda>h p. p = 8554) [] two_cameras))"

theorem config_reaches_cameras_witness:
  "leads_to [(''nursery'', ''f''), (''porch'', ''g'')]
     (gc_streams (projr (go2rtc_config_of plain_options [(''nursery'', ''f''), (''porch'', ''g'')] two_entries)))
     ''vm65'' (two_entries ! 0)"
proof -
  let ?ov = "[(''nursery'', ''f''), (''porch'', ''g'')]"
  have 1: "go2rtc_config_of plain_options ?ov two_entries = Inr (projr (go2rtc_config_of plain_options ?ov two_entries))"
    by code_simp
  have 2: "distinct (map fst (table_entries ?ov 0 two_entries))" by code_simp
  have 3: "list_all (\<lambda>e. slash \<notin> set (ce_listen_addr e)) two_entries" by code_simp
  have 4: "map cm_stream_name (rg_cameras two_registry) = map ce_stream_name two_entries"
    "map cm_listen_addr (rg_cameras two_registry) = map ce_listen_addr two_entries"
    "rg_legacy_alias two_registry = legacy_name" "two_entries \<noteq> []" by code_simp+
  have 5: "(0, hd (rg_cameras two_registry)) \<in> set (indexed two_registry)"
    "published_stream_name two_registry (hd (rg_cameras two_registry)) 0 = ''vm65''" by code_simp+
  from config_reaches_cameras [OF 1 2 3 4] 5 show ?thesis by fastforce
qed

definition file_text :: "'a file_script" where
  "file_text = \<lparr>fs_encode = (\<lambda>_. Inr ''x''), fs_fault = NoFault, fs_tmp = ''t''\<rparr>"

definition sample_writes :: write_script where
  "sample_writes = \<lparr>ws_registry = file_text\<lparr>fs_tmp := ''t1''\<rparr>, ws_legacy = file_text\<lparr>fs_tmp := ''t2''\<rparr>,
     ws_config = file_text\<lparr>fs_tmp := ''t3''\<rparr>, ws_options = plain_options\<rparr>"

definition sample_setup :: setup_options where
  "sample_setup = (default_options [])\<lparr>so_go2rtc_path := ''/data/go2rtc.yaml'', so_overlay_font := ''/font.ttf''\<rparr>"

lemma clean_rooted: "path_clean (CHR ''/'' # p) = Some (if path_elems p = [] then ''/'' else join_slash (path_elems p))"
  using path_clean_rooted [of p] by (simp add: slash_def)

lemma overlay_text_data:
  assumes "path_elems (''data/overlay-'' @ stream @ ''.txt'') = [''data'', ''overlay-'' @ stream @ ''.txt'']"
  shows "overlay_text_path ''/data/go2rtc.yaml'' stream = ''/data/overlay-'' @ stream @ ''.txt''"
proof -
  have e: "path_elems ''data/'' = [''data'']" by code_simp
  have "dir_name ''/data/go2rtc.yaml'' = ''/data''"
    by (simp add: dir_name_def slash_def clean_rooted e)
  then show ?thesis using assms by (simp add: overlay_text_path_def clean_rooted slash_def)
qed

lemma overlay_texts: "(overlay_text_path ''/data/go2rtc.yaml'' \<circ> ce_stream_name) ` set two_entries
    = {''/data/overlay-nursery.txt'', ''/data/overlay-porch.txt''}"
proof -
  have "path_elems (''data/overlay-'' @ ''nursery'' @ ''.txt'') = [''data'', ''overlay-'' @ ''nursery'' @ ''.txt'']"
    "path_elems (''data/overlay-'' @ ''porch'' @ ''.txt'') = [''data'', ''overlay-'' @ ''porch'' @ ''.txt'']" by code_simp+
  from this [THEN overlay_text_data] show ?thesis by (simp add: two_entries_def)
qed

theorem setup_files_in_order_witness:
  "\<forall>n. run_fs (take n (snd (write_all sample_unicode (\<lambda>h p. p = 8554) sample_setup [] sample_writes two_cameras)))
      (\<lambda>_. None) ''/data/cameras.json'' \<in> {None, Some (''x'' @ [CHR 0x0A])}"
proof -
  have p: "so_registry_path sample_setup = ''/data/cameras.json''" "so_go2rtc_path sample_setup = ''/data/go2rtc.yaml''"
    by (simp_all add: sample_setup_def default_options_def)
  have 1: "distinct [so_registry_path sample_setup, so_out_path sample_setup, so_go2rtc_path sample_setup,
      fs_tmp (ws_registry sample_writes), fs_tmp (ws_legacy sample_writes), fs_tmp (ws_config sample_writes)]"
    by code_simp
  have 2: "set [so_registry_path sample_setup, so_out_path sample_setup, so_go2rtc_path sample_setup]
      \<inter> (overlay_text_path (so_go2rtc_path sample_setup) \<circ> ce_stream_name) ` set two_entries = {}"
    unfolding p overlay_texts by (simp add: sample_setup_def default_options_def)
  from setup_files_in_order [OF two_built prod.collapse [symmetric] 1 2 refl refl refl, where fs = "\<lambda>_. None"]
  moreover have "fs_encode (ws_registry sample_writes) two_entries = Inr ''x''"
    by (simp add: sample_writes_def file_text_def)
  ultimately show ?thesis unfolding p by (simp add: holds_new_def)
qed

end
