(* ===== verification/Spec2Isabelle.thy ===== *)
theory Spec2Isabelle
  imports Rtsp_Tunnel Tunnel_Check Page_Markup Session_Cap Bridge_Serve Runtime Control_Supervisor Still_Cache Page_Render Setup_Agreement
begin

text \<open>
  A verification development of the Motorola Nursery bridge for Home Assistant.

  The program.  Cameras of this make are reached only through the manufacturer's relay, over an
  encrypted tunnel.  \<open>cmd/vm65-setup\<close> pairs an account, lists its cameras and writes three files;
  \<open>cmd/vm65-bridge\<close> reads them and offers every camera as a local RTSP port.  A media server
  (go2rtc) reads those ports; the bridge puts an authenticating proxy, a cache of still images, a
  web page, MQTT entities and health endpoints around it.

  How the parts call each other.  A client of a camera's port becomes a session of its bridge
  (\<open>internal/bridge\<close>), which dials a tunnel (\<open>internal/magic\<close>) and copies both ways.  One bridge per
  camera runs under the runtime (\<open>internal/app\<close>), which reconciles them with the registry on every
  reload.  A supervisor of the devices' control connections (\<open>internal/devicecontrol\<close>) reports
  temperatures to a store of the process, which passes them on to the MQTT service
  (\<open>internal/mqttdiscovery\<close>).  The runtime and the process feed the health state
  (\<open>internal/health\<close>).  The account side (\<open>internal/fivegencare\<close>) is used by setup and by its
  pairing page (\<open>internal/pairing\<close>).

  Where what is.  Every theory names its source files at its top.

  \<^item> Shared ground: \<open>Prelude\<close> (types, collections, generic lemmas, locales), \<open>Go_Text\<close>, \<open>Go_Net\<close>,
    \<open>Go_Http\<close>, \<open>Digest\<close>: what the code uses of Go's strings, strconv, net, net/url, path and crypto
    packages, written out.
  \<^item> \<open>internal/magic\<close>: \<open>Relay_Open\<close> (the frame), \<open>Token_Crypto\<close> (the stream cipher), \<open>Control_Discovery\<close>
    (the relay's answers), \<open>Identity\<close> (the derived UUID), \<open>Tunnel\<close> (dialling, reading, writing).
  \<^item> \<open>internal/bridge\<close>: \<open>Bridge_Config\<close>, \<open>Bridge_Dial\<close> (retries, cooldown, the gate of waiting
    sessions), \<open>Bridge_Session\<close> (one client from accept to release), \<open>Session_Cap\<close> (the cap under
    concurrency), \<open>Bridge_Serve\<close> (the accept loop against \<open>Close\<close>).
  \<^item> \<open>internal/app\<close>: \<open>Registry\<close> (names and addresses), \<open>Runtime\<close> (start, reload, restart loop, stop).
    \<open>internal/health\<close>: \<open>Health\<close>.
  \<^item> \<open>internal/devicecontrol\<close>: \<open>Device_Control\<close> (protocol and client), \<open>Control_Supervisor\<close> (workers).
  \<^item> The HTTP side: \<open>Netguard\<close> (\<open>internal/netguard\<close>), \<open>Ingress\<close> (\<open>internal/ingress\<close>), \<open>Still_Cache\<close>
    (\<open>internal/snapshot\<close>), \<open>Language\<close> and \<open>Page_Render\<close> (\<open>internal/i18n\<close>), \<open>Web_Pages\<close>
    (\<open>internal/webui\<close>, \<open>internal/pairing\<close>), \<open>Page_Texts\<close> (the catalogs in their \<open>strings.go\<close>) and
    \<open>Page_Markup\<close> (the markup of their \<open>page.go\<close> as far as it has slots).
  \<^item> \<open>internal/fivegencare\<close>: \<open>Account_Protocol\<close>, \<open>Account_Client\<close>, \<open>Account_Store\<close>, \<open>Account_Provider\<close>.
  \<^item> \<open>internal/config\<close>: \<open>Config\<close>.  \<open>internal/mqttdiscovery\<close>: \<open>Mqtt_Discovery\<close> (the service), \<open>Mqtt_Mirror\<close>
    (the service and the broker together).
  \<^item> The processes: \<open>Bridge_Process\<close> (\<open>cmd/vm65-bridge\<close>), \<open>Setup_Process\<close> (\<open>cmd/vm65-setup\<close>,
    \<open>internal/buildinfo\<close>), \<open>Setup_Agreement\<close> (what the two promise each other through the files),
    \<open>Tunnel_Check\<close> (\<open>research/cmd/tunnelcheck\<close>, one try of the relay chain).
  \<^item> \<open>internal/rtspmock\<close>: \<open>Rtsp_Mock\<close> (the camera's connection as a function of the bytes it gets, the
    client with its readers) and \<open>Rtsp_Tunnel\<close> (their conversation across the tunnel's coders).

  How state and operations correspond.  A Go struct is a record with the fields the code reads, in
  the source's order; a method that changes its receiver returns the new record; an error is the
  left of a sum, or an option where there is only one; a panic is \<open>None\<close>, or an error value
  of its own (\<open>Panic\<close>), where the code can panic.
  Maps that are iterated are association lists.  Calls out of the program (dials, reads, clocks,
  random bytes, files, JSON, signals) are arguments: a function for a pure answer, a script of
  answers for a sequence, and the calls made are part of the result, so what a component did to the
  outside can be stated.  Goroutines that share state are step relations with one step for each
  stretch between two points where another goroutine can come in: \<open>gate_step\<close>, \<open>cap_step\<close>,
  \<open>serve_step\<close>, \<open>sup_step\<close>, \<open>control_step\<close>, \<open>cache_step\<close>, \<open>mqtt_step\<close>, \<open>provider_step\<close>.

  What the lemmas show, by group.  Protocols: every parser accepts exactly what the printer writes
  (\<open>wire_format\<close>), the cipher carries the text whatever the cuts (\<open>byte_channel\<close>).  Resources: a
  failed dial closes what it opened; a session gives its slot back on every path; the cap, the
  serving counter and the probe hold under every interleaving.  Stability: a reload leaves unchanged
  cameras alone, a rebuild or another setup run moves no camera, an interrupted write leaves every
  file whole.  Security: the proxy lets through exactly what it may, the pages act only on
  authenticated JSON requests and the pairing callback starts at most once, secrets do not reach the log, a translation cannot open markup.
  Freshness: a still image is recent and of the stream asked for; in runs whose publishes are
  acknowledged one after the other the retained MQTT topics are the service's own picture, and what a
  retired camera leaves behind is stated topic by topic.  Agreement: setup, bridge, proxy, cache, page and media server use the same
  names and addresses.  Conversation: an RTSP client that talks to a camera through the tunnel gets
  the camera's own description and media.  Texts: the shipped catalogs render both pages in every
  language, with the same placeholders, and every refusal is translated.

  Interfaces.  Each contract between components is a locale, proved about once and interpreted on
  the model's definitions where they are declared: \<open>wire_format\<close> (\<open>relay_wire\<close>, \<open>response_wire\<close>,
  \<open>temperature_wire\<close>, \<open>device_list_wire\<close>, \<open>frame_wire\<close>), \<open>byte_channel\<close> (\<open>token_channel\<close>), \<open>allow_list\<close>
  (\<open>ingress_streams\<close>, \<open>cache_streams\<close>), \<open>keyed_table\<close> (\<open>runtime_table\<close>, \<open>worker_table\<close>), \<open>report_sink\<close>
  (\<open>discovery_sink\<close>, \<open>store_sink\<close>).

  Bounds and fuel.  Integers that wrap in Go are words or pass through \<open>wrap64\<close>; durations and
  counters that cannot get near the limit are \<open>int\<close>, with the bound a hypothesis where a theorem
  depends on it.  \<open>name_loop\<close> tries at most two names more than are in use, which is enough by the
  pigeonhole principle (\<open>unique_name_total\<close>).  \<open>clean_loop\<close> and the other loops over unbounded input
  are partial functions whose returning is a theorem (\<open>normalize_path_resolves\<close>,
  \<open>mux_clean_returns\<close>).  \<open>v6_groups\<close> runs the eight rounds the library runs.

  Not modelled.  The style sheets and browser scripts inside the two pages (constant text the Go
  code does not look into); the response headers that are constants, except those the proxy sets;
  log lines, except which camera URLs are logged and that secrets are redacted; TCP keepalive of
  the client socket; the HTTP servers' timeouts and shutdown; the accept loop of the mock camera,
  which starts one independent handler per connection.  The libraries (TLS, JSON, the MQTT client,
  net/http's transport, flag parsing, ffmpeg) are arguments throughout: their code is not part of
  the repository.
\<close>

end
